(* ===== verification/Prelude.thy ===== *)
theory Prelude
  imports Main "HOL-Library.Word" "HOL-Library.Monad_Syntax"
begin

unbundle bit_operations_syntax

text \<open>
  Shared vocabulary of the development.

  \<^item> Bytes are HOL characters (eight bits), a byte memory is a total function from addresses to
    bytes, the machine integers of the C sources are words of their width.
  \<^item> An \<open>option\<close> result is a C computation that may go wrong: \<open>None\<close> is undefined behaviour (an
    access outside an array, a dereference of \<open>NULL\<close>) or a loop that never ends, \<open>Some\<close> is a
    normal return. The do-notation sequences such computations.
  \<^item> Typed little-endian loads and stores, block fill and block copy on byte memories, with the
    rewrite rules that make the component proofs short.
  \<^item> \<open>first_idx\<close>: the \<open>for\<close> loop that stops at the first slot of an array with a property.
\<close>

section \<open>Types and collections of facts\<close>

type_synonym u8 = "8 word"
type_synonym u32 = "32 word"
type_synonym u64 = "64 word"
type_synonym byte = char
type_synonym mem = "nat \<Rightarrow> byte"

abbreviation NUL :: byte where
  "NUL \<equiv> CHR 0x00"

named_theorems mem_simps \<open>loads after stores, fills and copies of byte memories\<close>
named_theorems cstr_intros \<open>introduction rules for C strings held in memory\<close>
named_theorems frame_simps \<open>state components an operation leaves alone\<close>
named_theorems inv_intros \<open>preservation of the component invariants\<close>

section \<open>Options as computations\<close>

lemma bind_Some_iff [simp]:
  "Option.bind x f = Some y \<longleftrightarrow> (\<exists>a. x = Some a \<and> f a = Some y)"
  by (cases x) auto

lemma bind_None_iff:
  "Option.bind x f = None \<longleftrightarrow> (x = None \<or> (\<exists>a. x = Some a \<and> f a = None))"
  by (cases x) auto

section \<open>The first slot of an array with a property\<close>

primrec first_idx :: "('a \<Rightarrow> bool) \<Rightarrow> 'a list \<Rightarrow> nat option" where
  "first_idx P [] = None"
| "first_idx P (x # xs) = (if P x then Some 0 else map_option Suc (first_idx P xs))"

lemma first_idx_None_iff: "first_idx P xs = None \<longleftrightarrow> (\<forall>x \<in> set xs. \<not> P x)"
  by (induction xs) auto

lemma first_idx_Some_iff:
  "first_idx P xs = Some i \<longleftrightarrow> i < length xs \<and> P (xs ! i) \<and> (\<forall>j<i. \<not> P (xs ! j))"
proof (induction xs arbitrary: i)
  case Nil
  then show ?case by simp
next
  case (Cons x xs)
  show ?case
  proof (cases i)
    case 0
    then show ?thesis by auto
  next
    case (Suc k)
    then show ?thesis by (auto simp: Cons.IH less_Suc_eq_0_disj)
  qed
qed

lemma first_idx_SomeD:
  assumes "first_idx P xs = Some i"
  shows "i < length xs" and "P (xs ! i)" and "j < i \<Longrightarrow> \<not> P (xs ! j)"
  using assms by (auto simp: first_idx_Some_iff)

lemma first_idx_lt: "first_idx P xs = Some i \<Longrightarrow> i < length xs"
  by (rule first_idx_SomeD)

lemma find_SomeE:
  assumes "find P xs = Some x"
  obtains us vs where "xs = us @ x # vs" "\<forall>u \<in> set us. \<not> P u" "P x"
  using assms
proof (induction xs arbitrary: thesis)
  case (Cons y ys)
  show ?case
  proof (cases "P y")
    case True
    with Cons.prems show ?thesis by (intro Cons.prems(1) [of "[]" ys]) auto
  next
    case False
    with Cons.prems(2) obtain us vs where "ys = us @ x # vs" "\<forall>u \<in> set us. \<not> P u" "P x"
      using Cons.IH by auto
    with False show ?thesis by (intro Cons.prems(1) [of "y # us" vs]) auto
  qed
qed simp

section \<open>Bytes\<close>

lemma of_char_lt_256 [simp]: "(of_char c :: nat) < 256"
  using of_char_mod_256 [where 'a = nat, of c] by (metis mod_less_divisor zero_less_numeral)

lemma of_char_nat_eq_iff [simp]: "(of_char c :: nat) = of_char d \<longleftrightarrow> c = d"
  by (metis char_of_char)

lemma of_char_nat_eq_0_iff [simp]: "(of_char c :: nat) = 0 \<longleftrightarrow> c = NUL"
  using of_char_nat_eq_iff [of c NUL] by simp

lemma char_of_eq_NUL_iff [simp]: "char_of (n :: nat) = NUL \<longleftrightarrow> n mod 256 = 0"
  by (metis of_char_nat_eq_0_iff of_char_of)

text \<open>The value of a byte as \<open>uint8_t\<close>, and a \<open>uint8_t\<close> as a byte.\<close>

definition to_u8 :: "byte \<Rightarrow> u8" where
  "to_u8 c = of_nat (of_char c)"

definition of_u8 :: "u8 \<Rightarrow> byte" where
  "of_u8 w = char_of (unat w)"

lemma to_of_u8 [simp, mem_simps]: "to_u8 (of_u8 w) = w"
proof -
  have "unat w < 256" using unsigned_less [where 'a = nat, of w] by simp
  then show ?thesis by (simp add: to_u8_def of_u8_def)
qed

lemma of_to_u8 [simp]: "of_u8 (to_u8 c) = c"
  by (simp add: to_u8_def of_u8_def unat_of_nat char_of_char)

lemma to_u8_NUL [simp]: "to_u8 NUL = 0"
  by (simp add: to_u8_def)

lemma to_u8_inject [simp]: "to_u8 c = to_u8 d \<longleftrightarrow> c = d"
  by (rule iffI, drule arg_cong [where f = of_u8]) simp_all

lemma to_u8_eq_0_iff [simp]: "to_u8 c = 0 \<longleftrightarrow> c = NUL"
  using to_u8_inject [of c NUL] by (simp del: to_u8_inject)

lemma unat_to_u8: "unat (to_u8 c) = of_char c"
  by (simp add: to_u8_def unat_of_nat)

section \<open>Small signed values\<close>

text \<open>The functions that return a byte count as \<open>int64_t\<close> return the unsigned count they computed: below one page the two
  readings agree.\<close>

lemma sint_below:
  fixes a :: u64
  assumes "unat a < 2 ^ 63"
  shows "sint a = int (unat a)"
proof -
  have "int (unat a) < 2 ^ 63" using assms by (metis of_nat_less_iff of_nat_numeral of_nat_power)
  then have "uint a < 2 ^ 63" by simp
  then have "sint a = uint a"
    by (simp add: sint_uint)
       (rule signed_take_bit_int_eq_self, rule order_trans [OF _ unsigned_greater_eq], simp_all)
  then show ?thesis by simp
qed

lemma sint_small:
  fixes a :: u64
  assumes "unat a \<le> 4096"
  shows "sint a = int (unat a)"
  using assms by (intro sint_below) simp

section \<open>Sums and differences that do not wrap\<close>

lemma unat_add_small:
  fixes a b :: u64
  assumes "unat a + unat b < 2 ^ 64"
  shows "unat (a + b) = unat a + unat b"
  using assms by (simp add: unat_word_ariths)

lemma unat_sub_le:
  fixes a b :: u64
  assumes "b \<le> a"
  shows "unat (a - b) = unat a - unat b"
  using assms by (simp add: unat_sub)

section \<open>Byte memories\<close>

text \<open>
  \<open>mfill\<close> and \<open>mcopy\<close> are the net effects of \<open>memset\<close> and of a copy between distinct regions;
  the loops of \<open>src/src/mm/string.c\<close> are proved equal to them in theory Cstring.
\<close>

definition mfill :: "mem \<Rightarrow> nat \<Rightarrow> byte \<Rightarrow> nat \<Rightarrow> mem" where
  "mfill m p c n = (\<lambda>a. if p \<le> a \<and> a < p + n then c else m a)"

definition mcopy :: "mem \<Rightarrow> nat \<Rightarrow> mem \<Rightarrow> nat \<Rightarrow> nat \<Rightarrow> mem" where
  "mcopy m d src s n = (\<lambda>a. if d \<le> a \<and> a < d + n then src (s + (a - d)) else m a)"

lemma mfill_in [mem_simps]: "p \<le> a \<Longrightarrow> a < p + n \<Longrightarrow> mfill m p c n a = c"
  by (simp add: mfill_def)

lemma mfill_out [mem_simps]: "a < p \<or> p + n \<le> a \<Longrightarrow> mfill m p c n a = m a"
  by (auto simp: mfill_def)

lemma mfill_0 [simp]: "mfill m p c 0 = m"
  by (rule ext) (auto simp: mfill_def)

lemma mcopy_in [mem_simps]: "d \<le> a \<Longrightarrow> a < d + n \<Longrightarrow> mcopy m d src s n a = src (s + (a - d))"
  by (simp add: mcopy_def)

lemma mcopy_out [mem_simps]: "a < d \<or> d + n \<le> a \<Longrightarrow> mcopy m d src s n a = m a"
  by (auto simp: mcopy_def)

lemma mcopy_0 [simp]: "mcopy m d src s 0 = m"
  by (rule ext) (auto simp: mcopy_def)

subsection \<open>Little-endian loads and stores\<close>

definition ld32 :: "mem \<Rightarrow> nat \<Rightarrow> u32" where
  "ld32 m a = of_nat (of_char (m a) + 256 * of_char (m (a + 1))
     + 65536 * of_char (m (a + 2)) + 16777216 * of_char (m (a + 3)))"

definition st32 :: "mem \<Rightarrow> nat \<Rightarrow> u32 \<Rightarrow> mem" where
  "st32 m a v = m(a := char_of (unat v), a + 1 := char_of (unat v div 256),
     a + 2 := char_of (unat v div 65536), a + 3 := char_of (unat v div 16777216))"

lemma bytes_of_nat32:
  fixes n :: nat
  assumes "n < 4294967296"
  shows "n mod 256 + 256 * (n div 256 mod 256) + 65536 * (n div 65536 mod 256)
    + 16777216 * (n div 16777216 mod 256) = n"
proof -
  have "n mod 256 + 256 * (n div 256) = n"
    by (rule mod_mult_div_eq)
  moreover have "n div 256 mod 256 + 256 * (n div 65536) = n div 256"
    using mod_mult_div_eq [of "n div 256" 256] by (simp add: div_mult2_eq [symmetric])
  moreover have "n div 65536 mod 256 + 256 * (n div 16777216) = n div 65536"
    using mod_mult_div_eq [of "n div 65536" 256] by (simp add: div_mult2_eq [symmetric])
  moreover have "n div 16777216 mod 256 = n div 16777216"
    using assms by (simp add: less_mult_imp_div_less)
  ultimately show ?thesis by linarith
qed

lemma ld32_st32 [simp, mem_simps]: "ld32 (st32 m a v) a = v"
proof -
  have "unat v < 4294967296" using unsigned_less [where 'a = nat, of v] by simp
  then have "of_nat (unat v mod 256 + 256 * (unat v div 256 mod 256)
      + 65536 * (unat v div 65536 mod 256) + 16777216 * (unat v div 16777216 mod 256)) = v"
    by (simp only: bytes_of_nat32 of_nat_unat ucast_id)
  then show ?thesis
    by (simp add: ld32_def st32_def)
qed

lemma st32_out [mem_simps]: "b < a \<or> a + 4 \<le> b \<Longrightarrow> st32 m a v b = m b"
  by (auto simp: st32_def)

lemma ld32_cong:
  assumes "m a = m' a" "m (a + 1) = m' (a + 1)" "m (a + 2) = m' (a + 2)" "m (a + 3) = m' (a + 3)"
  shows "ld32 m a = ld32 m' a"
  using assms by (simp add: ld32_def)

lemma ld32_st32_out [mem_simps]: "b + 4 \<le> a \<or> a + 4 \<le> b \<Longrightarrow> ld32 (st32 m a v) b = ld32 m b"
  by (rule ld32_cong) (auto simp: st32_def)

lemma ld32_upd_out [mem_simps]: "p < a \<or> a + 4 \<le> p \<Longrightarrow> ld32 (m(p := c)) a = ld32 m a"
  by (rule ld32_cong) auto

lemma ld32_mfill_out [mem_simps]: "a + 4 \<le> p \<or> p + n \<le> a \<Longrightarrow> ld32 (mfill m p c n) a = ld32 m a"
  by (rule ld32_cong) (auto simp: mfill_def)

lemma ld32_mfill_0 [mem_simps]: "p \<le> a \<Longrightarrow> a + 4 \<le> p + n \<Longrightarrow> ld32 (mfill m p NUL n) a = 0"
  by (simp add: ld32_def mfill_def)

lemma ld32_mcopy_out [mem_simps]: "a + 4 \<le> d \<or> d + n \<le> a \<Longrightarrow> ld32 (mcopy m d src s n) a = ld32 m a"
  by (rule ld32_cong) (auto simp: mcopy_def)

lemma ld32_mcopy_in [mem_simps]:
  assumes "d \<le> a" "a + 4 \<le> d + n"
  shows "ld32 (mcopy m d src s n) a = ld32 src (s + (a - d))"
proof -
  have "mcopy m d src s n (a + k) = src (s + (a - d) + k)" if "k < 4" for k
    using assms that by (simp add: mcopy_def add.assoc)
  from this [of 0] this [of 1] this [of 2] this [of 3] show ?thesis
    by (simp add: ld32_def)
qed

section \<open>C strings as values\<close>

text \<open>
  A HOL string stands for the bytes of a C string before its terminator. \<open>cs_nth s i\<close> is the C
  expression \<open>s[i]\<close> for \<open>i \<le> strlen(s)\<close>.
\<close>

definition cs_nth :: "string \<Rightarrow> nat \<Rightarrow> byte" where
  "cs_nth s i = (if i < length s then s ! i else NUL)"

lemma cs_nth_simps [simp]:
  "cs_nth [] i = NUL"
  "cs_nth (c # s) 0 = c"
  "cs_nth (c # s) (Suc i) = cs_nth s i"
  by (simp_all add: cs_nth_def)

text \<open>\<open>strcpy\<close> and \<open>strcat\<close> into a \<open>char\<close> array of \<open>n\<close> bytes: the result needs its terminator too.\<close>

definition into_buf :: "nat \<Rightarrow> string \<Rightarrow> string option" where
  "into_buf n s = (if length s < n then Some s else None)"

lemma into_buf_Some_iff [simp]: "into_buf n s = Some t \<longleftrightarrow> t = s \<and> length s < n"
  by (auto simp: into_buf_def)

lemma into_buf_None_iff [simp]: "into_buf n s = None \<longleftrightarrow> n \<le> length s"
  by (auto simp: into_buf_def)

lemma find_only: "c \<in> set xs \<Longrightarrow> (\<And>q. q \<in> set xs \<Longrightarrow> P q \<longleftrightarrow> q = c) \<Longrightarrow> find P xs = Some c"
  by (induction xs) auto

section \<open>Invariants of step relations\<close>

text \<open>The contract of an invariant: no step of the system breaks it. Each component that is run by a step relation interprets it.\<close>

locale kept =
  fixes inv :: "'s \<Rightarrow> bool"
    and step :: "'s \<Rightarrow> 's \<Rightarrow> bool"
  assumes step_inv: "step s s' \<Longrightarrow> inv s \<Longrightarrow> inv s'"
begin

lemma steps_inv: "step\<^sup>*\<^sup>* s s' \<Longrightarrow> inv s \<Longrightarrow> inv s'"
  by (induction rule: rtranclp_induct) (auto intro: step_inv)

text \<open>What holds in every state with the invariant holds all along a run.\<close>

lemma always:
  assumes "step\<^sup>*\<^sup>* s s'" "inv s" "\<And>t. inv t \<Longrightarrow> P t"
  shows "P s'"
  using assms steps_inv by blast

end

end
