(* ===== verification/Cstring.thy ===== *)
theory Cstring
  imports Prelude
begin

text \<open>
  The string library \<open>src/src/mm/string.c\<close> on a flat byte memory.

  A pointer is an address, a \<open>NULL\<close> result is \<open>None\<close>. Loops bounded by a count are structural
  recursions on the count. Loops that run to a terminator are \<open>partial_function (option)\<close>
  definitions: a string with no terminator makes them diverge, which is \<open>None\<close>. The predicate
  \<open>cstr m p s\<close> says that the memory holds the C string \<open>s\<close> at \<open>p\<close>; every routine is proved to
  return on such inputs and to compute a function of the strings alone, which is what the other
  theories use in place of the memory-level routines.
\<close>

section \<open>C strings in memory\<close>

primrec cstr :: "mem \<Rightarrow> nat \<Rightarrow> string \<Rightarrow> bool" where
  "cstr m p [] \<longleftrightarrow> m p = NUL"
| "cstr m p (c # s) \<longleftrightarrow> c \<noteq> NUL \<and> m p = c \<and> cstr m (Suc p) s"

lemma cstr_nth: "cstr m p s \<Longrightarrow> i < length s \<Longrightarrow> m (p + i) = s ! i"
proof (induction s arbitrary: p i)
  case (Cons c s)
  then show ?case by (cases i) (auto simp: Cons.IH [of "Suc p", simplified])
qed simp

lemma cstr_end: "cstr m p s \<Longrightarrow> m (p + length s) = NUL"
  by (induction s arbitrary: p) force+

lemma cstr_no_NUL: "cstr m p s \<Longrightarrow> NUL \<notin> set s"
  by (induction s arbitrary: p) auto

lemma cstr_iff:
  "cstr m p s \<longleftrightarrow> NUL \<notin> set s \<and> (\<forall>i<length s. m (p + i) = s ! i) \<and> m (p + length s) = NUL"
proof
  assume "cstr m p s"
  then show "NUL \<notin> set s \<and> (\<forall>i<length s. m (p + i) = s ! i) \<and> m (p + length s) = NUL"
    by (simp add: cstr_nth cstr_end cstr_no_NUL)
next
  show "NUL \<notin> set s \<and> (\<forall>i<length s. m (p + i) = s ! i) \<and> m (p + length s) = NUL \<Longrightarrow> cstr m p s"
    by (induction s arbitrary: p) force+
qed

lemma cstr_unique: "cstr m p s \<Longrightarrow> cstr m p t \<Longrightarrow> s = t"
  by (induction s arbitrary: p t) (case_tac t; auto)+

lemma cstr_append: "cstr m p (s @ t) \<longleftrightarrow> NUL \<notin> set s \<and> (\<forall>i<length s. m (p + i) = s ! i) \<and> cstr m (p + length s) t"
  by (induction s arbitrary: p) (auto simp: less_Suc_eq_0_disj)

lemma cstr_cong [cstr_intros]:
  assumes "cstr m p s" "\<And>a. p \<le> a \<Longrightarrow> a \<le> p + length s \<Longrightarrow> m' a = m a"
  shows "cstr m' p s"
  using assms by (simp add: cstr_iff)

lemma cstr_mcopy [cstr_intros]: "cstr m s t \<Longrightarrow> cstr (mcopy m' d m s (Suc (length t))) d t"
  by (simp add: cstr_iff mcopy_def)

section \<open>memset, memcpy and memmove\<close>

fun memset_loop :: "mem \<Rightarrow> nat \<Rightarrow> byte \<Rightarrow> nat \<Rightarrow> mem" where
  "memset_loop m p c 0 = m"
| "memset_loop m p c (Suc n) = memset_loop (m(p := c)) (Suc p) c n"

definition memset :: "mem \<Rightarrow> nat \<Rightarrow> int \<Rightarrow> nat \<Rightarrow> nat \<times> mem" where
  "memset m s c n = (s, memset_loop m s (char_of c) n)"

fun memcpy_loop :: "mem \<Rightarrow> nat \<Rightarrow> nat \<Rightarrow> nat \<Rightarrow> mem" where
  "memcpy_loop m d s 0 = m"
| "memcpy_loop m d s (Suc n) = memcpy_loop (m(d := m s)) (Suc d) (Suc s) n"

definition memcpy :: "mem \<Rightarrow> nat \<Rightarrow> nat \<Rightarrow> nat \<Rightarrow> nat \<times> mem" where
  "memcpy m dst src n = (dst, memcpy_loop m dst src n)"

text \<open>The backward loop of \<open>memmove\<close> starts at the ends of both regions: \<open>*--d = *--s\<close>.\<close>

fun memmove_back :: "mem \<Rightarrow> nat \<Rightarrow> nat \<Rightarrow> nat \<Rightarrow> mem" where
  "memmove_back m d s 0 = m"
| "memmove_back m d s (Suc n) = memmove_back (m(d - 1 := m (s - 1))) (d - 1) (s - 1) n"

definition memmove :: "mem \<Rightarrow> nat \<Rightarrow> nat \<Rightarrow> nat \<Rightarrow> nat \<times> mem" where
  "memmove m dest src n =
     (dest, if src < dest \<and> dest < src + n then memmove_back m (dest + n) (src + n) n
            else memcpy_loop m dest src n)"

lemma memset_loop_eq: "memset_loop m p c n = mfill m p c n"
proof (induction n arbitrary: m p)
  case 0
  then show ?case by simp
next
  case (Suc n)
  then show ?case by (auto simp: fun_eq_iff mfill_def)
qed

lemma memcpy_loop_eq: "d \<le> s \<or> s + n \<le> d \<Longrightarrow> memcpy_loop m d s n = mcopy m d m s n"
proof (induction n arbitrary: m d s)
  case 0
  then show ?case by simp
next
  case (Suc n)
  then have "memcpy_loop m d s (Suc n) = mcopy (m(d := m s)) (Suc d) (m(d := m s)) (Suc s) n"
    by (simp only: memcpy_loop.simps) (rule Suc.IH, arith)
  also have "\<dots> = mcopy m d m s (Suc n)"
    using Suc.prems by (auto simp: fun_eq_iff mcopy_def Suc_diff_Suc Suc_diff_le intro!: arg_cong [of _ _ m])
  finally show ?case .
qed

lemma memmove_back_eq: "s < d \<Longrightarrow> memmove_back m (d + n) (s + n) n = mcopy m d m s n"
proof (induction n arbitrary: m)
  case 0
  then show ?case by simp
next
  case (Suc n)
  then have "memmove_back m (d + Suc n) (s + Suc n) (Suc n)
      = mcopy (m(d + n := m (s + n))) d (m(d + n := m (s + n))) s n"
    by simp
  also have "\<dots> = mcopy m d m s (Suc n)"
    using Suc.prems by (auto simp: fun_eq_iff mcopy_def less_Suc_eq)
  finally show ?case .
qed

lemma memmove_eq_mcopy: "memmove m d s n = (d, mcopy m d m s n)"
  by (auto simp: memmove_def memmove_back_eq memcpy_loop_eq)

section \<open>strlen, strcmp and strncmp\<close>

partial_function (option) strlen_loop :: "mem \<Rightarrow> nat \<Rightarrow> nat option" where
  "strlen_loop m p = (if m p \<noteq> NUL then strlen_loop m (Suc p) else Some p)"

definition strlen :: "mem \<Rightarrow> nat \<Rightarrow> nat option" where
  "strlen m s = do { p \<leftarrow> strlen_loop m s; Some (p - s) }"

partial_function (option) strcmp_loop :: "mem \<Rightarrow> nat \<Rightarrow> nat \<Rightarrow> (nat \<times> nat) option" where
  "strcmp_loop m s1 s2 =
     (if m s1 \<noteq> NUL \<and> m s1 = m s2 then strcmp_loop m (Suc s1) (Suc s2) else Some (s1, s2))"

definition strcmp :: "mem \<Rightarrow> nat \<Rightarrow> nat \<Rightarrow> int option" where
  "strcmp m s1 s2 = do { (p, q) \<leftarrow> strcmp_loop m s1 s2; Some (of_char (m p) - of_char (m q)) }"

fun strncmp_loop :: "mem \<Rightarrow> nat \<Rightarrow> nat \<Rightarrow> nat \<Rightarrow> nat \<times> nat \<times> nat" where
  "strncmp_loop m s1 s2 0 = (s1, s2, 0)"
| "strncmp_loop m s1 s2 (Suc n) =
     (if m s1 \<noteq> NUL \<and> m s1 = m s2 then strncmp_loop m (Suc s1) (Suc s2) n else (s1, s2, Suc n))"

definition strncmp :: "mem \<Rightarrow> nat \<Rightarrow> nat \<Rightarrow> nat \<Rightarrow> int" where
  "strncmp m s1 s2 n =
     (case strncmp_loop m s1 s2 n of (p, q, r) \<Rightarrow>
        if r = 0 then 0 else of_char (m p) - of_char (m q))"

text \<open>What the two comparisons compute, on the strings themselves.\<close>

fun strcmp_s :: "string \<Rightarrow> string \<Rightarrow> int" where
  "strcmp_s (c # s) (d # t) = (if c = d then strcmp_s s t else of_char c - of_char d)"
| "strcmp_s [] t = - of_char (cs_nth t 0)"
| "strcmp_s (c # s) [] = of_char c"

definition strncmp_s :: "string \<Rightarrow> string \<Rightarrow> nat \<Rightarrow> int" where
  "strncmp_s s t n = strcmp_s (take n s) (take n t)"

lemma strlen_loop_cstr: "cstr m p s \<Longrightarrow> strlen_loop m p = Some (p + length s)"
  by (induction s arbitrary: p) (subst strlen_loop.simps, simp)+

lemma strlen_cstr: "cstr m p s \<Longrightarrow> strlen m p = Some (length s)"
  by (simp add: strlen_def strlen_loop_cstr)

lemma strcmp_cstr: "cstr m p s \<Longrightarrow> cstr m q t \<Longrightarrow> strcmp m p q = Some (strcmp_s s t)"
proof (induction s t arbitrary: p q rule: strcmp_s.induct)
  case (1 c s d t)
  then show ?case
    by (simp add: strcmp_def strcmp_loop.simps [of m p q])
next
  case (2 t)
  then show ?case
    by (cases t) (simp_all add: strcmp_def strcmp_loop.simps [of m p q])
next
  case (3 c s)
  then show ?case
    by (simp_all add: strcmp_def strcmp_loop.simps [of m p q])
qed

lemma strncmp_cstr: "cstr m p s \<Longrightarrow> cstr m q t \<Longrightarrow> strncmp m p q n = strncmp_s s t n"
proof (induction n arbitrary: p q s t)
  case 0
  then show ?case by (simp add: strncmp_def strncmp_s_def)
next
  case (Suc n)
  show ?case
  proof (cases "m p \<noteq> NUL \<and> m p = m q")
    case True
    with Suc.prems obtain c s' t' where "s = c # s'" "t = c # t'"
      "cstr m (Suc p) s'" "cstr m (Suc q) t'"
      by (cases s; cases t) auto
    with Suc.IH [of "Suc p" s' "Suc q" t'] True show ?thesis
      by (auto simp: strncmp_def strncmp_s_def)
  next
    case False
    with Suc.prems show ?thesis
      by (cases s; cases t) (auto simp: strncmp_def strncmp_s_def)
  qed
qed

lemma of_char_int_eq_iff [simp]: "(of_char c :: int) = of_char d \<longleftrightarrow> c = d"
  by (metis char_of_char)

lemma of_char_int_eq_0_iff [simp]: "(of_char c :: int) = 0 \<longleftrightarrow> c = NUL"
  using of_char_int_eq_iff [of c NUL] by simp

lemma strcmp_s_eq_0_iff: "NUL \<notin> set s \<Longrightarrow> NUL \<notin> set t \<Longrightarrow> strcmp_s s t = 0 \<longleftrightarrow> s = t"
proof (induction s t rule: strcmp_s.induct)
  case (2 t)
  then show ?case by (cases t) auto
qed auto

lemma strncmp_s_eq_0_iff:
  "NUL \<notin> set s \<Longrightarrow> NUL \<notin> set t \<Longrightarrow> strncmp_s s t n = 0 \<longleftrightarrow> take n s = take n t"
  unfolding strncmp_s_def by (rule strcmp_s_eq_0_iff) (auto dest: in_set_takeD)

section \<open>strcpy, strcat and strncpy\<close>

partial_function (option) strcpy_loop :: "mem \<Rightarrow> nat \<Rightarrow> nat \<Rightarrow> mem option" where
  "strcpy_loop m d src =
     (if m src \<noteq> NUL then strcpy_loop (m(d := m src)) (Suc d) (Suc src) else Some (m(d := m src)))"

definition strcpy :: "mem \<Rightarrow> nat \<Rightarrow> nat \<Rightarrow> (nat \<times> mem) option" where
  "strcpy m dest src = do { m' \<leftarrow> strcpy_loop m dest src; Some (dest, m') }"

definition strcat :: "mem \<Rightarrow> nat \<Rightarrow> nat \<Rightarrow> (nat \<times> mem) option" where
  "strcat m dest src =
     do { d \<leftarrow> strlen_loop m dest; m' \<leftarrow> strcpy_loop m d src; Some (dest, m') }"

text \<open>The last argument of \<open>strncpy_copy\<close> is the distance \<open>n - i\<close> left in the first \<open>for\<close> loop.\<close>

fun strncpy_copy :: "mem \<Rightarrow> nat \<Rightarrow> nat \<Rightarrow> nat \<Rightarrow> nat \<Rightarrow> nat \<times> nat \<times> mem" where
  "strncpy_copy m dest src i 0 = (i, 0, m)"
| "strncpy_copy m dest src i (Suc r) =
     (if m (src + i) \<noteq> NUL then strncpy_copy (m(dest + i := m (src + i))) dest src (Suc i) r
      else (i, Suc r, m))"

definition strncpy :: "mem \<Rightarrow> nat \<Rightarrow> nat \<Rightarrow> nat \<Rightarrow> nat \<times> mem" where
  "strncpy m dest src n =
     (case strncpy_copy m dest src 0 n of (i, r, m') \<Rightarrow> (dest, memset_loop m' (dest + i) NUL r))"

text \<open>\<open>separate p n q k\<close>: the regions of \<open>n\<close> bytes at \<open>p\<close> and of \<open>k\<close> bytes at \<open>q\<close> do not overlap.\<close>

definition separate :: "nat \<Rightarrow> nat \<Rightarrow> nat \<Rightarrow> nat \<Rightarrow> bool" where
  "separate p n q k \<longleftrightarrow> p + n \<le> q \<or> q + k \<le> p"

lemma strcpy_loop_cstr:
  assumes "cstr m s t" "separate d (Suc (length t)) s (Suc (length t))"
  shows "strcpy_loop m d s = Some (mcopy m d m s (Suc (length t)))"
  using assms
proof (induction t arbitrary: m d s)
  case Nil
  then show ?case
    by (subst strcpy_loop.simps) (auto simp: mcopy_def fun_eq_iff separate_def)
next
  case (Cons c t)
  let ?m = "m(d := m s)"
  have "cstr ?m (Suc s) t" "separate (Suc d) (Suc (length t)) (Suc s) (Suc (length t))"
    using Cons.prems by (auto intro!: cstr_cong [of m] simp: separate_def)
  then have "strcpy_loop ?m (Suc d) (Suc s) = Some (mcopy ?m (Suc d) ?m (Suc s) (Suc (length t)))"
    by (rule Cons.IH)
  then have "strcpy_loop m d s = Some (mcopy ?m (Suc d) ?m (Suc s) (Suc (length t)))"
    using Cons.prems by (subst strcpy_loop.simps) simp
  also have "mcopy ?m (Suc d) ?m (Suc s) (Suc (length t)) = mcopy m d m s (Suc (length (c # t)))"
    using Cons.prems
    by (auto simp: mcopy_def fun_eq_iff separate_def Suc_diff_Suc Suc_diff_le intro!: arg_cong [of _ _ m])
  finally show ?case .
qed

lemma strcpy_cstr:
  assumes "cstr m s t" "separate d (Suc (length t)) s (Suc (length t))"
  shows "strcpy m d s = Some (d, mcopy m d m s (Suc (length t)))"
  using strcpy_loop_cstr [OF assms] by (simp add: strcpy_def)

lemma strcat_cstr:
  assumes "cstr m d u" "cstr m s t"
    and sep: "separate d (Suc (length u + length t)) s (Suc (length t))"
  shows "\<exists>m'. strcat m d s = Some (d, m') \<and> cstr m' d (u @ t)
    \<and> (\<forall>a. a < d + length u \<or> d + length u + length t < a \<longrightarrow> m' a = m a)"
proof -
  let ?e = "d + length u" and ?m' = "mcopy m (d + length u) m s (Suc (length t))"
  have "strcpy_loop m ?e s = Some ?m'"
    using assms by (intro strcpy_loop_cstr) (auto simp: separate_def)
  then have "strcat m d s = Some (d, ?m')"
    by (simp add: strcat_def strlen_loop_cstr [OF assms(1)])
  moreover have "cstr ?m' ?e t"
    using assms(2) by (rule cstr_mcopy)
  then have "cstr ?m' d (u @ t)"
    using assms(1) by (simp only: cstr_append) (auto simp: cstr_iff mcopy_def)
  ultimately show ?thesis
    by (auto simp: mcopy_def)
qed

lemma strncpy_copy_eq:
  assumes "cstr m (src + i) t" "separate dest (i + r) src (i + Suc (length t))"
  shows "strncpy_copy m dest src i r =
    (i + min r (length t), r - length t, mcopy m (dest + i) m (src + i) (min r (length t)))"
  using assms
proof (induction r arbitrary: m i t)
  case 0
  then show ?case by simp
next
  case (Suc r)
  show ?case
  proof (cases t)
    case Nil
    with Suc.prems show ?thesis by simp
  next
    case (Cons c u)
    let ?m = "m(dest + i := m (src + i))"
    have "cstr ?m (src + Suc i) u" "separate dest (Suc i + r) src (Suc i + Suc (length u))"
      using Suc.prems Cons by (auto intro!: cstr_cong [of m] simp: separate_def)
    from Suc.IH [OF this]
    have "strncpy_copy ?m dest src (Suc i) r = (Suc i + min r (length u), r - length u,
        mcopy ?m (dest + Suc i) ?m (src + Suc i) (min r (length u)))" .
    moreover have "mcopy ?m (dest + Suc i) ?m (src + Suc i) (min r (length u))
        = mcopy m (dest + i) m (src + i) (Suc (min r (length u)))"
      using Suc.prems Cons by (auto simp: mcopy_def fun_eq_iff separate_def Suc_diff_Suc Suc_diff_le
          intro!: arg_cong [of _ _ m])
    ultimately show ?thesis
      using Suc.prems Cons by simp
  qed
qed

lemma strncpy_nth:
  assumes "cstr m src t" "separate dest n src (Suc (length t))"
  shows "snd (strncpy m dest src n) a =
    (if dest \<le> a \<and> a < dest + n then cs_nth t (a - dest) else m a)"
proof -
  have "strncpy m dest src n = (dest, mfill (mcopy m dest m src (min n (length t)))
      (dest + min n (length t)) NUL (n - length t))"
    using strncpy_copy_eq [of m src 0 t dest n] assms
    by (simp add: strncpy_def memset_loop_eq)
  then show ?thesis
    using cstr_nth [OF assms(1), of "a - dest"]
    by (auto simp: mfill_def mcopy_def cs_nth_def min_def)
qed

section \<open>strrchr and strstr\<close>

partial_function (option) strrchr_loop :: "mem \<Rightarrow> nat \<Rightarrow> byte \<Rightarrow> nat option \<Rightarrow> (nat \<times> nat option) option"
where
  "strrchr_loop m str c lst =
     (if m str \<noteq> NUL then strrchr_loop m (Suc str) c (if m str = c then Some str else lst)
      else Some (str, lst))"

definition strrchr :: "mem \<Rightarrow> nat \<Rightarrow> int \<Rightarrow> nat option option" where
  "strrchr m str c =
     do { (e, lst) \<leftarrow> strrchr_loop m str (char_of c) None; Some (if c = 0 then Some e else lst) }"

partial_function (option) strstr_inner :: "mem \<Rightarrow> nat \<Rightarrow> nat \<Rightarrow> (nat \<times> nat) option" where
  "strstr_inner m h n =
     (if m h \<noteq> NUL \<and> m n \<noteq> NUL \<and> m h = m n then strstr_inner m (Suc h) (Suc n) else Some (h, n))"

partial_function (option) strstr_loop :: "mem \<Rightarrow> nat \<Rightarrow> nat \<Rightarrow> nat option option" where
  "strstr_loop m haystack needle =
     (if m haystack \<noteq> NUL
      then do { (h, n) \<leftarrow> strstr_inner m haystack needle;
                if m n = NUL then Some (Some haystack) else strstr_loop m (Suc haystack) needle }
      else Some None)"

definition strstr :: "mem \<Rightarrow> nat \<Rightarrow> nat \<Rightarrow> nat option option" where
  "strstr m haystack needle =
     (if m needle = NUL then Some (Some haystack) else strstr_loop m haystack needle)"

text \<open>The value of \<open>strrchr\<close> on the string: the last position of a byte.\<close>

primrec last_idx :: "byte \<Rightarrow> string \<Rightarrow> nat option" where
  "last_idx c [] = None"
| "last_idx c (d # s) =
     (case last_idx c s of Some i \<Rightarrow> Some (Suc i) | None \<Rightarrow> if d = c then Some 0 else None)"

lemma last_idx_None_iff: "last_idx c s = None \<longleftrightarrow> c \<notin> set s"
  by (induction s) (auto split: option.splits)

lemma last_idx_Some:
  "last_idx c s = Some i \<Longrightarrow> i < length s \<and> s ! i = c \<and> c \<notin> set (drop (Suc i) s)"
  by (induction s arbitrary: i) (auto simp: last_idx_None_iff split: option.splits if_splits)

lemma last_idx_append_notin: "c \<notin> set t \<Longrightarrow> last_idx c (s @ c # t) = Some (length s)"
  by (induction s) (auto simp: last_idx_None_iff split: option.splits)

lemma strrchr_loop_cstr:
  "cstr m p s \<Longrightarrow> strrchr_loop m p c lst = Some (p + length s,
     case last_idx c s of Some i \<Rightarrow> Some (p + i) | None \<Rightarrow> lst)"
proof (induction s arbitrary: p lst)
  case Nil
  then show ?case by (subst strrchr_loop.simps) simp
next
  case (Cons d s)
  then show ?case
    by (subst strrchr_loop.simps) (auto split: option.splits)
qed

lemma strrchr_cstr:
  assumes "cstr m p s" "c \<noteq> 0"
  shows "strrchr m p c = Some (map_option ((+) p) (last_idx (char_of c) s))"
  using strrchr_loop_cstr [OF assms(1)] assms(2)
  by (auto simp: strrchr_def split: option.splits)

text \<open>\<open>strstr\<close> finds the first position at which the needle is a prefix of the rest.\<close>

primrec first_occ :: "string \<Rightarrow> string \<Rightarrow> nat option" where
  "first_occ t [] = (if t = [] then Some 0 else None)"
| "first_occ t (c # s) =
     (if take (length t) (c # s) = t then Some 0 else map_option Suc (first_occ t s))"

lemma strstr_inner_cstr:
  "cstr m h s \<Longrightarrow> cstr m n t \<Longrightarrow>
     \<exists>h' n'. strstr_inner m h n = Some (h', n') \<and> (m n' = NUL \<longleftrightarrow> take (length t) s = t)"
proof (induction s arbitrary: h n t)
  case Nil
  then show ?case
    by (cases t) (subst strstr_inner.simps, simp)+
next
  case (Cons c s)
  show ?case
  proof (cases t)
    case Nil
    with Cons.prems show ?thesis by (subst strstr_inner.simps) simp
  next
    case (Cons d u)
    with Cons.prems Cons.IH [of "Suc h" "Suc n" u] show ?thesis
      by (subst strstr_inner.simps) auto
  qed
qed

lemma plus_Suc_fun [simp]: "(+) (Suc p) = (\<lambda>a. Suc (p + a))"
  by (rule ext) simp

lemma map_option_shift [simp]: "map_option ((+) p) (map_option Suc x) = map_option (\<lambda>a. Suc (p + a)) x"
  by (cases x) simp_all

lemma strstr_loop_cstr:
  "cstr m h s \<Longrightarrow> cstr m n t \<Longrightarrow> t \<noteq> [] \<Longrightarrow>
     strstr_loop m h n = Some (map_option ((+) h) (first_occ t s))"
proof (induction s arbitrary: h)
  case Nil
  then show ?case by (subst strstr_loop.simps) simp
next
  case (Cons c s)
  from strstr_inner_cstr [OF Cons.prems(1,2)] obtain h' n' where
    "strstr_inner m h n = Some (h', n')" "m n' = NUL \<longleftrightarrow> take (length t) (c # s) = t"
    by blast
  with Cons show ?case
    by (subst strstr_loop.simps) (auto simp del: take_Suc_Cons)
qed

lemma strstr_cstr:
  "cstr m h s \<Longrightarrow> cstr m n t \<Longrightarrow> strstr m h n = Some (map_option ((+) h) (first_occ t s))"
proof (cases "t = []")
  case True
  assume "cstr m h s" "cstr m n t"
  with True show ?thesis by (cases s) (simp_all add: strstr_def)
next
  case False
  assume *: "cstr m h s" "cstr m n t"
  with False have "m n \<noteq> NUL" by (cases t) auto
  with strstr_loop_cstr [OF * False] show ?thesis by (simp add: strstr_def)
qed

section \<open>strspn, strpbrk and strtok_r\<close>

text \<open>
  The inner loop of \<open>strspn\<close>: walk \<open>accept\<close> until its end or the wanted byte. The inner loop of
  \<open>strpbrk\<close> visits the same addresses and returns at the match; both are the scan below.
\<close>

partial_function (option) accept_scan :: "mem \<Rightarrow> byte \<Rightarrow> nat \<Rightarrow> nat option" where
  "accept_scan m c a = (if m a \<noteq> NUL then (if c = m a then Some a else accept_scan m c (Suc a)) else Some a)"

partial_function (option) strspn_loop :: "mem \<Rightarrow> nat \<Rightarrow> nat \<Rightarrow> nat \<Rightarrow> nat option" where
  "strspn_loop m str accept count =
     (if m str \<noteq> NUL
      then do { s \<leftarrow> accept_scan m (m str) accept;
                if m s = NUL then Some count else strspn_loop m (Suc str) accept (Suc count) }
      else Some count)"

definition strspn :: "mem \<Rightarrow> nat \<Rightarrow> nat \<Rightarrow> nat option" where
  "strspn m str accept = strspn_loop m str accept 0"

partial_function (option) strpbrk :: "mem \<Rightarrow> nat \<Rightarrow> nat \<Rightarrow> nat option option" where
  "strpbrk m str accept =
     (if m str \<noteq> NUL
      then do { a \<leftarrow> accept_scan m (m str) accept;
                if m a \<noteq> NUL then Some (Some str) else strpbrk m (Suc str) accept }
      else Some None)"

text \<open>
  \<open>strtok_r(str, delim, &save)\<close>: the first argument is \<open>None\<close> for \<open>NULL\<close>; the result is the
  token pointer, the new value of the save pointer and the memory.
\<close>

definition strtok_r ::
  "mem \<Rightarrow> nat option \<Rightarrow> nat \<Rightarrow> nat \<Rightarrow> (nat option \<times> nat \<times> mem) option" where
  "strtok_r m str0 delim saveptr =
     do { let str1 = (case str0 of None \<Rightarrow> saveptr | Some q \<Rightarrow> q);
          k \<leftarrow> strspn m str1 delim;
          let str = str1 + k;
          if m str = NUL then Some (None, str, m)
          else do { let token = str;
                    b \<leftarrow> strpbrk m str delim;
                    case b of
                      None \<Rightarrow> do { n \<leftarrow> strlen m token; Some (Some token, token + n, m) }
                    | Some q \<Rightarrow> Some (Some token, Suc q, m(q := NUL)) } }"

lemma accept_scan_cstr:
  "cstr m a acc \<Longrightarrow> \<exists>r. accept_scan m c a = Some r \<and> (m r = NUL \<longleftrightarrow> c \<notin> set acc)"
  by (induction acc arbitrary: a) (subst accept_scan.simps, force)+

lemma strspn_loop_cstr:
  "cstr m p s \<Longrightarrow> cstr m a acc \<Longrightarrow>
     strspn_loop m p a k = Some (k + length (takeWhile (\<lambda>c. c \<in> set acc) s))"
proof (induction s arbitrary: p k)
  case Nil
  then show ?case by (subst strspn_loop.simps) simp
next
  case (Cons c s)
  from accept_scan_cstr [OF Cons.prems(2), of c] Cons show ?case
    by (subst strspn_loop.simps) auto
qed

lemma strspn_cstr:
  "cstr m p s \<Longrightarrow> cstr m a acc \<Longrightarrow> strspn m p a = Some (length (takeWhile (\<lambda>c. c \<in> set acc) s))"
  by (simp add: strspn_def strspn_loop_cstr)

lemma strpbrk_cstr:
  "cstr m p s \<Longrightarrow> cstr m a acc \<Longrightarrow>
     strpbrk m p a = Some (map_option ((+) p) (first_idx (\<lambda>c. c \<in> set acc) s))"
proof (induction s arbitrary: p)
  case Nil
  then show ?case by (subst strpbrk.simps) simp
next
  case (Cons c s)
  from accept_scan_cstr [OF Cons.prems(2), of c] obtain r where
    "accept_scan m c a = Some r" "m r = NUL \<longleftrightarrow> c \<notin> set acc" by blast
  with Cons.prems Cons.IH [of "Suc p"] show ?case
    by (subst strpbrk.simps) auto
qed

text \<open>What one call of \<open>strtok_r\<close> computes: the next token and the rest of the string.\<close>

definition strtok_s :: "string \<Rightarrow> string \<Rightarrow> (string \<times> string) option" where
  "strtok_s delim s =
     (let r = dropWhile (\<lambda>c. c \<in> set delim) s
      in if r = [] then None
         else Some (takeWhile (\<lambda>c. c \<notin> set delim) r, tl (dropWhile (\<lambda>c. c \<notin> set delim) r)))"

lemma dropWhile_eq_append: "s = takeWhile P s @ dropWhile P s"
  by simp

lemma cstr_dropWhile: "cstr m p s \<Longrightarrow> cstr m (p + length (takeWhile P s)) (dropWhile P s)"
  using cstr_append [of m p "takeWhile P s" "dropWhile P s"] by simp

lemma strtok_r_end:
  assumes "cstr m p s" "cstr m q delim" "strtok_s delim s = None"
    and "p = (case str0 of None \<Rightarrow> saveptr | Some x \<Rightarrow> x)"
  shows "strtok_r m str0 q saveptr = Some (None, p + length s, m)"
proof -
  let ?P = "\<lambda>c. c \<in> set delim"
  have d: "dropWhile ?P s = []"
    using assms(3) by (simp add: strtok_s_def Let_def split: if_splits)
  then have "length (takeWhile ?P s) = length s"
    by (metis append_Nil2 takeWhile_dropWhile_id)
  then show ?thesis
    using strspn_cstr [OF assms(1,2)] cstr_end [OF assms(1)] assms(4)
    by (simp add: strtok_r_def Let_def)
qed

lemma strtok_r_token:
  assumes s: "cstr m p s" and d: "cstr m q delim" and tok: "strtok_s delim s = Some (tok, rest)"
    and sep: "separate p (Suc (length s)) q (Suc (length delim))"
    and p: "p = (case str0 of None \<Rightarrow> saveptr | Some x \<Rightarrow> x)"
  shows "\<exists>t sv m'. strtok_r m str0 q saveptr = Some (Some t, sv, m')
    \<and> cstr m' t tok \<and> cstr m' sv rest \<and> cstr m' q delim
    \<and> p \<le> t \<and> t + length tok \<le> sv \<and> sv + length rest = p + length s
    \<and> (\<forall>a. a < t \<or> p + length s < a \<longrightarrow> m' a = m a)"
proof -
  let ?P = "\<lambda>c. c \<in> set delim" and ?N = "\<lambda>c. c \<notin> set delim"
  define r where "r = dropWhile ?P s"
  define t where "t = p + length (takeWhile ?P s)"
  have r: "cstr m t r" and "r \<noteq> []" and eq: "tok = takeWhile ?N r" "rest = tl (dropWhile ?N r)"
    using tok cstr_dropWhile [OF s] by (auto simp: strtok_s_def Let_def r_def t_def split: if_splits)
  then have nz: "m t \<noteq> NUL" by (cases r) auto
  have lens: "t + length r = p + length s"
    by (simp add: t_def r_def) (metis length_append takeWhile_dropWhile_id)
  have call: "strtok_r m str0 q saveptr =
      do { b \<leftarrow> strpbrk m t q;
           case b of None \<Rightarrow> do { n \<leftarrow> strlen m t; Some (Some t, t + n, m) }
                   | Some x \<Rightarrow> Some (Some t, Suc x, m(x := NUL)) }"
    unfolding strtok_r_def Let_def p [symmetric] strspn_cstr [OF s d] bind.bind_lunit t_def [symmetric]
    using nz by simp
  show ?thesis
  proof (cases "first_idx ?P r")
    case None
    then have N: "\<forall>c \<in> set r. ?N c" by (simp add: first_idx_None_iff)
    then have "tok = r" "rest = []"
      using eq by (simp_all add: takeWhile_eq_all_conv [THEN iffD2] dropWhile_eq_Nil_conv [THEN iffD2])
    moreover have "strtok_r m str0 q saveptr = Some (Some t, t + length r, m)"
      using call strpbrk_cstr [OF r d] None strlen_cstr [OF r] by simp
    ultimately show ?thesis
      using r d cstr_end [OF r] lens by (auto simp: t_def)
  next
    case (Some i)
    let ?m' = "m(t + i := NUL)"
    note i = first_idx_SomeD [OF Some]
    have split: "r = take i r @ r ! i # drop (Suc i) r" and "takeWhile ?N r = take i r"
      using i by (auto simp: id_take_nth_drop [symmetric] intro!: takeWhile_eq_take_P_nth)
    then have parts: "tok = take i r" "rest = drop (Suc i) r"
      using eq i by (simp_all add: dropWhile_eq_drop drop_Suc tl_drop)
    have "strtok_r m str0 q saveptr = Some (Some t, Suc (t + i), ?m')"
      using call strpbrk_cstr [OF r d] Some by simp
    moreover have "cstr ?m' t (take i r)"
      using r i by (auto simp: cstr_iff dest: in_set_takeD)
    moreover have "cstr m (t + i) (drop i r)"
      using r cstr_append [of m t "take i r" "drop i r"] i by simp
    then have "cstr m (Suc (t + i)) (drop (Suc i) r)"
      using i by (simp add: Cons_nth_drop_Suc [symmetric])
    then have "cstr ?m' (Suc (t + i)) (drop (Suc i) r)"
      by (rule cstr_cong) simp
    moreover have "cstr ?m' q delim"
      using d by (rule cstr_cong) (use sep i lens in \<open>auto simp: separate_def t_def\<close>)
    ultimately show ?thesis
      using parts lens i by (auto simp: t_def)
  qed
qed

text \<open>The loop \<open>for (t = strtok_r(s, d, &p); t; t = strtok_r(NULL, d, &p))\<close> visits these tokens.\<close>

lemma strtok_s_rest_shorter: "strtok_s delim s = Some (t, r) \<Longrightarrow> length r < length s"
proof -
  assume "strtok_s delim s = Some (t, r)"
  then have ne: "dropWhile (\<lambda>c. c \<in> set delim) s \<noteq> []"
    and r: "r = tl (dropWhile (\<lambda>c. c \<notin> set delim) (dropWhile (\<lambda>c. c \<in> set delim) s))"
    by (auto simp: strtok_s_def Let_def split: if_splits)
  have "length r \<le> length (dropWhile (\<lambda>c. c \<in> set delim) s) - 1"
    unfolding r length_tl by (rule diff_le_mono) (rule length_dropWhile_le)
  also have "\<dots> < length s"
    using ne length_dropWhile_le [of "\<lambda>c. c \<in> set delim" s] by (cases s) (auto simp: less_Suc_eq_le split: if_splits)
  finally show ?thesis .
qed

function tokens :: "string \<Rightarrow> string \<Rightarrow> string list" where
  "tokens delim s = (case strtok_s delim s of None \<Rightarrow> [] | Some (t, r) \<Rightarrow> t # tokens delim r)"
  by pat_completeness auto
termination
  by (relation "measure (\<lambda>(delim, s). length s)") (auto dest: strtok_s_rest_shorter)

declare tokens.simps [simp del]

lemma strtok_s_token:
  assumes "strtok_s delim s = Some (t, r)"
  shows "t \<noteq> [] \<and> set t \<inter> set delim = {}"
proof -
  define u where "u = dropWhile (\<lambda>c. c \<in> set delim) s"
  have "u \<noteq> []" and t: "t = takeWhile (\<lambda>c. c \<notin> set delim) u"
    using assms by (auto simp: strtok_s_def Let_def u_def split: if_splits)
  moreover from \<open>u \<noteq> []\<close> have "hd u \<notin> set delim"
    unfolding u_def by (rule hd_dropWhile)
  ultimately show ?thesis
    by (auto simp: takeWhile_eq_Nil_iff dest: set_takeWhileD)
qed

lemma tokens_no_delim: "t \<in> set (tokens delim s) \<Longrightarrow> t \<noteq> [] \<and> set t \<inter> set delim = {}"
proof (induction delim s rule: tokens.induct)
  case (1 delim s)
  show ?case
  proof (cases "strtok_s delim s")
    case None
    with "1.prems" show ?thesis by (simp add: tokens.simps [of delim s])
  next
    case (Some p)
    obtain u r where p: "p = (u, r)" by force
    from "1.prems" consider "t = u" | "t \<in> set (tokens delim r)"
      using Some p by (auto simp: tokens.simps [of delim s])
    then show ?thesis
      using "1.IH" [OF Some p [symmetric]] strtok_s_token [of delim s u r] Some p by cases auto
  qed
qed

lemma tokens_Nil [simp]: "tokens delim [] = []"
  by (subst tokens.simps) (simp add: strtok_s_def)

lemma strtok_s_delim: "c \<in> set delim \<Longrightarrow> strtok_s delim (c # s) = strtok_s delim s"
  by (simp add: strtok_s_def)

lemma tokens_delim: "c \<in> set delim \<Longrightarrow> tokens delim (c # s) = tokens delim s"
  by (subst (1 2) tokens.simps) (simp add: strtok_s_delim)

lemma strtok_s_word:
  assumes "t \<noteq> []" "set t \<inter> set delim = {}" "s = [] \<or> hd s \<in> set delim"
  shows "strtok_s delim (t @ s) = Some (t, tl s)"
proof -
  have "dropWhile (\<lambda>c. c \<in> set delim) (t @ s) = t @ s"
    using assms(1,2) by (cases t) auto
  moreover have "takeWhile (\<lambda>c. c \<notin> set delim) (t @ s) = t"
    using assms(2,3) by (cases s) (auto simp: takeWhile_append)
  moreover have "dropWhile (\<lambda>c. c \<notin> set delim) (t @ s) = s"
    using assms(2,3) by (cases s) (auto simp: dropWhile_append)
  ultimately show ?thesis
    using assms(1) by (simp add: strtok_s_def Let_def)
qed

lemma tokens_word:
  assumes "t \<noteq> []" "set t \<inter> set delim = {}" "s = [] \<or> hd s \<in> set delim"
  shows "tokens delim (t @ s) = t # tokens delim s"
proof -
  have "tokens delim (tl s) = tokens delim s"
    using assms(3) by (cases s) (auto simp: tokens_delim)
  then show ?thesis
    using strtok_s_word [OF assms] by (subst tokens.simps) simp
qed

end
