(* ===== verification/String_Props.thy ===== *)
theory String_Props
  imports Cstring
begin

text \<open>
  What the string library guarantees to its callers: the properties of \<open>src/src/mm/string.c\<close>, stated
  over the memory-level definitions of \<open>Cstring\<close>.
\<close>

text \<open>Path components, each with a slash in front.\<close>

primrec join_path :: "string list \<Rightarrow> string" where
  "join_path [] = []"
| "join_path (c # cs) = ''/'' @ c @ join_path cs"

text \<open>A memory for the witnesses: the string \<open>/a/b\<close> at 0, \<open>/\<close> at 5 and zeros after it.\<close>

definition demo_mem :: mem where
  "demo_mem = cs_nth (''/a/b'' @ [NUL] @ ''/'')"

lemma demo_mem_cstr: "cstr demo_mem 0 ''/a/b''" "cstr demo_mem 5 ''/''" "cstr demo_mem 2 ''/b''"
  by (simp_all add: demo_mem_def cs_nth_def)

text \<open>C40: \<open>memmove\<close> is a simultaneous copy: whatever the overlap of the two regions, every destination byte gets
  the value its source byte had before the call and all other bytes keep theirs.\<close>

theorem memmove_simultaneous:
  "memmove m dest src n = (dest, \<lambda>a. if dest \<le> a \<and> a < dest + n then m (src + (a - dest)) else m a)"
  by (simp add: memmove_eq_mcopy mcopy_def fun_eq_iff)

text \<open>the comparisons decide equality: on terminated strings \<open>strcmp\<close> returns, and it returns 0 exactly
  for equal strings; \<open>strncmp\<close> returns 0 exactly for strings that agree up to \<open>n\<close> bytes.\<close>

theorem strcmp_decides_equality:
  assumes "cstr m p s" "cstr m q t"
  shows "\<exists>r. strcmp m p q = Some r \<and> (r = 0 \<longleftrightarrow> s = t)
    \<and> (strncmp m p q n = 0 \<longleftrightarrow> take n s = take n t)"
  using strcmp_cstr [OF assms] strncmp_cstr [OF assms] cstr_no_NUL [OF assms(1)] cstr_no_NUL [OF assms(2)]
  by (simp add: strcmp_s_eq_0_iff strncmp_s_eq_0_iff)

theorem strcmp_decides_equality_witness:
  "\<exists>r. strcmp demo_mem 0 5 = Some r \<and> r \<noteq> 0 \<and> strncmp demo_mem 0 5 1 = 0"
  using strcmp_decides_equality [OF demo_mem_cstr(1,2), of 1] by auto

text \<open>copying a string gives the string: \<open>strcpy\<close> into a region apart from the source leaves both places
  holding the string and writes nothing beyond its terminator; \<open>strcat\<close> then appends.\<close>

theorem strcpy_strcat_build:
  assumes "cstr m p s" "cstr m q t" "separate d (Suc (length s + length t)) p (Suc (length s))"
    and "separate d (Suc (length s + length t)) q (Suc (length t))"
  shows "\<exists>m1 m2. strcpy m d p = Some (d, m1) \<and> cstr m1 d s \<and> strcat m1 d q = Some (d, m2) \<and> cstr m2 d (s @ t)
    \<and> (\<forall>a. d \<le> a \<and> a \<le> d + length s + length t \<or> m2 a = m a)"
proof -
  let ?m1 = "mcopy m d m p (Suc (length s))"
  have "separate d (Suc (length s)) p (Suc (length s))"
    using assms(3) by (auto simp: separate_def)
  then have cp: "strcpy m d p = Some (d, ?m1)"
    using assms(1) by (intro strcpy_cstr) auto
  have d: "cstr ?m1 d s" using assms(1) by (rule cstr_mcopy)
  have "cstr ?m1 q t"
    using assms(2) by (rule cstr_cong) (use assms(4) in \<open>auto simp: separate_def mcopy_def\<close>)
  from strcat_cstr [OF d this assms(4)] obtain m2 where m2: "strcat ?m1 d q = Some (d, m2)" "cstr m2 d (s @ t)"
    "\<forall>a. a < d + length s \<or> d + length s + length t < a \<longrightarrow> m2 a = ?m1 a" by blast
  have "d \<le> a \<and> a \<le> d + length s + length t \<or> m2 a = m a" for a
    using m2(3) by (cases "a < d \<or> d + length s + length t < a") (auto simp: mcopy_def)
  with cp d m2 show ?thesis by blast
qed

theorem strcpy_strcat_build_witness:
  "\<exists>m1 m2. strcpy demo_mem 9 5 = Some (9, m1) \<and> strcat m1 9 0 = Some (9, m2) \<and> cstr m2 9 ''//a/b''"
  using strcpy_strcat_build [OF demo_mem_cstr(2,1), of 9] by (auto simp: separate_def)

text \<open>C39: one call of \<open>strtok_r\<close> takes the next token off the string: it skips delimiters, returns the longest
  run without delimiters as a terminated string, leaves the save pointer at the rest, and writes only inside
  the string; when only delimiters are left it returns \<open>NULL\<close> and writes nothing.\<close>

theorem strtok_r_next_token:
  assumes "cstr m p s" "cstr m q delim" "separate p (Suc (length s)) q (Suc (length delim))"
    and "p = (case str0 of None \<Rightarrow> saveptr | Some x \<Rightarrow> x)"
  shows "case strtok_s delim s of
      None \<Rightarrow> strtok_r m str0 q saveptr = Some (None, p + length s, m)
    | Some (tok, rest) \<Rightarrow> \<exists>t sv m'. strtok_r m str0 q saveptr = Some (Some t, sv, m')
        \<and> cstr m' t tok \<and> cstr m' sv rest \<and> tok \<noteq> [] \<and> set tok \<inter> set delim = {} \<and> length rest < length s
        \<and> (\<forall>a. p \<le> a \<and> a < p + length s \<or> m' a = m a)"
proof (cases "strtok_s delim s")
  case None
  then show ?thesis using strtok_r_end [OF assms(1,2) None assms(4)] by simp
next
  case (Some r)
  obtain tok rest where r: "r = (tok, rest)" by force
  from strtok_r_token [OF assms(1,2) Some [unfolded r] assms(3,4)] obtain t sv m' where
    *: "strtok_r m str0 q saveptr = Some (Some t, sv, m')" "cstr m' t tok" "cstr m' sv rest" "p \<le> t"
      "\<forall>a. a < t \<or> p + length s < a \<longrightarrow> m' a = m a" "sv + length rest = p + length s"
    by blast
  have "m' (p + length s) = m (p + length s)"
    using cstr_end [OF assms(1)] cstr_end [OF *(3)] *(6) by simp
  then have "p \<le> a \<and> a < p + length s \<or> m' a = m a" for a
    using *(4) spec [OF *(5), of a] by (cases "a = p + length s"; cases "m' a = m a") auto
  with * show ?thesis
    using strtok_s_token [OF Some [unfolded r]] strtok_s_rest_shorter [OF Some [unfolded r]] r Some by auto
qed

theorem strtok_r_next_token_witness:
  "\<exists>t sv m'. strtok_r demo_mem (Some 0) 5 0 = Some (Some t, sv, m') \<and> cstr m' t ''a'' \<and> cstr m' sv ''b''"
  using strtok_r_next_token [OF demo_mem_cstr(1,2), of 0 "Some 0"]
  by (auto simp: separate_def strtok_s_def)

text \<open>tokenising is the inverse of joining: the tokens of components joined with slashes, with or without a
  slash at the end, are those components, for all non-empty components without slashes.\<close>

theorem tokens_join_path:
  assumes "list_all (\<lambda>c. c \<noteq> [] \<and> CHR ''/'' \<notin> set c) cs"
  shows "tokens ''/'' (join_path cs) = cs \<and> tokens ''/'' (join_path cs @ ''/'') = cs"
  using assms
proof (induction cs)
  case Nil
  then show ?case by (simp add: tokens_delim)
next
  case (Cons c cs)
  have "join_path cs = [] \<or> hd (join_path cs) = CHR ''/''" "hd (join_path cs @ ''/'') = CHR ''/''"
    by (cases cs; simp)+
  then show ?case
    using Cons tokens_word [of c "''/''" "join_path cs"] tokens_word [of c "''/''" "join_path cs @ ''/''"]
    by (auto simp: tokens_delim)
qed

theorem tokens_join_path_witness: "tokens ''/'' ''/usr/bin/'' = [''usr'', ''bin'']"
  using tokens_join_path [of "[''usr'', ''bin'']"] by simp

end
