(* ===== verification/Kmalloc.thy ===== *)
theory Kmalloc
  imports Prelude
begin

text \<open>
  The kernel allocator \<open>src/src/mm/kmalloc.c\<close>: a bump pointer into a static array of one megabyte.

  The state is the word \<open>heap_pos\<close>; a pointer into \<open>heap\<close> is its offset. The addition in the
  bounds check wraps at 64 bits, as \<open>size_t\<close> does. Since nothing is ever given back, memory returned by
  \<open>kalloc\<close> has never been written and holds the zeros of the \<open>.bss\<close> section; the theories of the
  allocating components use that.

  The locale \<open>arena\<close> is what the clients rely on: blocks handed out never overlap.
\<close>

definition HEAP_SIZE :: u64 where
  "HEAP_SIZE = 1024 * 1024"

definition kalloc :: "u64 \<Rightarrow> u64 \<Rightarrow> u64 option \<times> u64" where
  "kalloc heap_pos size0 =
     (if heap_pos + size0 > HEAP_SIZE then (None, heap_pos) else (Some heap_pos, heap_pos + size0))"

definition kfree :: "u64 \<Rightarrow> u64 \<Rightarrow> u64" where
  "kfree heap_pos ptr = heap_pos"

section \<open>The interface: an arena of disjoint blocks\<close>

text \<open>The blocks (start and length) a sequence of requests obtains.\<close>

primrec alloc_run :: "('s \<Rightarrow> u64 \<Rightarrow> u64 option \<times> 's) \<Rightarrow> 's \<Rightarrow> u64 list \<Rightarrow> (nat \<times> nat) list" where
  "alloc_run al s [] = []"
| "alloc_run al s (n # ns) =
     (case al s n of (None, s') \<Rightarrow> alloc_run al s' ns
      | (Some p, s') \<Rightarrow> (unat p, unat n) # alloc_run al s' ns)"

definition blocks_disjoint :: "nat \<times> nat \<Rightarrow> nat \<times> nat \<Rightarrow> bool" where
  "blocks_disjoint b c \<longleftrightarrow> fst b + snd b \<le> fst c \<or> fst c + snd c \<le> fst b"

locale arena =
  fixes alloc :: "'s \<Rightarrow> u64 \<Rightarrow> u64 option \<times> 's"
    and used :: "'s \<Rightarrow> nat"
    and cap :: nat
    and request_ok :: "u64 \<Rightarrow> bool"
  assumes alloc_Some: "used s \<le> cap \<Longrightarrow> request_ok n \<Longrightarrow> alloc s n = (Some p, s') \<Longrightarrow>
      unat p = used s \<and> used s' = used s + unat n \<and> used s' \<le> cap"
    and alloc_None: "used s \<le> cap \<Longrightarrow> request_ok n \<Longrightarrow> alloc s n = (None, s') \<Longrightarrow>
      s' = s \<and> cap < used s + unat n"
begin

lemma run_bounds:
  "used s \<le> cap \<Longrightarrow> list_all request_ok ns \<Longrightarrow> b \<in> set (alloc_run alloc s ns) \<Longrightarrow>
     used s \<le> fst b \<and> fst b + snd b \<le> cap"
proof (induction ns arbitrary: s)
  case Nil
  then show ?case by simp
next
  case (Cons n ns)
  obtain r s' where r: "alloc s n = (r, s')" by force
  show ?case
  proof (cases r)
    case None
    with r Cons.prems alloc_None [of s n s'] Cons.IH [of s] show ?thesis by simp
  next
    case (Some p)
    with r Cons.prems alloc_Some [of s n p s'] Cons.IH [of s'] show ?thesis by auto
  qed
qed

lemma run_disjoint:
  "used s \<le> cap \<Longrightarrow> list_all request_ok ns \<Longrightarrow> sorted_wrt blocks_disjoint (alloc_run alloc s ns)"
proof (induction ns arbitrary: s)
  case Nil
  then show ?case by simp
next
  case (Cons n ns)
  obtain r s' where r: "alloc s n = (r, s')" by force
  show ?case
  proof (cases r)
    case None
    with r Cons.prems alloc_None [of s n s'] Cons.IH [of s] show ?thesis by simp
  next
    case (Some p)
    with r Cons.prems have s': "unat p = used s" "used s' = used s + unat n" "used s' \<le> cap"
      using alloc_Some [of s n p s'] by simp_all
    then have "blocks_disjoint (unat p, unat n) b" if "b \<in> set (alloc_run alloc s' ns)" for b
      using run_bounds [OF s'(3) _ that] Cons.prems by (simp add: blocks_disjoint_def)
    with r Some s' Cons.prems Cons.IH [of s'] show ?thesis by simp
  qed
qed

end

section \<open>kalloc provides it\<close>

text \<open>The largest request for which the bounds check cannot wrap, whatever the state.\<close>

definition kalloc_request_ok :: "u64 \<Rightarrow> bool" where
  "kalloc_request_ok n \<longleftrightarrow> n \<le> 0xFFFFFFFFFFEFFFFF"

lemma kalloc_no_wrap:
  assumes "unat p \<le> 1048576" "kalloc_request_ok n"
  shows "unat (p + n) = unat p + unat n"
proof -
  have "unat n \<le> 18446744073708503039"
    using assms(2) by (simp add: kalloc_request_ok_def word_le_nat_alt)
  with assms(1) show ?thesis
    by (simp add: unat_word_ariths)
qed

interpretation kheap: arena kalloc unat "1048576" kalloc_request_ok
proof unfold_locales
  fix s n p s' :: u64
  assume "unat s \<le> 1048576" "kalloc_request_ok n" "kalloc s n = (Some p, s')"
  then show "unat p = unat s \<and> unat s' = unat s + unat n \<and> unat s' \<le> 1048576"
    using kalloc_no_wrap [of s n]
    by (auto simp: kalloc_def HEAP_SIZE_def word_less_nat_alt split: if_splits)
next
  fix s n s' :: u64
  assume "unat s \<le> 1048576" "kalloc_request_ok n" "kalloc s n = (None, s')"
  then show "s' = s \<and> 1048576 < unat s + unat n"
    using kalloc_no_wrap [of s n]
    by (auto simp: kalloc_def HEAP_SIZE_def word_less_nat_alt split: if_splits)
qed

lemma kalloc_fresh: "kalloc h n = (Some p, h') \<Longrightarrow> p = h"
  by (simp add: kalloc_def split: if_splits)

lemma kalloc_cases:
  obtains (fail) "kalloc h n = (None, h)" | (ok) "kalloc h n = (Some h, h + n)"
  by (cases "HEAP_SIZE < h + n") (auto simp: kalloc_def)

section \<open>Properties\<close>

text \<open>C38: every block \<open>kalloc\<close> hands out lies inside the heap array and no two blocks overlap, for
  any sequence of requests small enough not to wrap the bounds check.\<close>

theorem kalloc_blocks_disjoint:
  assumes "unat heap_pos \<le> 1048576" "list_all kalloc_request_ok sizes"
  shows "sorted_wrt blocks_disjoint (alloc_run kalloc heap_pos sizes)
    \<and> list_all (\<lambda>b. unat heap_pos \<le> fst b \<and> fst b + snd b \<le> 1048576) (alloc_run kalloc heap_pos sizes)"
  using kheap.run_disjoint [OF assms] kheap.run_bounds [OF assms]
  by (simp add: list_all_iff)

theorem kalloc_blocks_disjoint_witness:
  "sorted_wrt blocks_disjoint (alloc_run kalloc 0 [304, 0x200000, 32])
    \<and> alloc_run kalloc 0 [304, 0x200000, 32] = [(0, 304), (304, 32)]"
  using kalloc_blocks_disjoint [of 0 "[304, 0x200000, 32]"]
  by (simp add: kalloc_request_ok_def kalloc_def HEAP_SIZE_def)

text \<open>the bounds check is not safe against wrap-around. A request that wraps \<open>heap_pos + size\<close>
  below the array size succeeds and moves the bump pointer backwards, so that a later block overlaps
  one that is still in use.\<close>

theorem kalloc_wraps:
  "kalloc 304 (0xFFFFFFFFFFFFFFFF - 303) = (Some 304, 0) \<and> kalloc 0 304 = (Some 0, 304)
    \<and> alloc_run kalloc 0 [304, 0xFFFFFFFFFFFFFFFF - 303, 304] = [(0, 304), (304, 18446744073709551312), (0, 304)]"
  by (simp add: kalloc_def HEAP_SIZE_def)

end
