(* ===== verification/Msg_Queue.thy ===== *)
theory Msg_Queue
  imports Prelude
begin

text \<open>
  Messages and message queues: \<open>src/include/message.h\<close> and the ring buffer behind
  \<open>queue_message\<close> and \<open>receive_message\<close> of \<open>src/src/kernel/message.c\<close>.

  A pointer field of \<open>struct Message\<close> is an option: \<open>None\<close> for \<open>NULL\<close>, otherwise what it points to
  (a C string as a string, \<open>data\<close> as the bytes of the caller's buffer, whose length is its real size).
  Queue indices are natural numbers below \<open>MAX_MESSAGES\<close>.

  The locale \<open>bounded_fifo\<close> is the contract of a bounded queue; the ring buffer is an instance.
\<close>

section \<open>struct Message and struct message_queue\<close>

datatype msg_kind =
    MSG_NONE | MSG_OPEN | MSG_READ | MSG_WRITE | MSG_CLOSE | MSG_STAT | MSG_BIND | MSG_MOUNT
  | MSG_FORK | MSG_EXEC | MSG_WAIT | MSG_PIPE | MSG_READ_DIR | MSG_CREATE | MSG_MKDIR | MSG_GETCWD
  | MSG_CHDIR | MSG_COPY | MSG_REMOVE | MSG_MOVE | MSG_UNBIND | MSG_PUTC | MSG_GETC | MSG_PUTS

text \<open>The enumerators in their order, which gives them the values 0 to 23.\<close>

definition msg_kinds :: "msg_kind list" where
  "msg_kinds =
    [MSG_NONE, MSG_OPEN, MSG_READ, MSG_WRITE, MSG_CLOSE, MSG_STAT, MSG_BIND, MSG_MOUNT,
     MSG_FORK, MSG_EXEC, MSG_WAIT, MSG_PIPE, MSG_READ_DIR, MSG_CREATE, MSG_MKDIR, MSG_GETCWD,
     MSG_CHDIR, MSG_COPY, MSG_REMOVE, MSG_MOVE, MSG_UNBIND, MSG_PUTC, MSG_GETC, MSG_PUTS]"

text \<open>A \<open>uint64_t\<close> type field as an enumerator, \<open>None\<close> for a number outside the enumeration.\<close>

definition msg_type_of :: "u64 \<Rightarrow> msg_kind option" where
  "msg_type_of w = (if unat w < length msg_kinds then Some (msg_kinds ! unat w) else None)"

definition msg_code :: "msg_kind \<Rightarrow> u64" where
  "msg_code k = (case first_idx (\<lambda>x. x = k) msg_kinds of Some i \<Rightarrow> of_nat i | None \<Rightarrow> 0)"

record Message =
  msg_type :: u64
  path :: "string option"
  argv :: "string list option"
  data :: "byte list option"
  msg_size :: u64
  flags :: int
  fd :: int
  msg_pid :: int
  status :: int
  entry :: u64
  dirent_count :: u64
  character :: byte
  msg_string :: "string option"

text \<open>A message of type \<open>k\<close> with every other field zero.\<close>

definition blank_message :: "u64 \<Rightarrow> Message" where
  "blank_message k = \<lparr>msg_type = k, path = None, argv = None, data = None, msg_size = 0, flags = 0,
     fd = 0, msg_pid = 0, status = 0, entry = 0, dirent_count = 0, character = NUL, msg_string = None\<rparr>"

definition MAX_MESSAGES :: nat where
  "MAX_MESSAGES = 32"

record message_queue =
  messages :: "Message list"
  head :: nat
  tail :: nat
  mcount :: nat

definition empty_queue :: message_queue where
  "empty_queue = \<lparr>messages = replicate MAX_MESSAGES (blank_message 0), head = 0, tail = 0, mcount = 0\<rparr>"

section \<open>The ring buffer\<close>

text \<open>\<open>None\<close>: the queue is full and \<open>queue_message\<close> returns -1.\<close>

definition mq_put :: "message_queue \<Rightarrow> Message \<Rightarrow> message_queue option" where
  "mq_put q msg =
     (if mcount q \<ge> MAX_MESSAGES then None
      else Some (q\<lparr>messages := (messages q)[tail q := msg],
                   tail := (tail q + 1) mod MAX_MESSAGES, mcount := mcount q + 1\<rparr>))"

text \<open>\<open>None\<close>: the queue is empty and \<open>receive_message\<close> takes its other branch.\<close>

definition mq_get :: "message_queue \<Rightarrow> (Message \<times> message_queue) option" where
  "mq_get q =
     (if mcount q = 0 then None
      else Some (messages q ! head q,
                 q\<lparr>head := (head q + 1) mod MAX_MESSAGES, mcount := mcount q - 1\<rparr>))"

section \<open>The interface: a bounded first-in first-out queue\<close>

primrec put_all :: "('q \<Rightarrow> 'a \<Rightarrow> 'q option) \<Rightarrow> 'q \<Rightarrow> 'a list \<Rightarrow> 'q option" where
  "put_all put q [] = Some q"
| "put_all put q (x # xs) = do { q' \<leftarrow> put q x; put_all put q' xs }"

primrec get_n :: "('q \<Rightarrow> ('a \<times> 'q) option) \<Rightarrow> 'q \<Rightarrow> nat \<Rightarrow> ('a list \<times> 'q) option" where
  "get_n get q 0 = Some ([], q)"
| "get_n get q (Suc n) = do { (x, q') \<leftarrow> get q; (xs, q'') \<leftarrow> get_n get q' n; Some (x # xs, q'') }"

locale bounded_fifo =
  fixes put :: "'q \<Rightarrow> 'a \<Rightarrow> 'q option"
    and get :: "'q \<Rightarrow> ('a \<times> 'q) option"
    and contents :: "'q \<Rightarrow> 'a list"
    and inv :: "'q \<Rightarrow> bool"
    and cap :: nat
  assumes put_None: "inv q \<Longrightarrow> put q x = None \<longleftrightarrow> length (contents q) = cap"
    and put_Some: "inv q \<Longrightarrow> put q x = Some q' \<Longrightarrow> inv q' \<and> contents q' = contents q @ [x]"
    and get_None: "inv q \<Longrightarrow> get q = None \<longleftrightarrow> contents q = []"
    and get_Some: "inv q \<Longrightarrow> get q = Some (x, q') \<Longrightarrow> inv q' \<and> contents q = x # contents q'"
    and contents_bound: "inv q \<Longrightarrow> length (contents q) \<le> cap"
begin

lemma put_all_Some:
  "inv q \<Longrightarrow> length (contents q) + length xs \<le> cap \<Longrightarrow>
     \<exists>q'. put_all put q xs = Some q' \<and> inv q' \<and> contents q' = contents q @ xs"
proof (induction xs arbitrary: q)
  case Nil
  then show ?case by simp
next
  case (Cons x xs)
  then obtain q1 where q1: "put q x = Some q1"
    using put_None [of q x] by fastforce
  with Cons put_Some [of q x q1] show ?case by fastforce
qed

lemma get_n_Some:
  "inv q \<Longrightarrow> n \<le> length (contents q) \<Longrightarrow>
     \<exists>q'. get_n get q n = Some (take n (contents q), q') \<and> inv q' \<and> contents q' = drop n (contents q)"
proof (induction n arbitrary: q)
  case 0
  then show ?case by simp
next
  case (Suc n)
  then have "get q \<noteq> None"
    using get_None [of q] by auto
  then obtain x q1 where g: "get q = Some (x, q1)" by force
  with Suc.prems get_Some [of q x q1] have q1: "inv q1" "contents q = x # contents q1" by auto
  with Suc.prems Suc.IH [of q1] show ?case by (auto simp: g)
qed

text \<open>First in, first out: what was put into an empty queue comes out in the same order.\<close>

lemma fifo:
  assumes "inv q" "contents q = []" "length xs \<le> cap"
  shows "\<exists>q1 q2. put_all put q xs = Some q1 \<and> get_n get q1 (length xs) = Some (xs, q2)
    \<and> inv q2 \<and> contents q2 = []"
proof -
  from put_all_Some [of q xs] assms obtain q1
    where q1: "put_all put q xs = Some q1" "inv q1" "contents q1 = xs" by auto
  with get_n_Some [of q1 "length xs"] show ?thesis by auto
qed

end

section \<open>The ring buffer provides it\<close>

definition mq_list :: "message_queue \<Rightarrow> Message list" where
  "mq_list q = map (\<lambda>i. messages q ! ((head q + i) mod MAX_MESSAGES)) [0..<mcount q]"

definition mq_inv :: "message_queue \<Rightarrow> bool" where
  "mq_inv q \<longleftrightarrow> length (messages q) = MAX_MESSAGES \<and> head q < MAX_MESSAGES \<and> mcount q \<le> MAX_MESSAGES
     \<and> tail q = (head q + mcount q) mod MAX_MESSAGES"

lemma MAX_MESSAGES_pos [simp]: "0 < MAX_MESSAGES"
  by (simp add: MAX_MESSAGES_def)

lemma mq_inv_empty [inv_intros]: "mq_inv empty_queue"
  by (simp add: mq_inv_def empty_queue_def)

lemma mq_list_empty [simp]: "mq_list empty_queue = []"
  by (simp add: mq_list_def empty_queue_def)

lemma length_mq_list [simp]: "length (mq_list q) = mcount q"
  by (simp add: mq_list_def)

text \<open>Distinct offsets below the capacity are distinct slots.\<close>

lemma ring_slot_neq:
  assumes "i < k" "k < MAX_MESSAGES"
  shows "(h + i) mod MAX_MESSAGES \<noteq> (h + k) mod MAX_MESSAGES"
proof
  assume "(h + i) mod MAX_MESSAGES = (h + k) mod MAX_MESSAGES"
  then have "MAX_MESSAGES dvd (h + k) - (h + i)"
    using assms(1) by (metis add_left_mono less_imp_le mod_eq_dvd_iff_nat)
  then show False
    using assms by (auto dest: dvd_imp_le)
qed

lemma mq_put_Some:
  assumes "mq_inv q" "mq_put q msg = Some q'"
  shows "mq_inv q' \<and> mq_list q' = mq_list q @ [msg]"
proof -
  have c: "mcount q < MAX_MESSAGES" and q': "q' = q\<lparr>messages := (messages q)[tail q := msg],
      tail := (tail q + 1) mod MAX_MESSAGES, mcount := mcount q + 1\<rparr>"
    using assms(2) by (auto simp: mq_put_def split: if_splits)
  have "mq_inv q'"
    using assms(1) c q' by (simp add: mq_inv_def mod_Suc_eq)
  moreover have "mq_list q' = mq_list q @ [msg]"
  proof -
    have "messages q' ! ((head q + i) mod MAX_MESSAGES) = messages q ! ((head q + i) mod MAX_MESSAGES)"
      if "i < mcount q" for i
      using ring_slot_neq [OF that c, of "head q"] assms(1) by (simp add: q' mq_inv_def)
    moreover have "messages q' ! ((head q + mcount q) mod MAX_MESSAGES) = msg"
      using assms(1) by (simp add: q' mq_inv_def)
    ultimately show ?thesis
      by (simp add: mq_list_def q')
  qed
  ultimately show ?thesis by simp
qed

lemma mq_get_Some:
  assumes "mq_inv q" "mq_get q = Some (msg, q')"
  shows "mq_inv q' \<and> mq_list q = msg # mq_list q'"
proof -
  obtain n where n: "mcount q = Suc n"
    using assms(2) by (cases "mcount q") (auto simp: mq_get_def)
  have msg: "msg = messages q ! head q"
    and q': "q' = q\<lparr>head := (head q + 1) mod MAX_MESSAGES, mcount := mcount q - 1\<rparr>"
    using assms(2) by (auto simp: mq_get_def split: if_splits)
  have "mq_inv q'"
    using assms(1) n by (simp add: q' mq_inv_def mod_add_left_eq mod_Suc_eq)
  moreover have "mq_list q = msg # mq_list q'"
    using assms(1) n
    by (simp add: mq_list_def mq_inv_def msg q' map_upt_Suc mod_add_left_eq del: upt_Suc)
  ultimately show ?thesis by simp
qed

interpretation ring: bounded_fifo mq_put mq_get mq_list mq_inv MAX_MESSAGES
proof unfold_locales
  fix q :: message_queue and x
  assume "mq_inv q"
  then show "mq_put q x = None \<longleftrightarrow> length (mq_list q) = MAX_MESSAGES"
    by (auto simp: mq_put_def mq_inv_def)
next
  fix q :: message_queue
  assume "mq_inv q"
  then show "mq_get q = None \<longleftrightarrow> mq_list q = []"
    by (auto simp: mq_get_def mq_list_def)
next
  fix q :: message_queue
  assume "mq_inv q"
  then show "length (mq_list q) \<le> MAX_MESSAGES" by (simp add: mq_inv_def)
qed (blast dest: mq_put_Some mq_get_Some)+

lemma msg_type_of_code [simp]: "msg_type_of (msg_code k) = Some k"
  by (cases k) (simp_all add: msg_type_of_def msg_code_def msg_kinds_def)

end
