(* ===== verification/Process.thy ===== *)
theory Process
  imports Kmalloc Msg_Queue
begin

text \<open>
  Processes and the scheduler: \<open>src/include/process.h\<close> and \<open>src/src/kernel/process.c\<close>.

  Process structures live in two places, the static array \<open>processes\<close> and the kernel heap, and are
  linked through their \<open>next\<close> fields; a pointer names the place, the table maps every place to its
  structure (all zero until written), and \<open>NULL\<close> is \<open>None\<close>. Walks along \<open>next\<close> are
  \<open>partial_function (option)\<close> definitions, so that a cyclic list would make them diverge. The
  addresses the linker assigns are arguments (\<open>link_map\<close>). Console output is left out.

  \<open>schedule\<close> ends in \<open>context_switch\<close>, which returns in another process; the model returns the table
  and which contexts the switch is called on, or that the idle loop \<open>while(1)\<close> was entered.

  The contract shared by the loops over the process list is the locale \<open>chain_walk\<close> of \<open>Sched\<close>.
\<close>

section \<open>Data\<close>

datatype process_state = PROC_READY | PROC_RUNNING | PROC_BLOCKED | PROC_ZOMBIE | PROC_DEAD

datatype proc_ptr = Slot nat | Heap u64

text \<open>\<open>struct namespace\<close>; the list of a process is \<open>ns.mounts\<close> with its \<open>next\<close> links followed.\<close>

record ns_entry =
  old_path :: string
  new_path :: string
  ns_flags :: int

record context_t =
  ctx_pc :: u64
  ctx_sp :: u64
  ctx_lr :: u64
  ctx_x :: "u64 list"

record process =
  pid :: int
  parent_pid :: int
  pstate :: process_state
  ns :: "ns_entry list"
  ctx :: context_t
  proc_sp :: u64
  nxt :: "proc_ptr option"
  exit_status :: int
  msg_queue :: message_queue
  msg_blocked :: bool
  cwd :: string

definition zero_context :: context_t where
  "zero_context = \<lparr>ctx_pc = 0, ctx_sp = 0, ctx_lr = 0, ctx_x = replicate 31 0\<rparr>"

definition zero_process :: process where
  "zero_process = \<lparr>pid = 0, parent_pid = 0, pstate = PROC_READY, ns = [], ctx = zero_context,
     proc_sp = 0, nxt = None, exit_status = 0, msg_queue = empty_queue, msg_blocked = False, cwd = []\<rparr>"

record ptable =
  procs :: "proc_ptr \<Rightarrow> process"
  process_count :: nat
  ready_queue :: "proc_ptr option"
  current_process :: "proc_ptr option"
  process_list :: "proc_ptr option"
  next_pid :: int

record link_map =
  process_stacks :: u64
  process3 :: u64

definition MAX_PROCESSES :: nat where
  "MAX_PROCESSES = 4"

definition PROCESS_STACK_SIZE :: u64 where
  "PROCESS_STACK_SIZE = 4096"

definition PROCESS_STACK_TOP :: u64 where
  "PROCESS_STACK_TOP = 0x40000000"

text \<open>\<open>sizeof(process_t)\<close> on AArch64.\<close>

definition sizeof_process :: u64 where
  "sizeof_process = 3672"

text \<open>The statics of the file before any function has run.\<close>

definition ptable0 :: ptable where
  "ptable0 = \<lparr>procs = (\<lambda>_. zero_process), process_count = 0, ready_queue = None,
     current_process = None, process_list = None, next_pid = 2\<rparr>"

text \<open>\<open>p->field = ...\<close>\<close>

definition pupd :: "proc_ptr \<Rightarrow> (process \<Rightarrow> process) \<Rightarrow> ptable \<Rightarrow> ptable" where
  "pupd p f s = s\<lparr>procs := (procs s)(p := f (procs s p))\<rparr>"

section \<open>Creating processes\<close>

definition process_init :: "ptable \<Rightarrow> ptable" where
  "process_init s = s\<lparr>process_count := 0, current_process := None, ready_queue := None\<rparr>"

definition process_create :: "u64 \<Rightarrow> u64 \<Rightarrow> ptable \<Rightarrow> proc_ptr option \<times> u64 \<times> ptable" where
  "process_create entry0 heap s =
     (case kalloc heap sizeof_process of
        (None, heap') \<Rightarrow> (None, heap', s)
      | (Some a, heap') \<Rightarrow>
          let p = Heap a;
              s1 = pupd p (\<lambda>pr. pr\<lparr>ns := []\<rparr>) s;
              s2 = (if current_process s1 = None then s1\<lparr>current_process := Some p\<rparr> else s1);
              s3 = (if process_list s2 = None then s2\<lparr>process_list := Some p\<rparr>
                    else (pupd p (\<lambda>pr. pr\<lparr>nxt := process_list s2\<rparr>) s2)\<lparr>process_list := Some p\<rparr>);
              s4 = pupd p (\<lambda>pr. pr\<lparr>ctx := (ctx pr)\<lparr>ctx_pc := entry0\<rparr>, pid := next_pid s3\<rparr>) s3;
              s5 = s4\<lparr>next_pid := next_pid s4 + 1\<rparr>
          in (Some p, heap', pupd p (\<lambda>pr. pr\<lparr>cwd := ''/''\<rparr>) s5))"

definition init_process :: "link_map \<Rightarrow> ptable \<Rightarrow> ptable" where
  "init_process lm s =
     (let p = Slot 0;
          top = process_stacks lm + PROCESS_STACK_SIZE
      in (pupd p (\<lambda>pr. pr\<lparr>pid := 1, parent_pid := 0, pstate := PROC_RUNNING, nxt := None,
            proc_sp := top, ctx := (ctx pr)\<lparr>ctx_sp := top, ctx_lr := 0\<rparr>\<rparr>) s)
         \<lparr>process_list := Some p, current_process := Some p, process_count := 1, next_pid := 2\<rparr>)"

definition get_current_process :: "ptable \<Rightarrow> proc_ptr option" where
  "get_current_process s = current_process s"

definition get_pid :: "ptable \<Rightarrow> proc_ptr \<Rightarrow> int" where
  "get_pid s p = pid (procs s p)"

text \<open>
  \<open>None\<close>: the slot \<open>&processes[process_count++]\<close> lies outside the array, or there is no current
  process to copy from.
\<close>

definition create_process :: "link_map \<Rightarrow> ptable \<Rightarrow> (proc_ptr \<times> ptable) option" where
  "create_process lm s =
     do { cur \<leftarrow> get_current_process s;
          new \<leftarrow> (if process_count s < MAX_PROCESSES then Some (Slot (process_count s)) else None);
          let s1 = s\<lparr>process_count := process_count s + 1\<rparr>;
          let s2 = (pupd new (\<lambda>pr. pr\<lparr>pid := next_pid s1\<rparr>) s1)\<lparr>next_pid := next_pid s1 + 1\<rparr>;
          let s3 = pupd new (\<lambda>pr. pr\<lparr>parent_pid := pid (procs s2 cur)\<rparr>) s2;
          let s4 = pupd new (\<lambda>pr. pr\<lparr>pstate := PROC_READY, nxt := process_list s3\<rparr>) s3;
          let s5 = s4\<lparr>process_list := Some new\<rparr>;
          let top = process_stacks lm + of_nat (process_count s5) * PROCESS_STACK_SIZE;
          let s6 = pupd new (\<lambda>pr. pr\<lparr>proc_sp := top, ctx := ctx (procs s5 cur)\<rparr>) s5;
          let s7 = pupd new (\<lambda>pr. pr\<lparr>ctx := (ctx pr)\<lparr>ctx_sp := proc_sp pr, ctx_lr := process3 lm\<rparr>\<rparr>) s6;
          Some (new, s7) }"

definition init_processes :: "ptable \<Rightarrow> ptable" where
  "init_processes s =
     (pupd (Slot 0) (\<lambda>pr. pr\<lparr>pid := 1, pstate := PROC_RUNNING\<rparr>) s)
       \<lparr>current_process := Some (Slot 0), process_list := Some (Slot 0)\<rparr>"

section \<open>Walks along the process list\<close>

partial_function (option) sched_scan :: "ptable \<Rightarrow> proc_ptr option \<Rightarrow> proc_ptr option option" where
  "sched_scan s n =
     (case n of None \<Rightarrow> Some None
      | Some p \<Rightarrow>
          if pstate (procs s p) = PROC_ZOMBIE then sched_scan s (nxt (procs s p))
          else if pstate (procs s p) = PROC_READY then Some (Some p)
          else sched_scan s (nxt (procs s p)))"

partial_function (option) find_process_from :: "ptable \<Rightarrow> int \<Rightarrow> proc_ptr option \<Rightarrow> proc_ptr option option"
where
  "find_process_from s i n =
     (case n of None \<Rightarrow> Some None
      | Some p \<Rightarrow> if pid (procs s p) = i then Some (Some p) else find_process_from s i (nxt (procs s p)))"

definition find_process :: "int \<Rightarrow> ptable \<Rightarrow> proc_ptr option option" where
  "find_process i s = find_process_from s i (process_list s)"

partial_function (option) wait_scan :: "ptable \<Rightarrow> int \<Rightarrow> proc_ptr option \<Rightarrow> proc_ptr option option" where
  "wait_scan s me n =
     (case n of None \<Rightarrow> Some None
      | Some p \<Rightarrow>
          if parent_pid (procs s p) = me \<and> pstate (procs s p) = PROC_ZOMBIE then Some (Some p)
          else wait_scan s me (nxt (procs s p)))"

section \<open>Scheduling\<close>

datatype sched_outcome =
    Switch "proc_ptr option" proc_ptr   \<comment> \<open>\<open>context_switch(&old->ctx, &next->ctx)\<close>\<close>
  | Idle                                 \<comment> \<open>\<open>while(1);\<close>\<close>

text \<open>The body of the \<open>if\<close> that found a ready process: the two state changes and the new current.\<close>

definition dispatch :: "proc_ptr \<Rightarrow> ptable \<Rightarrow> ptable" where
  "dispatch n s =
     (let current = get_current_process s;
          s1 = pupd n (\<lambda>pr. pr\<lparr>pstate := PROC_RUNNING\<rparr>) s;
          s2 = (case current of
              Some c \<Rightarrow> if pstate (procs s1 c) = PROC_RUNNING
                        then pupd c (\<lambda>pr. pr\<lparr>pstate := PROC_READY\<rparr>) s1 else s1
            | None \<Rightarrow> s1)
      in s2\<lparr>current_process := Some n\<rparr>)"

definition schedule :: "ptable \<Rightarrow> (sched_outcome \<times> ptable) option" where
  "schedule s =
     do { r \<leftarrow> sched_scan s (process_list s);
          case r of
            None \<Rightarrow> Some (Idle, s)
          | Some n \<Rightarrow> Some (Switch (current_process s) n, dispatch n s) }"

text \<open>The loop of \<open>process_exit\<close> that unlinks the current process from \<open>ready_queue\<close>.\<close>

definition ready_unlink :: "ptable \<Rightarrow> proc_ptr option \<Rightarrow> proc_ptr \<Rightarrow> ptable" where
  "ready_unlink s prev t =
     (case prev of Some q \<Rightarrow> pupd q (\<lambda>pr. pr\<lparr>nxt := nxt (procs s t)\<rparr>) s
                 | None \<Rightarrow> s\<lparr>ready_queue := nxt (procs s t)\<rparr>)"

partial_function (option) ready_remove ::
  "ptable \<Rightarrow> proc_ptr \<Rightarrow> proc_ptr option \<Rightarrow> proc_ptr option \<Rightarrow> ptable option" where
  "ready_remove s c prev temp =
     (if temp = None then Some s
      else if the temp = c then Some (ready_unlink s prev (the temp))
      else ready_remove s c temp (nxt (procs s (the temp))))"

text \<open>The outcome is \<open>None\<close> when the function returns without scheduling.\<close>

definition process_exit :: "int \<Rightarrow> ptable \<Rightarrow> (sched_outcome option \<times> ptable) option" where
  "process_exit st s =
     (case current_process s of
        None \<Rightarrow> Some (None, s)
      | Some c \<Rightarrow>
          do { let s1 = pupd c (\<lambda>pr. pr\<lparr>pstate := PROC_ZOMBIE, exit_status := st\<rparr>) s;
               s2 \<leftarrow> ready_remove s1 c None (ready_queue s1);
               (out, s3) \<leftarrow> schedule (s2\<lparr>current_process := None\<rparr>);
               Some (Some out, s3) })"

definition exit_process :: "int \<Rightarrow> ptable \<Rightarrow> (sched_outcome \<times> ptable) option" where
  "exit_process st s =
     do { c \<leftarrow> get_current_process s;
          let s1 = pupd c (\<lambda>pr. pr\<lparr>pstate := PROC_ZOMBIE, exit_status := st\<rparr>) s;
          parent \<leftarrow> find_process (parent_pid (procs s1 c)) s1;
          let s2 = (case parent of
              Some q \<Rightarrow> if pstate (procs s1 q) = PROC_BLOCKED
                        then pupd q (\<lambda>pr. pr\<lparr>pstate := PROC_READY\<rparr>) s1 else s1
            | None \<Rightarrow> s1);
          schedule s2 }"

definition wait_for_child :: "ptable \<Rightarrow> (sched_outcome \<times> ptable) option" where
  "wait_for_child s =
     do { c \<leftarrow> get_current_process s;
          schedule (pupd c (\<lambda>pr. pr\<lparr>pstate := PROC_BLOCKED\<rparr>) s) }"

definition switch_to_process :: "proc_ptr \<Rightarrow> ptable \<Rightarrow> (sched_outcome \<times> ptable) option" where
  "switch_to_process n s =
     do { prev \<leftarrow> current_process s; Some (Switch (Some prev) n, s\<lparr>current_process := Some n\<rparr>) }"

section \<open>Message handlers\<close>

text \<open>The \<open>NULL\<close> test on \<open>new\<close> is never true: \<open>create_process\<close> returns an array element.\<close>

definition handle_fork_message :: "link_map \<Rightarrow> Message \<Rightarrow> ptable \<Rightarrow> (int \<times> Message \<times> ptable) option" where
  "handle_fork_message lm msg s =
     do { cur \<leftarrow> get_current_process s;
          (new, s1) \<leftarrow> create_process lm s;
          let s2 = pupd new (\<lambda>pr. pr\<lparr>parent_pid := pid (procs s1 cur), pstate := PROC_READY,
                 ctx := ctx (procs s1 cur)\<rparr>) s1;
          let s3 = pupd new (\<lambda>pr. pr\<lparr>ctx := (ctx pr)\<lparr>ctx_x := (ctx_x (ctx pr))[0 := 0], ctx_pc := entry msg\<rparr>\<rparr>) s2;
          Some (0, msg\<lparr>msg_pid := pid (procs s3 new), status := 0\<rparr>, s3) }"

text \<open>The outcome is \<open>None\<close> when a child was reaped, otherwise what \<open>schedule\<close> did.\<close>

definition handle_wait_message ::
  "Message \<Rightarrow> ptable \<Rightarrow> (sched_outcome option \<times> int \<times> Message \<times> ptable) option" where
  "handle_wait_message msg s =
     do { cur \<leftarrow> get_current_process s;
          r \<leftarrow> wait_scan s (pid (procs s cur)) (process_list s);
          case r of
            Some p \<Rightarrow>
              Some (None, 0, msg\<lparr>status := exit_status (procs s p), msg_pid := pid (procs s p)\<rparr>,
                    pupd p (\<lambda>pr. pr\<lparr>pstate := PROC_DEAD\<rparr>) s)
          | None \<Rightarrow>
              do { (out, s') \<leftarrow> schedule (pupd cur (\<lambda>pr. pr\<lparr>pstate := PROC_BLOCKED\<rparr>) s);
                   Some (Some out, 0, msg\<lparr>status := 0\<rparr>, s') } }"

text \<open>\<open>argv\<close> is stored as an address; the model keeps it as the argument \<open>argv_addr\<close>.\<close>

definition handle_exec_message :: "u64 \<Rightarrow> Message \<Rightarrow> ptable \<Rightarrow> (int \<times> ptable) option" where
  "handle_exec_message argv_addr msg s =
     (if path msg = None then Some (-1, s)
      else do { cur \<leftarrow> get_current_process s;
                let s1 = pupd cur (\<lambda>pr. pr\<lparr>ctx := (ctx pr)\<lparr>ctx_pc := entry msg, ctx_sp := PROCESS_STACK_TOP,
                      ctx_x := map (\<lambda>_. 0) (ctx_x (ctx pr))\<rparr>\<rparr>) s;
                Some (0, case argv msg of None \<Rightarrow> s1
                   | Some as \<Rightarrow> pupd cur (\<lambda>pr. pr\<lparr>ctx := (ctx pr)
                       \<lparr>ctx_x := (ctx_x (ctx pr))[0 := of_nat (length as), 1 := argv_addr]\<rparr>\<rparr>) s1) })"

end
