(* ===== verification/File_Types.thy ===== *)
theory File_Types
  imports Kmalloc Cstring
begin

text \<open>
  The data the virtual file system shares with its two file systems: \<open>src/include/vfs.h\<close>.

  The two operation tables \<open>ramfs_fops\<close>/\<open>ramfs_fs_type\<close> and \<open>abyssfs_fops\<close>/\<open>abyssfs_fs_type\<close> are named by
  \<open>fs_kind\<close>. File objects live in the kernel heap: \<open>kmem\<close> is the bump pointer with the file objects
  at their heap offsets. A heap block that has never been written reads as zero.

  Strings are values here: \<open>strcmp(a, b) == 0\<close> is \<open>a = b\<close> and \<open>strncmp(a, b, n) == 0\<close> is
  \<open>take n a = take n b\<close>, which is what the routines of \<open>Cstring\<close> compute on terminated strings. A
  destination buffer of fixed size is \<open>into_buf\<close>; \<open>None\<close> means that the code writes beyond it.
\<close>

datatype fs_kind = RamFs | AbyssFs

text \<open>\<open>void *private_data\<close>: a file of the RAM disk (its index) or an inode number cast to a pointer.\<close>

datatype fdata = Ram nat | Num u64

record vfs_file =
  f_ops :: "fs_kind option"
  f_path :: string
  private_data :: fdata
  f_pos :: u64

record vfs_super_block =
  s_magic :: u32
  s_type :: string

record dirent =
  d_inode :: u64
  d_name :: string

record kmem =
  heap_pos :: u64
  fobjs :: "u64 \<Rightarrow> vfs_file"

definition VFS_MAX_PATH :: nat where
  "VFS_MAX_PATH = 256"

definition zero_file :: vfs_file where
  "zero_file = \<lparr>f_ops = None, f_path = [], private_data = Num 0, f_pos = 0\<rparr>"

text \<open>\<open>sizeof(struct vfs_file)\<close>, \<open>sizeof(struct vfs_super_block)\<close> and \<open>sizeof(struct dirent)\<close> on AArch64.\<close>

definition sizeof_vfs_file :: u64 where
  "sizeof_vfs_file = 304"

definition sizeof_vfs_super_block :: u64 where
  "sizeof_vfs_super_block = 32"

definition sizeof_dirent :: u64 where
  "sizeof_dirent = 264"

text \<open>\<open>kalloc(sizeof(struct vfs_file))\<close> followed by the initialisation of the object.\<close>

definition new_file :: "vfs_file \<Rightarrow> kmem \<Rightarrow> u64 option \<times> kmem" where
  "new_file f km =
     (case kalloc (heap_pos km) sizeof_vfs_file of
        (None, h) \<Rightarrow> (None, km\<lparr>heap_pos := h\<rparr>)
      | (Some a, h) \<Rightarrow> (Some a, km\<lparr>heap_pos := h, fobjs := (fobjs km)(a := f)\<rparr>))"

lemma new_file_cases:
  obtains (fail) "new_file f km = (None, km)"
  | (ok) "new_file f km = (Some (heap_pos km),
      km\<lparr>heap_pos := heap_pos km + sizeof_vfs_file, fobjs := (fobjs km)(heap_pos km := f)\<rparr>)"
  by (rule kalloc_cases [of "heap_pos km" sizeof_vfs_file]) (auto simp: new_file_def)

section \<open>Bytes into memory\<close>

definition mwrite :: "mem \<Rightarrow> nat \<Rightarrow> byte list \<Rightarrow> mem" where
  "mwrite m a bs = mcopy m a ((!) bs) 0 (length bs)"

definition mread :: "mem \<Rightarrow> nat \<Rightarrow> nat \<Rightarrow> byte list" where
  "mread m a n = map (\<lambda>k. m (a + k)) [0..<n]"

lemma length_mread [simp]: "length (mread m a n) = n"
  by (simp add: mread_def)

lemma mread_0 [simp]: "mread m a 0 = []"
  by (simp add: mread_def)

lemma mread_nth [simp]: "k < n \<Longrightarrow> mread m a n ! k = m (a + k)"
  by (simp add: mread_def)

lemma mread_eq_drop: "mread m a n = take n (drop a (mread m 0 (a + n + k)))"
  by (rule nth_equalityI) simp_all

lemma mwrite_in [mem_simps]: "a \<le> b \<Longrightarrow> b < a + length bs \<Longrightarrow> mwrite m a bs b = bs ! (b - a)"
  by (simp add: mwrite_def mcopy_def)

lemma mwrite_out [mem_simps]: "b < a \<or> a + length bs \<le> b \<Longrightarrow> mwrite m a bs b = m b"
  by (auto simp: mwrite_def mcopy_def)

lemma mread_mwrite_same [simp]: "mread (mwrite m a bs) a (length bs) = bs"
  by (rule nth_equalityI) (simp_all add: mwrite_in)

text \<open>The first bytes of a memory after a write that starts inside or at the end of them.\<close>

lemma mread_mwrite:
  assumes "a \<le> n"
  shows "mread (mwrite m a bs) 0 (max n (a + length bs))
    = take a (mread m 0 n) @ bs @ drop (a + length bs) (mread m 0 n)"
  by (rule nth_equalityI) (use assms in \<open>auto simp: mwrite_def mcopy_def nth_append\<close>)

end
