(* ===== verification/Ramfs.thy ===== *)
theory Ramfs
  imports File_Types
begin

text \<open>
  The RAM disk \<open>src/src/fs/ramfs.c\<close>: sixteen files in a static array, found by their full path.

  The state is the array \<open>files\<close>. A content array is a byte memory of which the first \<open>MAX_CONTENT\<close>
  bytes exist; a copy beyond them, or beyond the caller's buffer, is \<open>None\<close>, as is a path that does
  not fit in its 32 bytes. Sizes and positions are 64-bit words and wrap as in the code.
\<close>

section \<open>State\<close>

definition MAX_FILES :: nat where
  "MAX_FILES = 16"

definition MAX_PATH :: nat where
  "MAX_PATH = 32"

definition MAX_CONTENT :: nat where
  "MAX_CONTENT = 4096"

definition RAMFS_MAGIC :: u32 where
  "RAMFS_MAGIC = 0x52414D46"

record ramfs_file =
  rf_path :: string
  content :: mem
  rf_size :: u64
  used :: bool

type_synonym ramfs = "ramfs_file list"

definition zero_ramfs_file :: ramfs_file where
  "zero_ramfs_file = \<lparr>rf_path = [], content = (\<lambda>_. NUL), rf_size = 0, used = False\<rparr>"

section \<open>Operations\<close>

text \<open>The results are the return value, the bytes copied to the caller's buffer and the file object.\<close>

definition ramfs_read :: "vfs_file \<Rightarrow> u64 \<Rightarrow> ramfs \<Rightarrow> (int \<times> byte list \<times> vfs_file) option" where
  "ramfs_read file count fs =
     (case private_data file of
        Num _ \<Rightarrow> None
      | Ram i \<Rightarrow>
          if i \<ge> length fs then None
          else let rf = fs ! i in
            if f_pos file \<ge> rf_size rf then Some (0, [], file)
            else let n = (if f_pos file + count > rf_size rf then rf_size rf - f_pos file else count) in
              if unat (f_pos file) + unat n > MAX_CONTENT then None
              else Some (sint n, mread (content rf) (unat (f_pos file)) (unat n), file\<lparr>f_pos := f_pos file + n\<rparr>))"

definition ramfs_write :: "vfs_file \<Rightarrow> byte list \<Rightarrow> u64 \<Rightarrow> ramfs \<Rightarrow> (int \<times> vfs_file \<times> ramfs) option" where
  "ramfs_write file buf count fs =
     (case private_data file of
        Num _ \<Rightarrow> None
      | Ram i \<Rightarrow>
          if i \<ge> length fs then None
          else let rf = fs ! i;
                   n = (if f_pos file + count > of_nat MAX_CONTENT then of_nat MAX_CONTENT - f_pos file else count) in
            if n > 0
            then if unat (f_pos file) + unat n > MAX_CONTENT \<or> unat n > length buf then None
                 else let pos = f_pos file + n;
                          rf1 = rf\<lparr>content := mwrite (content rf) (unat (f_pos file)) (take (unat n) buf)\<rparr>;
                          rf2 = (if pos > rf_size rf then rf1\<lparr>rf_size := pos\<rparr> else rf1)
                      in Some (sint n, file\<lparr>f_pos := pos\<rparr>, fs[i := rf2])
            else Some (sint n, file, fs))"

definition ramfs_open :: "string \<Rightarrow> ramfs \<Rightarrow> kmem \<Rightarrow> u64 option \<times> kmem" where
  "ramfs_open path0 fs km =
     (case first_idx (\<lambda>rf. used rf \<and> rf_path rf = path0) fs of
        None \<Rightarrow> (None, km)
      | Some i \<Rightarrow> new_file (zero_file\<lparr>f_ops := Some RamFs, private_data := Ram i, f_pos := 0,
                     f_path := take (VFS_MAX_PATH - 1) path0\<rparr>) km)"

definition ramfs_init :: "ramfs \<Rightarrow> ramfs" where
  "ramfs_init fs = replicate MAX_FILES zero_ramfs_file"

definition ramfs_create_file :: "string \<Rightarrow> string \<Rightarrow> ramfs \<Rightarrow> int \<times> ramfs" where
  "ramfs_create_file path0 content0 fs =
     (case first_idx (\<lambda>rf. \<not> used rf) fs of
        None \<Rightarrow> (-1, fs)
      | Some i \<Rightarrow>
          let p = take (MAX_PATH - 1) path0;
              c = take (MAX_CONTENT - 1) content0
          in (0, fs[i := (fs ! i)\<lparr>used := True, rf_path := p, content := mwrite (content (fs ! i)) 0 (c @ [NUL]),
                rf_size := of_nat (length c)\<rparr>]))"

text \<open>The comparison loop of \<open>ramfs_read_file\<close>, at most \<open>MAX_PATH\<close> bytes.\<close>

fun path_match :: "nat \<Rightarrow> string \<Rightarrow> string \<Rightarrow> bool" where
  "path_match 0 a b = True"
| "path_match (Suc n) a b =
     (if cs_nth a 0 \<noteq> cs_nth b 0 then False
      else if cs_nth b 0 = NUL then True
      else path_match n (tl a) (tl b))"

text \<open>Its copy loop, from position \<open>c\<close> with \<open>r\<close> steps left: the final \<open>c\<close> and the bytes written.\<close>

fun copy_out :: "mem \<Rightarrow> nat \<Rightarrow> nat \<Rightarrow> (nat \<times> byte list) option" where
  "copy_out m c 0 = Some (c, [])"
| "copy_out m c (Suc r) =
     (if c \<ge> MAX_CONTENT then None
      else if m c = NUL then Some (c, [NUL])
      else do { (d, bs) \<leftarrow> copy_out m (Suc c) r; Some (d, m c # bs) })"

definition ramfs_read_file :: "string \<Rightarrow> nat \<Rightarrow> ramfs \<Rightarrow> (int \<times> byte list) option" where
  "ramfs_read_file path0 max_len fs =
     (case first_idx (\<lambda>rf. used rf \<and> path_match MAX_PATH (rf_path rf) path0) fs of
        None \<Rightarrow> Some (-1, [])
      | Some i \<Rightarrow> do { (c, bs) \<leftarrow> copy_out (content (fs ! i)) 0 max_len; Some (int c, bs) })"

definition ramfs_mount :: "kmem \<Rightarrow> vfs_super_block option \<times> kmem" where
  "ramfs_mount km =
     (case kalloc (heap_pos km) sizeof_vfs_super_block of
        (None, h) \<Rightarrow> (None, km\<lparr>heap_pos := h\<rparr>)
      | (Some a, h) \<Rightarrow> (Some \<lparr>s_magic = RAMFS_MAGIC, s_type = ''ramfs''\<rparr>, km\<lparr>heap_pos := h\<rparr>))"

definition is_file_in_dir :: "string \<Rightarrow> string \<Rightarrow> bool" where
  "is_file_in_dir file_path dir_path =
     (let dir_len = length dir_path in
      if take dir_len file_path = take dir_len dir_path
      then if dir_path = ''/tmp''
           then if cs_nth file_path dir_len \<noteq> CHR ''/'' then False
                else last_idx CHR ''/'' (drop (dir_len + 1) file_path) = None
           else (case last_idx CHR ''/'' file_path of None \<Rightarrow> False | Some k \<Rightarrow> k = dir_len)
      else False)"

text \<open>A directory of the RAM disk is always its root.\<close>

definition ramfs_root :: ramfs_file where
  "ramfs_root = zero_ramfs_file\<lparr>rf_path := ''/'', used := True\<rparr>"

definition ramfs_find_dir :: "string \<Rightarrow> ramfs_file" where
  "ramfs_find_dir path0 = ramfs_root"

definition get_basename :: "string \<Rightarrow> string" where
  "get_basename path0 = (case last_idx CHR ''/'' path0 of Some k \<Rightarrow> drop (k + 1) path0 | None \<Rightarrow> path0)"

text \<open>The loop of \<open>ramfs_read_dir\<close> from index \<open>i\<close> on; the entries are the array \<open>dirents\<close> so far.\<close>

fun ramfs_dir_loop :: "string \<Rightarrow> nat \<Rightarrow> nat \<Rightarrow> ramfs \<Rightarrow> dirent list \<Rightarrow> dirent list" where
  "ramfs_dir_loop path0 max_entries i [] ds = ds"
| "ramfs_dir_loop path0 max_entries i (rf # fs) ds =
     (if length ds < max_entries
      then ramfs_dir_loop path0 max_entries (Suc i) fs
             (if used rf \<and> is_file_in_dir (rf_path rf) path0
              then ds @ [\<lparr>d_inode = of_nat (i + 2), d_name = get_basename (rf_path rf)\<rparr>] else ds)
      else ds)"

definition ramfs_read_dir :: "string \<Rightarrow> nat \<Rightarrow> ramfs \<Rightarrow> dirent list" where
  "ramfs_read_dir path0 max_entries fs =
     ramfs_dir_loop path0 max_entries 0 fs
       (take max_entries [\<lparr>d_inode = 1, d_name = ''.''\<rparr>, \<lparr>d_inode = 1, d_name = ''..''\<rparr>])"

definition ramfs_create :: "string \<Rightarrow> ramfs \<Rightarrow> kmem \<Rightarrow> (u64 option \<times> ramfs \<times> kmem) option" where
  "ramfs_create path0 fs km =
     do { full_path \<leftarrow> into_buf MAX_PATH (if take 5 path0 \<noteq> ''/tmp/'' then ''/tmp/'' @ path0 else path0);
          case first_idx (\<lambda>rf. \<not> used rf) fs of
            None \<Rightarrow> Some (None, fs, km)
          | Some i \<Rightarrow>
              let rf = (fs ! i)\<lparr>used := True, rf_path := full_path, rf_size := 0,
                     content := (content (fs ! i))(0 := NUL)\<rparr>
              in (case new_file (zero_file\<lparr>f_ops := Some RamFs, private_data := Ram i, f_pos := 0\<rparr>) km of
                    (None, km') \<Rightarrow> Some (None, fs[i := rf\<lparr>used := False\<rparr>], km')
                  | (Some a, km') \<Rightarrow> Some (Some a, fs[i := rf], km')) }"

definition ramfs_unlink :: "string \<Rightarrow> ramfs \<Rightarrow> int \<times> ramfs" where
  "ramfs_unlink path0 fs =
     (case first_idx (\<lambda>rf. used rf \<and> rf_path rf = path0) fs of
        None \<Rightarrow> (-1, fs)
      | Some i \<Rightarrow> (0, fs[i := (fs ! i)\<lparr>used := False, rf_size := 0\<rparr>]))"

definition ramfs_mkdir :: "string \<Rightarrow> ramfs \<Rightarrow> (int \<times> ramfs) option" where
  "ramfs_mkdir path0 fs =
     (case first_idx (\<lambda>rf. \<not> used rf) fs of
        None \<Rightarrow> Some (-1, fs)
      | Some i \<Rightarrow>
          do { p \<leftarrow> into_buf MAX_PATH path0;
               Some (0, fs[i := (fs ! i)\<lparr>used := True, rf_size := 0, rf_path := p\<rparr>]) })"

section \<open>Files as byte lists\<close>

definition rf_bytes :: "ramfs_file \<Rightarrow> byte list" where
  "rf_bytes rf = mread (content rf) 0 (unat (rf_size rf))"

definition ramfs_inv :: "ramfs \<Rightarrow> bool" where
  "ramfs_inv fs \<longleftrightarrow> length fs = MAX_FILES
     \<and> (\<forall>rf \<in> set fs. length (rf_path rf) < MAX_PATH \<and> unat (rf_size rf) \<le> MAX_CONTENT)"

text \<open>An open file of the RAM disk: its slot exists and its position is inside the content array.\<close>

definition ram_file_ok :: "ramfs \<Rightarrow> vfs_file \<Rightarrow> nat \<Rightarrow> bool" where
  "ram_file_ok fs file i \<longleftrightarrow> private_data file = Ram i \<and> i < length fs \<and> unat (f_pos file) \<le> MAX_CONTENT"

lemma length_rf_bytes [simp]: "length (rf_bytes rf) = unat (rf_size rf)"
  by (simp add: rf_bytes_def)

lemma ramfs_inv_nth: "ramfs_inv fs \<Longrightarrow> i < length fs \<Longrightarrow> unat (rf_size (fs ! i)) \<le> MAX_CONTENT"
  by (simp add: ramfs_inv_def)

lemma ramfs_inv_update [inv_intros]:
  assumes "ramfs_inv fs" "length (rf_path rf) < MAX_PATH" "unat (rf_size rf) \<le> MAX_CONTENT"
  shows "ramfs_inv (fs[i := rf])"
  using assms set_update_subset_insert [of fs i rf] by (auto simp: ramfs_inv_def)

section \<open>Reading and writing\<close>

lemma ramfs_read_spec:
  assumes inv: "ramfs_inv fs" and ok: "ram_file_ok fs file i" and cnt: "unat count \<le> 2 ^ 63"
  defines "bs \<equiv> take (unat count) (drop (unat (f_pos file)) (rf_bytes (fs ! i)))"
  shows "ramfs_read file count fs
    = Some (int (length bs), bs, file\<lparr>f_pos := f_pos file + of_nat (length bs)\<rparr>)"
proof -
  let ?rf = "fs ! i" and ?p = "f_pos file"
  have i: "i < length fs" "private_data file = Ram i" "unat ?p \<le> MAX_CONTENT"
    using ok by (auto simp: ram_file_ok_def)
  have sz: "unat (rf_size ?rf) \<le> MAX_CONTENT" using inv i(1) by (rule ramfs_inv_nth)
  show ?thesis
  proof (cases "?p \<ge> rf_size ?rf")
    case True
    then have "bs = []" by (simp add: bs_def word_le_nat_alt)
    with True i show ?thesis by (simp add: ramfs_read_def)
  next
    case False
    then have lt: "unat ?p < unat (rf_size ?rf)" by (simp add: word_le_nat_alt)
    define n where "n = (if ?p + count > rf_size ?rf then rf_size ?rf - ?p else count)"
    have "unat (?p + count) = unat ?p + unat count"
      using i(3) cnt by (intro unat_add_small) (simp add: MAX_CONTENT_def)
    then have n: "unat n = min (unat count) (unat (rf_size ?rf) - unat ?p)"
      using lt by (auto simp: n_def word_less_nat_alt unat_sub_le word_le_nat_alt min_def)
    then have bs: "mread (content ?rf) (unat ?p) (unat n) = bs"
      unfolding bs_def rf_bytes_def
      using lt by (subst mread_eq_drop [of _ _ _ "unat (rf_size ?rf) - unat ?p - unat n"]) (auto simp: min_def)
    have len: "length bs = unat n" by (simp flip: bs)
    have "unat ?p + unat n \<le> MAX_CONTENT" "sint n = int (unat n)"
      using n lt sz sint_small [of n, folded MAX_CONTENT_def] by (auto simp: min_def)
    then show ?thesis
      unfolding ramfs_read_def Let_def i(2) fdata.case n_def [symmetric] bs len
      using i(1) False by simp
  qed
qed


lemma ramfs_write_spec:
  assumes inv: "ramfs_inv fs" and ok: "ram_file_ok fs file i"
    and hole: "unat (f_pos file) \<le> unat (rf_size (fs ! i))"
    and cnt: "unat count \<le> length buf" "unat count \<le> 2 ^ 63"
  defines "bs \<equiv> take (min (unat count) (MAX_CONTENT - unat (f_pos file))) buf"
  obtains rf where "ramfs_write file buf count fs
      = Some (int (length bs), file\<lparr>f_pos := f_pos file + of_nat (length bs)\<rparr>, fs[i := rf])"
    "ramfs_inv (fs[i := rf])" "rf_path rf = rf_path (fs ! i)" "used rf = used (fs ! i)"
    "rf_bytes rf = take (unat (f_pos file)) (rf_bytes (fs ! i)) @ bs
       @ drop (unat (f_pos file) + length bs) (rf_bytes (fs ! i))"
proof -
  let ?rf = "fs ! i" and ?p = "f_pos file"
  have i: "i < length fs" "private_data file = Ram i" "unat ?p \<le> MAX_CONTENT"
    using ok by (auto simp: ram_file_ok_def)
  have sz: "unat (rf_size ?rf) \<le> MAX_CONTENT" "length (rf_path ?rf) < MAX_PATH"
    using inv i(1) by (auto simp: ramfs_inv_def)
  define n where "n = (if ?p + count > of_nat MAX_CONTENT then of_nat MAX_CONTENT - ?p else count)"
  have mc: "unat (of_nat MAX_CONTENT :: u64) = MAX_CONTENT" by (simp add: MAX_CONTENT_def)
  have "unat (?p + count) = unat ?p + unat count"
    using i(3) cnt by (intro unat_add_small) (simp add: MAX_CONTENT_def)
  then have n: "unat n = min (unat count) (MAX_CONTENT - unat ?p)"
    using i(3) by (auto simp: n_def word_less_nat_alt unat_sub_le word_le_nat_alt min_def mc)
  then have len: "length bs = unat n" "take (unat n) buf = bs"
    using cnt by (auto simp: bs_def min_def)
  have le: "unat ?p + unat n \<le> MAX_CONTENT" "sint n = int (unat n)"
    using n i(3) sint_small [of n, folded MAX_CONTENT_def] by (auto simp: min_def)
  have pos: "unat (?p + n) = unat ?p + unat n"
    using le(1) by (intro unat_add_small) (simp add: MAX_CONTENT_def)
  define rf1 where "rf1 = ?rf\<lparr>content := mwrite (content ?rf) (unat ?p) bs\<rparr>"
  define rf2 where "rf2 = (if ?p + n > rf_size ?rf then rf1\<lparr>rf_size := ?p + n\<rparr> else rf1)"
  have size2: "unat (rf_size rf2) = max (unat (rf_size ?rf)) (unat ?p + length bs)"
    using pos len(1) by (auto simp: rf2_def rf1_def word_less_nat_alt)
  have cont2: "content rf2 = mwrite (content ?rf) (unat ?p) bs"
    by (simp add: rf2_def rf1_def)
  have bytes: "rf_bytes rf2 = take (unat ?p) (rf_bytes ?rf) @ bs @ drop (unat ?p + length bs) (rf_bytes ?rf)"
    unfolding rf_bytes_def size2 cont2 by (rule mread_mwrite) (rule hole)
  have keep: "rf_path rf2 = rf_path ?rf" "used rf2 = used ?rf"
    by (simp_all add: rf2_def rf1_def)
  have inv2: "ramfs_inv (fs[i := rf2])"
    using inv sz size2 le(1) len(1) keep by (intro ramfs_inv_update) auto
  show thesis
  proof (cases "n > 0")
    case True
    then have "\<not> (unat ?p + unat n > MAX_CONTENT \<or> unat n > length buf)"
      using le n cnt by auto
    then have "ramfs_write file buf count fs = Some (int (length bs), file\<lparr>f_pos := ?p + of_nat (length bs)\<rparr>, fs[i := rf2])"
      unfolding ramfs_write_def Let_def i(2) fdata.case n_def [symmetric] len le(2) rf1_def [symmetric] rf2_def [symmetric]
      using i(1) True by simp
    then show thesis using bytes keep inv2 by (intro that) auto
  next
    case False
    then have "n = 0" by (simp add: word_gt_0)
    with len have "bs = []" "length bs = 0" by simp_all
    with False \<open>n = 0\<close> have "ramfs_write file buf count fs = Some (int (length bs), file\<lparr>f_pos := ?p + of_nat (length bs)\<rparr>, fs[i := ?rf])"
      unfolding ramfs_write_def Let_def i(2) fdata.case n_def [symmetric] using i(1) by simp
    then show thesis using \<open>bs = []\<close> inv sz by (intro that) (auto simp: inv_intros)
  qed
qed


section \<open>The interface: a map from paths to contents\<close>

text \<open>
  What a client relies on when it creates and removes files by path: the operations update a finite map.
\<close>

locale path_map =
  fixes lookup :: "'s \<Rightarrow> string \<Rightarrow> byte list option"
    and inv :: "'s \<Rightarrow> bool"
    and name_ok :: "string \<Rightarrow> bool"
    and add :: "string \<Rightarrow> 's \<Rightarrow> 's option"
    and del :: "string \<Rightarrow> 's \<Rightarrow> int \<times> 's"
  assumes add_lookup: "inv s \<Longrightarrow> name_ok p \<Longrightarrow> lookup s p = None \<Longrightarrow> add p s = Some s' \<Longrightarrow>
      inv s' \<and> lookup s' = (lookup s)(p := Some [])"
    and del_lookup: "inv s \<Longrightarrow> lookup s p \<noteq> None \<Longrightarrow>
      \<exists>s'. del p s = (0, s') \<and> inv s' \<and> lookup s' = (lookup s)(p := None)"
    and del_missing: "inv s \<Longrightarrow> lookup s p = None \<Longrightarrow> del p s = (-1, s)"
begin

lemma add_del:
  assumes "inv s" "name_ok p" "lookup s p = None" "add p s = Some s'"
  shows "\<exists>s''. del p s' = (0, s'') \<and> inv s'' \<and> lookup s'' = lookup s"
proof -
  from add_lookup [OF assms] have s': "inv s'" "lookup s' = (lookup s)(p := Some [])" by auto
  then have "lookup s' p \<noteq> None" by simp
  from del_lookup [OF s'(1) this] s'(2) assms(3) show ?thesis
    by (metis fun_upd_triv fun_upd_upd)
qed

lemma del_twice:
  assumes "inv s" "lookup s p \<noteq> None"
  shows "\<exists>s'. del p s = (0, s') \<and> del p s' = (-1, s')"
  using del_lookup [OF assms] del_missing by fastforce

end

section \<open>The RAM disk provides it\<close>

definition ram_find :: "string \<Rightarrow> ramfs \<Rightarrow> nat option" where
  "ram_find p fs = first_idx (\<lambda>rf. used rf \<and> rf_path rf = p) fs"

definition ram_lookup :: "ramfs \<Rightarrow> string \<Rightarrow> byte list option" where
  "ram_lookup fs p = map_option (\<lambda>i. rf_bytes (fs ! i)) (ram_find p fs)"

text \<open>No two files in use have the same path. The code does not enforce this, see below.\<close>

definition ram_uniq :: "ramfs \<Rightarrow> bool" where
  "ram_uniq fs \<longleftrightarrow> (\<forall>i < length fs. \<forall>j < length fs.
     used (fs ! i) \<and> used (fs ! j) \<and> rf_path (fs ! i) = rf_path (fs ! j) \<longrightarrow> i = j)"

definition ram_add :: "string \<Rightarrow> ramfs \<times> kmem \<Rightarrow> (ramfs \<times> kmem) option" where
  "ram_add p s = (case ramfs_create p (fst s) (snd s) of Some (Some a, s') \<Rightarrow> Some s' | _ \<Rightarrow> None)"

definition ram_del :: "string \<Rightarrow> ramfs \<times> kmem \<Rightarrow> int \<times> ramfs \<times> kmem" where
  "ram_del p s = (case ramfs_unlink p (fst s) of (r, fs') \<Rightarrow> (r, fs', snd s))"

lemma ram_find_iff:
  assumes "ram_uniq fs"
  shows "ram_find p fs = Some i \<longleftrightarrow> i < length fs \<and> used (fs ! i) \<and> rf_path (fs ! i) = p"
proof
  assume "ram_find p fs = Some i"
  then show "i < length fs \<and> used (fs ! i) \<and> rf_path (fs ! i) = p"
    unfolding ram_find_def by (blast dest: first_idx_SomeD)
next
  assume i: "i < length fs \<and> used (fs ! i) \<and> rf_path (fs ! i) = p"
  then have "ram_find p fs \<noteq> None"
    unfolding ram_find_def first_idx_None_iff using nth_mem by blast
  then obtain j where j: "ram_find p fs = Some j" by blast
  then have "j < length fs \<and> used (fs ! j) \<and> rf_path (fs ! j) = p"
    unfolding ram_find_def by (blast dest: first_idx_SomeD)
  with i assms have "i = j" unfolding ram_uniq_def by blast
  with j show "ram_find p fs = Some i" by simp
qed

lemma ram_find_None_iff: "ram_find p fs = None \<longleftrightarrow> (\<forall>i < length fs. used (fs ! i) \<longrightarrow> rf_path (fs ! i) \<noteq> p)"
  unfolding ram_find_def first_idx_None_iff by (metis in_set_conv_nth)

lemma ram_lookup_update:
  assumes "ram_uniq fs" "ram_uniq fs'" "length fs' = length fs"
    and "\<And>j. j \<noteq> i \<Longrightarrow> fs' ! j = fs ! j" "i < length fs"
    and "used (fs ! i) \<Longrightarrow> rf_path (fs ! i) = p" "used (fs' ! i) \<Longrightarrow> rf_path (fs' ! i) = p"
    and "used (fs' ! i) \<or> used (fs ! i)"
  shows "ram_lookup fs' = (ram_lookup fs)(p := if used (fs' ! i) then Some (rf_bytes (fs' ! i)) else None)"
proof
  fix q
  show "ram_lookup fs' q = ((ram_lookup fs)(p := if used (fs' ! i) then Some (rf_bytes (fs' ! i)) else None)) q"
  proof (cases "q = p")
    case True
    show ?thesis
    proof (cases "used (fs' ! i)")
      case u: True
      then have "ram_find p fs' = Some i" using assms by (simp add: ram_find_iff)
      with u True show ?thesis by (simp add: ram_lookup_def)
    next
      case u: False
      have "ram_find p fs' = None"
        unfolding ram_find_None_iff
      proof (intro allI impI notI)
        fix j assume j: "j < length fs'" "used (fs' ! j)" "rf_path (fs' ! j) = p"
        with u have "j \<noteq> i" by auto
        with j assms(3,4) have "used (fs ! j)" "rf_path (fs ! j) = p" "j < length fs" by auto
        moreover have "used (fs ! i)" "rf_path (fs ! i) = p" using assms(6,8) u by auto
        ultimately show False
          using assms(1,5) \<open>j \<noteq> i\<close> unfolding ram_uniq_def by blast
      qed
      with u True show ?thesis by (simp add: ram_lookup_def)
    qed
  next
    case False
    have "ram_find q fs' = Some j \<longleftrightarrow> ram_find q fs = Some j" for j
      using assms False by (cases "j = i") (auto simp: ram_find_iff)
    then have "ram_find q fs' = ram_find q fs" by (metis option.exhaust)
    moreover have "ram_find q fs \<noteq> Some i"
      using assms(1,6) False by (auto simp: ram_find_iff)
    ultimately show ?thesis
      using False assms(4) by (cases "ram_find q fs") (auto simp: ram_lookup_def)
  qed
qed


text \<open>The path under which \<open>ramfs_create\<close> files a name.\<close>

definition tmp_path :: "string \<Rightarrow> string" where
  "tmp_path p = (if take 5 p \<noteq> ''/tmp/'' then ''/tmp/'' @ p else p)"

lemma ramfs_create_Some:
  assumes "ramfs_create p fs km = Some (Some a, fs', km')"
  obtains i rf where "first_idx (\<lambda>rf. \<not> used rf) fs = Some i" "length (tmp_path p) < MAX_PATH" "fs' = fs[i := rf]"
    "used rf" "rf_path rf = tmp_path p" "rf_size rf = 0"
    "new_file (zero_file\<lparr>f_ops := Some RamFs, private_data := Ram i, f_pos := 0\<rparr>) km = (Some a, km')"
  using assms
  by (auto simp: ramfs_create_def Let_def tmp_path_def split: option.splits prod.splits if_splits)

lemma ram_uniq_update:
  assumes "ram_uniq fs" "used rf \<Longrightarrow> ram_find (rf_path rf) fs = None"
  shows "ram_uniq (fs[i := rf])"
  unfolding ram_uniq_def
proof (intro allI impI)
  fix j k
  assume jk: "j < length (fs[i := rf])" "k < length (fs[i := rf])"
    "used (fs[i := rf] ! j) \<and> used (fs[i := rf] ! k) \<and> rf_path (fs[i := rf] ! j) = rf_path (fs[i := rf] ! k)"
  have old: "used rf \<Longrightarrow> l < length fs \<Longrightarrow> used (fs ! l) \<Longrightarrow> rf_path (fs ! l) \<noteq> rf_path rf" for l
    using assms(2) unfolding ram_find_None_iff by blast
  consider "j = k" | "j = i" "k \<noteq> i" | "j \<noteq> i" "k = i" | "j \<noteq> i" "k \<noteq> i" by blast
  then show "j = k"
  proof cases
    case 2
    with jk have "used rf" "k < length fs" "used (fs ! k)" "rf_path (fs ! k) = rf_path rf" by simp_all
    with old show ?thesis by blast
  next
    case 3
    with jk have "used rf" "j < length fs" "used (fs ! j)" "rf_path (fs ! j) = rf_path rf" by simp_all
    with old show ?thesis by blast
  next
    case 4
    with jk have "used (fs ! j) \<and> used (fs ! k) \<and> rf_path (fs ! j) = rf_path (fs ! k)" "j < length fs" "k < length fs"
      by simp_all
    with assms(1) show ?thesis unfolding ram_uniq_def by blast
  qed
qed

lemma ram_add_Some:
  assumes "ramfs_inv fs" "ram_uniq fs" "ram_lookup fs (tmp_path p) = None" "ramfs_create p fs km = Some (Some a, fs', km')"
  shows "ramfs_inv fs' \<and> ram_uniq fs' \<and> ram_lookup fs' = (ram_lookup fs)(tmp_path p := Some [])"
  using assms(4)
proof (rule ramfs_create_Some)
  fix i rf
  assume i: "first_idx (\<lambda>rf. \<not> used rf) fs = Some i" and rf: "length (tmp_path p) < MAX_PATH"
    "fs' = fs[i := rf]" "used rf" "rf_path rf = tmp_path p" "rf_size rf = 0"
  note free = first_idx_SomeD [OF i]
  have "ram_find (rf_path rf) fs = None"
    using assms(3) by (simp add: rf ram_lookup_def)
  with assms(2) have u: "ram_uniq fs'" unfolding rf(2) by (rule ram_uniq_update)
  moreover have "ramfs_inv fs'"
    unfolding rf(2) using assms(1) rf by (intro ramfs_inv_update) simp_all
  moreover have "ram_lookup fs' = (ram_lookup fs)(tmp_path p := if used (fs' ! i) then Some (rf_bytes (fs' ! i)) else None)"
    using assms(2) u by (rule ram_lookup_update) (use free rf in auto)
  ultimately show ?thesis
    using free rf by (simp add: rf_bytes_def)
qed

lemma ram_unlink_lookup:
  assumes "ramfs_inv fs" "ram_uniq fs" "ram_lookup fs p \<noteq> None"
  shows "\<exists>fs'. ramfs_unlink p fs = (0, fs') \<and> ramfs_inv fs' \<and> ram_uniq fs' \<and> ram_lookup fs' = (ram_lookup fs)(p := None)"
proof -
  from assms(3) obtain i where i: "ram_find p fs = Some i"
    by (auto simp: ram_lookup_def)
  let ?rf = "(fs ! i)\<lparr>used := False, rf_size := 0\<rparr>"
  have f: "i < length fs" "used (fs ! i)" "rf_path (fs ! i) = p"
    using i assms(2) by (simp_all add: ram_find_iff)
  have u: "ram_uniq (fs[i := ?rf])"
    using assms(2) by (rule ram_uniq_update) simp
  have "ramfs_inv (fs[i := ?rf])"
    using assms(1) f by (intro ramfs_inv_update) (auto simp: ramfs_inv_def)
  moreover have "ram_lookup (fs[i := ?rf]) = (ram_lookup fs)(p := if used (fs[i := ?rf] ! i)
      then Some (rf_bytes (fs[i := ?rf] ! i)) else None)"
    using assms(2) u by (rule ram_lookup_update) (use f in auto)
  ultimately show ?thesis
    using i u f by (simp add: ramfs_unlink_def ram_find_def)
qed

interpretation ramdisk: path_map "\<lambda>s. ram_lookup (fst s)" "\<lambda>s. ramfs_inv (fst s) \<and> ram_uniq (fst s)"
  "\<lambda>p. take 5 p = ''/tmp/''" ram_add ram_del
proof unfold_locales
  fix s s' :: "ramfs \<times> kmem" and p :: string
  assume inv: "ramfs_inv (fst s) \<and> ram_uniq (fst s)" and "take 5 p = ''/tmp/''"
    and none: "ram_lookup (fst s) p = None" and "ram_add p s = Some s'"
  then have "tmp_path p = p" and "\<exists>a. ramfs_create p (fst s) (snd s) = Some (Some a, s')"
    by (auto simp: tmp_path_def ram_add_def split: option.splits prod.splits)
  with inv none ram_add_Some [of "fst s" p "snd s" _ "fst s'" "snd s'"]
  show "(ramfs_inv (fst s') \<and> ram_uniq (fst s')) \<and> ram_lookup (fst s') = (ram_lookup (fst s))(p := Some [])"
    by auto
next
  fix s :: "ramfs \<times> kmem" and p
  assume "ramfs_inv (fst s) \<and> ram_uniq (fst s)" "ram_lookup (fst s) p \<noteq> None"
  then show "\<exists>s'. ram_del p s = (0, s') \<and> (ramfs_inv (fst s') \<and> ram_uniq (fst s'))
      \<and> ram_lookup (fst s') = (ram_lookup (fst s))(p := None)"
    using ram_unlink_lookup [of "fst s" p] by (auto simp: ram_del_def)
next
  fix s :: "ramfs \<times> kmem" and p
  assume "ram_lookup (fst s) p = None"
  then show "ram_del p s = (-1, s)"
    by (simp add: ram_del_def ramfs_unlink_def ram_lookup_def ram_find_def)
qed


end
