(* ===== verification/Abyss_Layout.thy ===== *)
theory Abyss_Layout
  imports File_Types
begin

text \<open>
  The disk of AbyssFS, \<open>src/include/abyssfs.h\<close> and the lower half of \<open>src/src/fs/abyssfs.c\<close>: 64 blocks of
  4096 bytes in one heap block, a bitmap of the blocks in use, inodes in blocks 1 to 8 and directories as
  variable-length records.

  The disk is a byte memory and pointers into it are offsets from \<open>abyssfs.blocks\<close>; structure fields
  are little-endian loads and stores at their offsets. Everything beyond the 262144 bytes belongs to other heap
  objects: an access there is \<open>None\<close>. Directory walks end because every record they pass is non-empty,
  so they are total functions.
\<close>

section \<open>State\<close>

definition BLOCK_SIZE :: nat where
  "BLOCK_SIZE = 4096"

definition NUM_BLOCKS :: nat where "NUM_BLOCKS = 64"

definition DISK_SIZE :: nat where
  "DISK_SIZE = 262144"

definition ABYSSFS_MAGIC :: u32 where
  "ABYSSFS_MAGIC = 0xABCD1234"

definition sizeof_inode :: nat where
  "sizeof_inode = 64"

definition ABYSSFS_DIR_ENTRY_FIXED_SIZE :: nat where
  "ABYSSFS_DIR_ENTRY_FIXED_SIZE = 6"

record abyssfs_super_block =
  sb_magic :: u32
  sb_block_size :: u32
  total_blocks :: u32
  inode_blocks :: u32
  data_blocks :: u32
  free_blocks :: u32
  first_data_block :: u32

record abyss =
  sb :: abyssfs_super_block
  blocks :: mem
  blocks_allocated :: bool
  block_bitmap :: u64
  abyssfs_initialized :: bool

definition abyss0 :: abyss where
  "abyss0 = \<lparr>sb = \<lparr>sb_magic = 0, sb_block_size = 0, total_blocks = 0, inode_blocks = 0, data_blocks = 0,
       free_blocks = 0, first_data_block = 0\<rparr>,
     blocks = (\<lambda>_. NUL), blocks_allocated = False, block_bitmap = 0, abyssfs_initialized = False\<rparr>"

definition require :: "bool \<Rightarrow> unit option" where
  "require b = (if b then Some () else None)"

lemma require_Some_iff [simp]: "require b = Some u \<longleftrightarrow> b"
  by (simp add: require_def)

lemma require_True [simp]: "require True = Some ()"
  by (simp add: require_def)

section \<open>Blocks and inodes\<close>

text \<open>The sum and the mask are computed as \<open>int\<close> and cut to eight bits; on eight-bit words that is the same.\<close>

definition round_up :: "u8 \<Rightarrow> u8 \<Rightarrow> u8" where
  "round_up val align = (val + align - 1) AND NOT (align - 1)"

definition get_block :: "u32 \<Rightarrow> abyss \<Rightarrow> nat option" where
  "get_block block_num st =
     (if block_num \<ge> total_blocks (sb st) then None else Some (unat (block_num * of_nat BLOCK_SIZE)))"

definition alloc_block :: "abyss \<Rightarrow> u32 \<times> abyss" where
  "alloc_block st =
     (case find (\<lambda>i. \<not> bit (block_bitmap st) i) [unat (first_data_block (sb st))..<unat (total_blocks (sb st))] of
        None \<Rightarrow> (0, st)
      | Some i \<Rightarrow> (of_nat i, st\<lparr>block_bitmap := block_bitmap st OR push_bit i 1,
                       sb := (sb st)\<lparr>free_blocks := free_blocks (sb st) - 1\<rparr>\<rparr>))"

definition free_block :: "u32 \<Rightarrow> abyss \<Rightarrow> abyss" where
  "free_block block_num st =
     (if block_num < total_blocks (sb st)
      then st\<lparr>block_bitmap := block_bitmap st AND NOT (push_bit (unat block_num) 1),
              sb := (sb st)\<lparr>free_blocks := free_blocks (sb st) + 1\<rparr>\<rparr>
      else st)"

definition inodes_per_block :: u32 where
  "inodes_per_block = of_nat (BLOCK_SIZE div sizeof_inode)"

definition get_inode :: "u32 \<Rightarrow> abyss \<Rightarrow> nat option" where
  "get_inode inode_num st =
     (if unat inode_num \<ge> unat (inode_blocks (sb st) * of_nat BLOCK_SIZE) div sizeof_inode then None
      else do { block_ptr \<leftarrow> get_block (1 + inode_num div inodes_per_block) st;
                Some (block_ptr + unat (inode_num mod inodes_per_block) * sizeof_inode) })"

text \<open>The fields of \<open>struct abyssfs_inode\<close> that the code uses, by the address of the structure.\<close>

definition i_mode :: "abyss \<Rightarrow> nat \<Rightarrow> u32" where
  "i_mode st p = ld32 (blocks st) p"

definition i_size :: "abyss \<Rightarrow> nat \<Rightarrow> u32" where
  "i_size st p = ld32 (blocks st) (p + 4)"

definition i_blocks :: "abyss \<Rightarrow> nat \<Rightarrow> u32" where
  "i_blocks st p = ld32 (blocks st) (p + 8)"

definition set_i_mode :: "nat \<Rightarrow> u32 \<Rightarrow> abyss \<Rightarrow> abyss" where
  "set_i_mode p v st = st\<lparr>blocks := st32 (blocks st) p v\<rparr>"

definition set_i_size :: "nat \<Rightarrow> u32 \<Rightarrow> abyss \<Rightarrow> abyss" where
  "set_i_size p v st = st\<lparr>blocks := st32 (blocks st) (p + 4) v\<rparr>"

definition set_i_blocks :: "nat \<Rightarrow> u32 \<Rightarrow> abyss \<Rightarrow> abyss" where
  "set_i_blocks p v st = st\<lparr>blocks := st32 (blocks st) (p + 8) v\<rparr>"

definition clear_inode :: "nat \<Rightarrow> abyss \<Rightarrow> abyss" where
  "clear_inode p st = st\<lparr>blocks := mfill (blocks st) p NUL sizeof_inode\<rparr>"

text \<open>The result is 0 when no inode is free.\<close>

definition alloc_inode :: "abyss \<Rightarrow> u32 \<times> abyss" where
  "alloc_inode st =
     (let max_inodes = inode_blocks (sb st) * inodes_per_block in
      case find (\<lambda>i. case get_inode (of_nat i) st of None \<Rightarrow> False | Some p \<Rightarrow> i_mode st p = 0) [1..<unat max_inodes] of
        None \<Rightarrow> (0, st)
      | Some i \<Rightarrow> (of_nat i, case get_inode (of_nat i) st of
            Some p \<Rightarrow> set_i_mode p 0x1FF (clear_inode p st) | None \<Rightarrow> st))"

section \<open>Directory records\<close>

text \<open>\<open>struct abyssfs_dir_entry\<close> is packed: inode at 0, name length at 4, record length at 5, name at 6.\<close>

definition de_inode :: "mem \<Rightarrow> nat \<Rightarrow> u32" where
  "de_inode m p = ld32 m p"

definition de_name_len :: "mem \<Rightarrow> nat \<Rightarrow> nat" where
  "de_name_len m p = of_char (m (p + 4))"

definition de_rec_len :: "mem \<Rightarrow> nat \<Rightarrow> nat" where
  "de_rec_len m p = of_char (m (p + 5))"

text \<open>The record size of a name: \<open>round_up(FIXED_SIZE + n + 1, 4)\<close> with the argument cut to eight bits.\<close>

definition rec_size :: "nat \<Rightarrow> nat" where
  "rec_size n = unat (round_up (of_nat (ABYSSFS_DIR_ENTRY_FIXED_SIZE + n + 1)) 4)"

text \<open>\<open>strcmp(dir->name, s) == 0\<close>, reading no more of the disk than the loop does.\<close>

fun streq_at :: "mem \<Rightarrow> nat \<Rightarrow> string \<Rightarrow> bool option" where
  "streq_at m a [] = (if a < DISK_SIZE then Some (m a = NUL) else None)"
| "streq_at m a (c # s) =
     (if a < DISK_SIZE then (if m a = c then streq_at m (Suc a) s else Some False) else None)"

text \<open>\<open>strcpy\<close> of a string on the disk into a buffer of \<open>n\<close> bytes.\<close>

fun cstr_at :: "nat \<Rightarrow> mem \<Rightarrow> nat \<Rightarrow> string option" where
  "cstr_at 0 m a = None"
| "cstr_at (Suc n) m a =
     (if a < DISK_SIZE
      then if m a = NUL then Some [] else do { s \<leftarrow> cstr_at n m (Suc a); Some (m a # s) }
      else None)"

text \<open>The loop \<open>while (dir && dir->rec_len > 0) if (strcmp(dir->name, s) == 0) ...\<close>, with no end of block.\<close>

function dir_find :: "mem \<Rightarrow> nat \<Rightarrow> string \<Rightarrow> nat option option" where
  "dir_find m p s =
     (if p + ABYSSFS_DIR_ENTRY_FIXED_SIZE > DISK_SIZE then None
      else if de_rec_len m p > 0
      then do { eq \<leftarrow> streq_at m (p + 6) s;
                if eq then Some (Some p) else dir_find m (p + de_rec_len m p) s }
      else Some None)"
  by pat_completeness auto
termination
  by (relation "measure (\<lambda>(m, p, s). DISK_SIZE - p)") (auto simp: ABYSSFS_DIR_ENTRY_FIXED_SIZE_def)

text \<open>The loop of \<open>create_file\<close> and \<open>abyssfs_mkdir\<close> that looks for the last record of a block.\<close>

function dir_end :: "mem \<Rightarrow> nat \<Rightarrow> nat option \<Rightarrow> nat \<Rightarrow> (nat option \<times> nat) option" where
  "dir_end m block_end prev entry0 =
     (if entry0 < block_end
      then if entry0 + ABYSSFS_DIR_ENTRY_FIXED_SIZE > DISK_SIZE then None
           else if de_rec_len m entry0 > 0
           then dir_end m block_end (Some entry0) (entry0 + de_rec_len m entry0)
           else Some (prev, entry0)
      else Some (prev, entry0))"
  by pat_completeness auto
termination
  by (relation "measure (\<lambda>(m, b, q, p). b - p)") auto

text \<open>The five assignments that fill in a record; the length of the name is cut to eight bits.\<close>

definition write_entry :: "nat \<Rightarrow> string \<Rightarrow> u32 \<Rightarrow> mem \<Rightarrow> mem option" where
  "write_entry entry0 filename inode_num m =
     do { let name_len = length filename mod 256;
          _ \<leftarrow> require (entry0 + ABYSSFS_DIR_ENTRY_FIXED_SIZE + name_len + 1 \<le> DISK_SIZE);
          let m1 = st32 m entry0 inode_num;
          let m2 = m1(entry0 + 4 := char_of name_len, entry0 + 5 := char_of (rec_size name_len));
          Some ((mwrite m2 (entry0 + 6) (take name_len filename))(entry0 + 6 + name_len := NUL)) }"

text \<open>The end of \<open>create_file\<close> and of \<open>abyssfs_mkdir\<close>: shrink the last record and write one after it.\<close>

definition dir_append :: "nat \<Rightarrow> string \<Rightarrow> u32 \<Rightarrow> mem \<Rightarrow> mem option" where
  "dir_append block_start filename inode_num m =
     do { let block_end = block_start + BLOCK_SIZE;
          (prev, e0) \<leftarrow> dir_end m block_end None block_start;
          (entry0, m1) \<leftarrow> (case prev of
              None \<Rightarrow> Some (block_start, m)
            | Some q \<Rightarrow>
                let prev_min = rec_size (de_name_len m q);
                    e = q + prev_min
                in if e > block_end then None
                   else Some (e, mfill (m(q + 5 := char_of prev_min)) e NUL (block_end - e)));
          write_entry entry0 filename inode_num m1 }"

text \<open>The two records \<open>.\<close> and \<open>..\<close> of a new directory; the length of the second is cut to eight bits.\<close>

definition write_dots :: "nat \<Rightarrow> u32 \<Rightarrow> u32 \<Rightarrow> mem \<Rightarrow> mem" where
  "write_dots p self parent m =
     (let rec0 = rec_size 1;
          m1 = (mwrite (st32 m p self) (p + 6) (''.'' @ [NUL]))(p + 4 := char_of (1::nat), p + 5 := char_of rec0);
          q = p + rec0
      in (mwrite (st32 m1 q parent) (q + 6) (''..'' @ [NUL]))
           (q + 4 := char_of (2::nat), q + 5 := char_of (BLOCK_SIZE - rec0)))"

end
