(* ===== verification/Abyssfs.thy ===== *)
theory Abyssfs
  imports Abyss_Layout
begin

text \<open>
  The operations of AbyssFS, \<open>src/src/fs/abyssfs.c\<close>, on the disk of \<open>Abyss_Layout\<close>.

  \<open>current_process->cwd\<close> is an argument (\<open>None\<close> when there is no current process, which makes the code
  follow a null pointer). Functions that return an inode pointer return its offset, with \<open>None\<close> for \<open>NULL\<close>
  inside the outer option that stands for undefined behaviour. The loop over \<open>strtok_r\<close> is a recursion over
  \<open>tokens\<close>. Console output is left out.
\<close>

section \<open>Initialisation\<close>

text \<open>The root inode and the two records of its directory.\<close>

definition format_root :: "abyss \<Rightarrow> abyss" where
  "format_root st =
     (case get_inode 1 st of
        None \<Rightarrow> st
      | Some root_inode \<Rightarrow>
          let s1 = set_i_mode root_inode 0x4000 st;
              s2 = set_i_size root_inode (of_nat BLOCK_SIZE) s1;
              s3 = set_i_blocks root_inode (inode_blocks (sb s2) + 1) s2
          in (case get_block (i_blocks s3 root_inode) s3 of
                None \<Rightarrow> s3
              | Some root_dir \<Rightarrow> s3\<lparr>blocks := write_dots root_dir 1 1 (blocks s3)\<rparr>))"

text \<open>\<open>abyssfs_init\<close> after the blocks have been allocated.\<close>

definition abyss_format :: "abyss \<Rightarrow> abyss" where
  "abyss_format st =
     (let sb0 = \<lparr>sb_magic = ABYSSFS_MAGIC, sb_block_size = of_nat BLOCK_SIZE, total_blocks = 64, inode_blocks = 8,
            data_blocks = 64 - 8 - 1, free_blocks = 64 - 8 - 1, first_data_block = 8 + 1\<rparr>;
          st1 = st\<lparr>blocks := mfill (blocks st) 0 NUL DISK_SIZE, blocks_allocated := True, sb := sb0\<rparr>;
          st2 = fold (\<lambda>i s. case get_inode (of_nat i) s of Some p \<Rightarrow> clear_inode p s | None \<Rightarrow> s) [0..<8] st1;
          st3 = st2\<lparr>block_bitmap := fold (\<lambda>i b. b OR push_bit i 1) [0..<9] 0\<rparr>;
          st4 = format_root st3
      in st4\<lparr>block_bitmap := block_bitmap st4 OR push_bit (unat (inode_blocks (sb st4) + 1)) 1,
             abyssfs_initialized := True\<rparr>)"

definition abyssfs_init :: "abyss \<Rightarrow> kmem \<Rightarrow> abyss \<times> kmem" where
  "abyssfs_init st km =
     (if abyssfs_initialized st then (st, km)
      else case kalloc (heap_pos km) (of_nat (BLOCK_SIZE * 64)) of
             (None, h) \<Rightarrow> (st\<lparr>blocks_allocated := False\<rparr>, km\<lparr>heap_pos := h\<rparr>)
           | (Some a, h) \<Rightarrow> (abyss_format st, km\<lparr>heap_pos := h\<rparr>))"

definition abyssfs_mount :: "abyss \<Rightarrow> kmem \<Rightarrow> vfs_super_block option \<times> abyss \<times> kmem" where
  "abyssfs_mount st km =
     (case kalloc (heap_pos km) sizeof_vfs_super_block of
        (None, h) \<Rightarrow> (None, st, km\<lparr>heap_pos := h\<rparr>)
      | (Some a, h) \<Rightarrow>
          (case abyssfs_init st (km\<lparr>heap_pos := h\<rparr>) of (st', km') \<Rightarrow>
             (Some \<lparr>s_magic = ABYSSFS_MAGIC, s_type = ''abyssfs''\<rparr>, st', km')))"

section \<open>Paths\<close>

text \<open>One leading slash is skipped.\<close>

definition skip_slash :: "string \<Rightarrow> string" where
  "skip_slash p = (case p of [] \<Rightarrow> [] | c # r \<Rightarrow> if c = CHR ''/'' then r else p)"

text \<open>The loop over the path components, from the inode at \<open>cur\<close>.\<close>

fun path_walk :: "abyss \<Rightarrow> nat option \<Rightarrow> string list \<Rightarrow> nat option option" where
  "path_walk st cur [] = Some cur"
| "path_walk st cur (token # ts) =
     (case cur of
        None \<Rightarrow> None
      | Some inode \<Rightarrow>
          let dir_block = i_blocks st inode in
          if dir_block = 0 then Some None
          else (case get_block dir_block st of
                  None \<Rightarrow> Some None
                | Some dir \<Rightarrow>
                    do { r \<leftarrow> dir_find (blocks st) dir token;
                         case r of
                           None \<Rightarrow> Some None
                         | Some p \<Rightarrow> path_walk st (get_inode (de_inode (blocks st) p) st) ts }))"

definition get_inode_by_path :: "string \<Rightarrow> abyss \<Rightarrow> nat option option" where
  "get_inode_by_path path0 st =
     (let path1 = skip_slash path0 in
      if path1 = [] then Some (get_inode 1 st)
      else path_walk st (get_inode 1 st) (tokens ''/'' (take 255 path1)))"

text \<open>
  The inode of the directory in which \<open>create_file\<close> puts a name, and the last component of the name. An empty working directory is a
  cleared array, so \<open>cwd + 1\<close> is empty as well.
\<close>

definition create_target :: "string option \<Rightarrow> string \<Rightarrow> abyss \<Rightarrow> (nat option \<times> string) option" where
  "create_target cwd name st =
     (let path_copy = take 255 name in
      case last_idx CHR ''/'' path_copy of
        Some k \<Rightarrow>
          let dir = take k path_copy; filename = drop (k + 1) path_copy in
          if dir = [] then do { i \<leftarrow> get_inode 1 st; Some (Some i, filename) }
          else do { i \<leftarrow> get_inode_by_path dir st; Some (i, filename) }
      | None \<Rightarrow>
          do { wd \<leftarrow> cwd;
               if wd \<noteq> ''/'' then do { i \<leftarrow> get_inode_by_path (drop 1 wd) st; Some (i, name) }
               else do { i \<leftarrow> get_inode 1 st; Some (Some i, name) } })"

text \<open>The block of a directory, with the default for the root; \<open>None\<close> inside is the error return.\<close>

definition dir_block_of :: "nat \<Rightarrow> abyss \<Rightarrow> u32 option" where
  "dir_block_of inode st =
     (let dir_block = i_blocks st inode in
      if dir_block = 0
      then if Some inode = get_inode 1 st then Some (inode_blocks (sb st) + 1) else None
      else Some dir_block)"

definition create_file :: "string option \<Rightarrow> string \<Rightarrow> u32 \<Rightarrow> abyss \<Rightarrow> (int \<times> abyss) option" where
  "create_file cwd name inode_num st =
     do { (dir_inode, filename) \<leftarrow> create_target cwd name st;
          case dir_inode of
            None \<Rightarrow> Some (-1, st)
          | Some d \<Rightarrow>
              (case dir_block_of d st of
                 None \<Rightarrow> Some (-1, st)
               | Some dir_block \<Rightarrow>
                   do { start \<leftarrow> get_block dir_block st;
                        m \<leftarrow> dir_append start filename inode_num (blocks st);
                        Some (0, st\<lparr>blocks := m\<rparr>) }) }"

section \<open>Files\<close>

text \<open>The inode number in \<open>private_data\<close>, cut to 32 bits; a RAM disk pointer is never passed here.\<close>

definition file_inode :: "vfs_file \<Rightarrow> u32 option" where
  "file_inode file = (case private_data file of Num n \<Rightarrow> Some (ucast n) | Ram _ \<Rightarrow> None)"

definition abyssfs_read :: "vfs_file \<Rightarrow> u64 \<Rightarrow> abyss \<Rightarrow> (int \<times> byte list \<times> vfs_file) option" where
  "abyssfs_read file count st =
     do { inode_num \<leftarrow> file_inode file;
          case get_inode inode_num st of
            None \<Rightarrow> Some (-1, [], file)
          | Some inode \<Rightarrow>
              let size0 = ucast (i_size st inode) :: u64 in
              if f_pos file \<ge> size0 then Some (0, [], file)
              else let n = (if f_pos file + count > size0 then size0 - f_pos file else count);
                       src = unat (i_blocks st inode * of_nat BLOCK_SIZE) + unat (f_pos file)
                   in if src + unat n > DISK_SIZE then None
                      else Some (sint n, mread (blocks st) src (unat n), file\<lparr>f_pos := f_pos file + n\<rparr>) }"

definition write_to_blocks :: "nat \<Rightarrow> byte list \<Rightarrow> u64 \<Rightarrow> abyss \<Rightarrow> (u64 \<times> abyss) option" where
  "write_to_blocks inode buf count st =
     (let n = (if count > of_nat BLOCK_SIZE then of_nat BLOCK_SIZE else count);
          r = (if i_blocks st inode = 0
               then (case alloc_block st of (b, st1) \<Rightarrow> if b = 0 then (False, st1) else (True, set_i_blocks inode b st1))
               else (True, st))
      in case r of (ok, st2) \<Rightarrow>
           if \<not> ok then Some (0, st2)
           else let dst = unat (i_blocks st2 inode * of_nat BLOCK_SIZE) in
             if dst + unat n > DISK_SIZE \<or> unat n > length buf then None
             else Some (n, st2\<lparr>blocks := mwrite (blocks st2) dst (take (unat n) buf)\<rparr>))"

definition abyssfs_write :: "vfs_file \<Rightarrow> byte list \<Rightarrow> u64 \<Rightarrow> abyss \<Rightarrow> (int \<times> vfs_file \<times> abyss) option" where
  "abyssfs_write file buf count st =
     do { inode_num \<leftarrow> file_inode file;
          case get_inode inode_num st of
            None \<Rightarrow> Some (-1, file, st)
          | Some inode \<Rightarrow>
              do { (written, st1) \<leftarrow> write_to_blocks inode buf count st;
                   let st2 = (if written > 0 then set_i_size inode (i_size st1 inode + ucast written) st1 else st1);
                   Some (sint written, file, st2) } }"

definition abyssfs_create :: "string option \<Rightarrow> string \<Rightarrow> abyss \<Rightarrow> kmem \<Rightarrow> (u64 option \<times> abyss \<times> kmem) option" where
  "abyssfs_create cwd path0 st km =
     (let path1 = skip_slash path0 in
      case alloc_inode st of (inode_num, st1) \<Rightarrow>
        if inode_num = 0 then Some (None, st1, km)
        else if get_inode inode_num st1 = None then Some (None, st1, km)
        else do { (r, st2) \<leftarrow> create_file cwd path1 inode_num st1;
                  if r < 0 then Some (None, st2, km)
                  else (case new_file (zero_file\<lparr>f_pos := 0, f_ops := Some AbyssFs, private_data := Num (ucast inode_num)\<rparr>) km of
                          (a, km') \<Rightarrow> Some (a, st2, km')) })"

definition abyssfs_create_file :: "string option \<Rightarrow> string \<Rightarrow> abyss \<Rightarrow> kmem \<Rightarrow> (u64 option \<times> abyss \<times> kmem) option" where
  "abyssfs_create_file cwd path0 st km =
     (let path1 = skip_slash path0 in
      case alloc_inode st of (inode_num, st1) \<Rightarrow>
        if inode_num = 0 then Some (None, st1, km)
        else do { (r, st2) \<leftarrow> create_file cwd path1 inode_num st1;
                  if r < 0 then Some (None, st2, km)
                  else (case new_file (zero_file\<lparr>f_ops := Some AbyssFs, private_data := Num (ucast inode_num), f_pos := 0,
                               f_path := take (VFS_MAX_PATH - 1) path1\<rparr>) km of
                          (a, km') \<Rightarrow> Some (a, st2, km')) })"

definition abyssfs_open :: "string \<Rightarrow> kmem \<Rightarrow> u64 option \<times> kmem" where
  "abyssfs_open path0 km =
     new_file (zero_file\<lparr>f_ops := Some AbyssFs, private_data := Num 0, f_path := take (VFS_MAX_PATH - 1) path0\<rparr>) km"

section \<open>Directories\<close>

text \<open>The scan of \<open>abyssfs_read_dir\<close> with room for \<open>n\<close> more entries.\<close>

fun dir_list :: "nat \<Rightarrow> mem \<Rightarrow> nat \<Rightarrow> dirent list option" where
  "dir_list n m p =
     (if p + ABYSSFS_DIR_ENTRY_FIXED_SIZE > DISK_SIZE then None
      else if de_rec_len m p > 0
      then (case n of
              0 \<Rightarrow> Some []
            | Suc k \<Rightarrow>
                do { nm \<leftarrow> cstr_at 256 m (p + 6);
                     ds \<leftarrow> dir_list k m (p + de_rec_len m p);
                     Some (\<lparr>d_inode = ucast (de_inode m p), d_name = nm\<rparr> # ds) })
      else Some [])"

text \<open>\<open>None\<close> inside is the return value -1.\<close>

definition abyssfs_read_dir :: "string \<Rightarrow> nat \<Rightarrow> abyss \<Rightarrow> dirent list option option" where
  "abyssfs_read_dir path0 max_entries st =
     (let path1 = skip_slash path0 in
      do { b \<leftarrow> (if path1 = [] then Some (Some (inode_blocks (sb st) + 1))
                else do { i \<leftarrow> get_inode_by_path path1 st; Some (map_option (i_blocks st) i) });
           case b of
             None \<Rightarrow> Some None
           | Some dir_block \<Rightarrow>
               (case get_block dir_block st of
                  None \<Rightarrow> Some None
                | Some dir \<Rightarrow> do { ds \<leftarrow> dir_list max_entries (blocks st) dir; Some (Some ds) }) })"

text \<open>The inode of a removed entry: mode 0, and its block given back.\<close>

definition release_inode :: "u32 \<Rightarrow> abyss \<Rightarrow> abyss" where
  "release_inode n st =
     (case get_inode n st of
        None \<Rightarrow> st
      | Some inode \<Rightarrow>
          let st1 = set_i_mode inode 0 st in
          if i_blocks st1 inode \<noteq> 0 then free_block (i_blocks st1 inode) st1 else st1)"

definition abyssfs_unlink :: "string \<Rightarrow> abyss \<Rightarrow> (int \<times> abyss) option" where
  "abyssfs_unlink path0 st =
     (let path1 = skip_slash path0 in
      case get_block (inode_blocks (sb st) + 1) st of
        None \<Rightarrow> Some (-1, st)
      | Some root \<Rightarrow>
          do { r \<leftarrow> dir_find (blocks st) root path1;
               case r of
                 None \<Rightarrow> Some (-1, st)
               | Some dir \<Rightarrow>
                   let st1 = release_inode (de_inode (blocks st) dir) st;
                       m = blocks st1;
                       next0 = dir + de_rec_len m dir
                   in if next0 + ABYSSFS_DIR_ENTRY_FIXED_SIZE > DISK_SIZE then None
                      else if de_rec_len m next0 > 0
                      then if next0 > root + BLOCK_SIZE then None
                           else Some (0, st1\<lparr>blocks := snd (memmove m dir next0 (root + BLOCK_SIZE - next0))\<rparr>)
                      else Some (0, st1\<lparr>blocks := mfill m dir NUL (de_rec_len m dir)\<rparr>) })"

text \<open>The loop over the inode numbers 1 to 512 that looks for the number of the parent.\<close>

definition inode_num_of :: "nat \<Rightarrow> abyss \<Rightarrow> u32" where
  "inode_num_of inode st =
     (case find (\<lambda>i. get_inode (of_nat i) st = Some inode) [1..<513] of Some i \<Rightarrow> of_nat i | None \<Rightarrow> 1)"

text \<open>The parent of a new directory: its inode, if found, and its number.\<close>

definition mkdir_parent :: "string \<Rightarrow> abyss \<Rightarrow> (nat option \<times> u32) option" where
  "mkdir_parent parent_path st =
     (if parent_path = ''/'' then Some (get_inode 1 st, 1)
      else do { i \<leftarrow> get_inode_by_path (drop 1 parent_path) st;
                Some (i, case i of Some p \<Rightarrow> inode_num_of p st | None \<Rightarrow> 1) })"

text \<open>The last part of \<open>abyssfs_mkdir\<close>: the record in the parent directory.\<close>

definition mkdir_link :: "nat \<Rightarrow> string \<Rightarrow> u32 \<Rightarrow> abyss \<Rightarrow> (int \<times> abyss) option" where
  "mkdir_link parent_inode basename inode_num st =
     (case dir_block_of parent_inode st of
        None \<Rightarrow> Some (-1, st)
      | Some parent_block \<Rightarrow>
          do { start \<leftarrow> get_block parent_block st;
               m \<leftarrow> dir_append start basename inode_num (blocks st);
               Some (0, st\<lparr>blocks := m\<rparr>) })"

text \<open>The part before it: the fields of the new inode and the records \<open>.\<close> and \<open>..\<close>.\<close>

definition mkdir_fill :: "nat \<Rightarrow> u32 \<Rightarrow> string \<Rightarrow> u32 \<Rightarrow> nat \<Rightarrow> u32 \<Rightarrow> abyss \<Rightarrow> (int \<times> abyss) option" where
  "mkdir_fill parent_inode parent_inode_num basename inode_num inode dir_block st =
     (let st1 = set_i_size inode (of_nat BLOCK_SIZE) (set_i_blocks inode dir_block st);
          st2 = set_i_mode inode (i_mode st1 inode OR 0x4000) st1
      in case get_block dir_block st2 of
           None \<Rightarrow> Some (-1, st2)
         | Some dir \<Rightarrow>
             mkdir_link parent_inode basename inode_num
               (st2\<lparr>blocks := write_dots dir inode_num parent_inode_num (blocks st2)\<rparr>))"

definition mkdir_alloc :: "nat \<Rightarrow> u32 \<Rightarrow> string \<Rightarrow> abyss \<Rightarrow> (int \<times> abyss) option" where
  "mkdir_alloc parent_inode parent_inode_num basename st =
     (case alloc_inode st of (inode_num, st1) \<Rightarrow>
        if inode_num = 0 then Some (-1, st1)
        else (case get_inode inode_num st1 of
                None \<Rightarrow> Some (-1, st1)
              | Some inode \<Rightarrow>
                  (case alloc_block st1 of (dir_block, st2) \<Rightarrow>
                     if dir_block = 0 then Some (-1, st2)
                     else mkdir_fill parent_inode parent_inode_num basename inode_num inode dir_block st2)))"

definition abyssfs_mkdir :: "string \<Rightarrow> abyss \<Rightarrow> (int \<times> abyss) option" where
  "abyssfs_mkdir path0 st =
     do { path_copy \<leftarrow> into_buf VFS_MAX_PATH path0;
          case last_idx CHR ''/'' path_copy of
            None \<Rightarrow> Some (-1, st)
          | Some k \<Rightarrow>
              let basename = drop (k + 1) path_copy;
                  parent_path = (if k = 0 then ''/'' else take k path_copy)
              in if basename = [] then Some (-1, st)
                 else do { (parent, parent_inode_num) \<leftarrow> mkdir_parent parent_path st;
                           case parent of
                             None \<Rightarrow> Some (-1, st)
                           | Some parent_inode \<Rightarrow> mkdir_alloc parent_inode parent_inode_num basename st } }"

text \<open>
  Recursive removal. The path grows with every level and must fit in 256 bytes, which bounds the depth.
\<close>

function abyssfs_remove_recursive :: "string \<Rightarrow> abyss \<Rightarrow> (int \<times> abyss) option"
  and remove_entries :: "string \<Rightarrow> dirent list \<Rightarrow> abyss \<Rightarrow> abyss option" where
  "abyssfs_remove_recursive path0 st =
     do { r \<leftarrow> abyssfs_read_dir path0 256 st;
          st1 \<leftarrow> (case r of None \<Rightarrow> Some st | Some es \<Rightarrow> remove_entries path0 es st);
          abyssfs_unlink path0 st1 }"
| "remove_entries path0 [] st = Some st"
| "remove_entries path0 (e # es) st =
     (if d_name e = ''.'' \<or> d_name e = ''..'' then remove_entries path0 es st
      else do { full_path \<leftarrow> into_buf VFS_MAX_PATH (path0 @ ''/'' @ d_name e);
                st1 \<leftarrow> (if (case get_inode (ucast (d_inode e)) st of
                             Some inode \<Rightarrow> i_mode st inode AND 0x4000 \<noteq> 0 | None \<Rightarrow> False)
                        then map_option snd (abyssfs_remove_recursive full_path st)
                        else map_option snd (abyssfs_unlink full_path st));
                remove_entries path0 es st1 })"
  by pat_completeness auto
termination
  by (relation "measures [\<lambda>x. case x of Inl (p, s) \<Rightarrow> 256 - length p | Inr (p, es, s) \<Rightarrow> 256 - length p,
        \<lambda>x. case x of Inl (p, s) \<Rightarrow> 1 | Inr (p, es, s) \<Rightarrow> 0, \<lambda>x. case x of Inl (p, s) \<Rightarrow> 0 | Inr (p, es, s) \<Rightarrow> length es]")
     (auto simp: VFS_MAX_PATH_def)

section \<open>Helpers without a caller\<close>

text \<open>The loop of \<open>is_file_in_dir\<close>: what is left of the two paths after their common beginning.\<close>

fun strip_common :: "string \<Rightarrow> string \<Rightarrow> string \<times> string" where
  "strip_common (d # ds) (f # fs) = (if d = f then strip_common ds fs else (d # ds, f # fs))"
| "strip_common ds fs = (ds, fs)"

definition abyss_is_file_in_dir :: "string \<Rightarrow> string \<Rightarrow> bool" where
  "abyss_is_file_in_dir file_path dir_path =
     (case strip_common (skip_slash dir_path) (skip_slash file_path) of
        (d, f) \<Rightarrow> cs_nth d 0 = NUL \<and> (cs_nth f 0 = CHR ''/'' \<or> cs_nth f 0 = NUL))"

definition abyss_get_basename :: "string \<Rightarrow> string" where
  "abyss_get_basename path0 = (case last_idx CHR ''/'' path0 of Some k \<Rightarrow> drop (k + 1) path0 | None \<Rightarrow> path0)"

text \<open>\<open>fresh\<close> is what the heap holds at the address that \<open>kalloc\<close> returns.\<close>

definition allocate_blocks :: "mem \<Rightarrow> abyss \<Rightarrow> kmem \<Rightarrow> int \<times> abyss \<times> kmem" where
  "allocate_blocks fresh st km =
     (if blocks_allocated st then (0, st, km)
      else case kalloc (heap_pos km) (of_nat (BLOCK_SIZE * NUM_BLOCKS)) of
             (None, h) \<Rightarrow> (-1, st, km\<lparr>heap_pos := h\<rparr>)
           | (Some a, h) \<Rightarrow> (0, st\<lparr>blocks := fresh, blocks_allocated := True\<rparr>, km\<lparr>heap_pos := h\<rparr>))"

section \<open>The boot test\<close>

definition test_abyssfs :: "string option \<Rightarrow> abyss \<Rightarrow> abyss option" where
  "test_abyssfs cwd st =
     (case alloc_inode st of (inode_num, st1) \<Rightarrow>
        (case get_inode inode_num st1 of
           None \<Rightarrow> Some st1
         | Some inode \<Rightarrow>
             do { let st2 = set_i_blocks inode 0 (set_i_size inode 0 (set_i_mode inode 0x1FF st1));
                  (r, st3) \<leftarrow> create_file cwd ''hello.txt'' inode_num st2;
                  Some st3 }))"

definition abyssfs_run_test :: "string option \<Rightarrow> abyss \<Rightarrow> abyss option" where
  "abyssfs_run_test cwd st = test_abyssfs cwd st"

end
