(* ===== verification/Path_Norm.thy ===== *)
theory Path_Norm
  imports File_Types String_Props
begin

text \<open>
  \<open>vfs_normalize_path\<close> of \<open>src/src/fs/vfs.c\<close>: the textual removal of \<open>.\<close>, \<open>..\<close> and doubled slashes.

  The written part of the array \<open>temp\<close> is the string \<open>dst\<close>; \<open>None\<close> is a write beyond its 256 bytes, or
  beyond the 256 bytes of the only buffer it is called on. The result is compared with the reduction of
  the list of components (\<open>norm_comps\<close>).
\<close>

section \<open>The code\<close>

text \<open>The inner loop: back to just after the previous slash.\<close>

definition norm_back :: "string \<Rightarrow> string" where
  "norm_back dst = rev (dropWhile (\<lambda>c. c \<noteq> CHR ''/'') (rev dst))"

fun norm_loop :: "string \<Rightarrow> string \<Rightarrow> string option" where
  "norm_loop dst [] = Some dst"
| "norm_loop dst (c # src) =
     (if c = CHR ''/'' \<and> (dst = [] \<or> last dst = CHR ''/'') then norm_loop dst src
      else if c = CHR ''/'' then
        (if length dst < VFS_MAX_PATH then norm_loop (dst @ [c]) src else None)
      else if c = CHR ''.'' \<and> (cs_nth src 0 = CHR ''/'' \<or> cs_nth src 0 = NUL) then norm_loop dst src
      else if c = CHR ''.'' \<and> cs_nth src 0 = CHR ''.'' \<and> (cs_nth src 1 = CHR ''/'' \<or> cs_nth src 1 = NUL)
      then norm_loop (if length dst > 1 then norm_back (butlast dst) else dst) (drop 1 src)
      else if length dst < VFS_MAX_PATH then norm_loop (dst @ [c]) src else None)"

definition vfs_normalize_path :: "string \<Rightarrow> string option" where
  "vfs_normalize_path path0 =
     do { dst \<leftarrow> (case path0 of
                    [] \<Rightarrow> norm_loop [] []
                  | c # src \<Rightarrow> if c = CHR ''/'' then norm_loop [c] src else norm_loop [] path0);
          into_buf VFS_MAX_PATH
            (if dst = [] then ''/'' else if length dst > 1 \<and> last dst = CHR ''/'' then butlast dst else dst) }"

section \<open>The specification\<close>

text \<open>Components from left to right over a stack of the components kept so far.\<close>

definition norm_comp :: "string list \<Rightarrow> string \<Rightarrow> string list" where
  "norm_comp st c =
     (if c = [] \<or> c = ''.'' then st else if c = ''..'' then butlast st else st @ [c])"

definition norm_comps :: "string list \<Rightarrow> string list" where
  "norm_comps cs = foldl norm_comp [] cs"

text \<open>A name the text-based code treats as a name: it must not end in a dot.\<close>

definition plain_name :: "string \<Rightarrow> bool" where
  "plain_name c \<longleftrightarrow> c \<noteq> [] \<and> CHR ''/'' \<notin> set c \<and> NUL \<notin> set c \<and> last c \<noteq> CHR ''.''"

definition path_comp :: "string \<Rightarrow> bool" where
  "path_comp c \<longleftrightarrow> c = [] \<or> c = ''.'' \<or> c = ''..'' \<or> plain_name c"

definition show_comps :: "string list \<Rightarrow> string" where
  "show_comps st = (if st = [] then ''/'' else join_path st)"

section \<open>Equivalence\<close>

lemma join_path_append [simp]: "join_path (as @ bs) = join_path as @ join_path bs"
  by (induction as) simp_all

lemma join_path_start: "join_path cs = [] \<or> hd (join_path cs) = CHR ''/''"
  by (cases cs) simp_all

lemma norm_back_comp: "CHR ''/'' \<notin> set c \<Longrightarrow> norm_back (d @ ''/'' @ c) = d @ ''/''"
proof -
  assume "CHR ''/'' \<notin> set c"
  then have "dropWhile (\<lambda>x. x \<noteq> CHR ''/'') (rev c @ CHR ''/'' # rev d) = CHR ''/'' # rev d"
    by (subst dropWhile_append2) auto
  then show ?thesis by (simp add: norm_back_def)
qed

text \<open>A name is copied, whatever follows it, as long as the array has room.\<close>

lemma norm_loop_name:
  assumes "CHR ''/'' \<notin> set c" "NUL \<notin> set c" "c = [] \<or> last c \<noteq> CHR ''.''" "rest = [] \<or> hd rest = CHR ''/''"
    and "length d + length c \<le> VFS_MAX_PATH"
  shows "norm_loop d (c @ rest) = norm_loop (d @ c) rest"
  using assms
proof (induction c arbitrary: d)
  case (Cons x c)
  have l: "c = [] \<or> last c \<noteq> CHR ''.''" using Cons.prems(3) by auto
  have x: "x \<noteq> CHR ''/''" using Cons.prems(1) by auto
  have n: "\<not> (x = CHR ''.'' \<and> (cs_nth (c @ rest) 0 = CHR ''/'' \<or> cs_nth (c @ rest) 0 = NUL))"
    using Cons.prems by (cases c) (auto simp: cs_nth_def)
  have n2: "\<not> (x = CHR ''.'' \<and> cs_nth (c @ rest) 0 = CHR ''.'' \<and> (cs_nth (c @ rest) 1 = CHR ''/'' \<or> cs_nth (c @ rest) 1 = NUL))"
  proof (cases c)
    case Nil
    with Cons.prems show ?thesis by auto
  next
    case (Cons y c')
    with \<open>NUL \<notin> set (x # c)\<close> \<open>CHR ''/'' \<notin> set (x # c)\<close> l show ?thesis by (cases c') (auto simp: cs_nth_def)
  qed
  have "norm_loop d ((x # c) @ rest) = norm_loop (d @ [x]) (c @ rest)"
    using Cons.prems(5) by (simp only: append_Cons norm_loop.simps(2) x n n2 simp_thms if_False if_True) simp
  also have "\<dots> = norm_loop ((d @ [x]) @ c) rest"
    using Cons.prems l by (intro Cons.IH) auto
  finally show ?case by simp
qed simp

text \<open>One component, read after a slash, takes the written path to the reduced path and a slash.\<close>

lemma norm_loop_comp:
  assumes "path_comp c" "list_all plain_name st" "rest = [] \<or> hd rest = CHR ''/''" "\<not> plain_name c \<or> rest \<noteq> []"
    and "length (join_path st) + 2 + length c \<le> VFS_MAX_PATH"
  shows "norm_loop (join_path st @ ''/'') (c @ rest) = norm_loop (join_path (norm_comp st c) @ ''/'') (drop 1 rest)"
proof -
  have r: "norm_loop (d @ ''/'') rest = norm_loop (d @ ''/'') (drop 1 rest)" for d
    using assms(3) by (cases rest) auto
  consider "c = []" | "c = ''.''" | "c = ''..''" | "plain_name c" "rest \<noteq> []" using assms(1,4) by (auto simp: path_comp_def)
  then show ?thesis
  proof cases
    case 1
    then show ?thesis using r by (simp add: norm_comp_def)
  next
    case 2
    then show ?thesis using r assms(3) by (cases rest) (auto simp: norm_comp_def cs_nth_def)
  next
    case 3
    have "norm_loop (join_path st @ ''/'') (c @ rest)
        = norm_loop (if length (join_path st @ ''/'') > 1 then norm_back (join_path st) else join_path st @ ''/'') rest"
      using 3 assms(3) by (cases rest) (auto simp: cs_nth_def)
    also have "(if length (join_path st @ ''/'') > 1 then norm_back (join_path st) else join_path st @ ''/'')
        = join_path (butlast st) @ ''/''"
    proof (cases st rule: rev_cases)
      case (snoc st' x)
      with assms(2) have "CHR ''/'' \<notin> set x" by (simp add: plain_name_def)
      then show ?thesis using norm_back_comp [of x "join_path st'"] by (simp add: snoc)
    qed simp
    finally show ?thesis using 3 r by (simp add: norm_comp_def)
  next
    case 4
    then obtain rest' where rest: "rest = CHR ''/'' # rest'" using assms(3) by (cases rest) auto
    have lc: "last c \<noteq> CHR ''/''" "c \<noteq> []" using 4 last_in_set [of c] by (metis plain_name_def)+
    have "norm_loop (join_path st @ ''/'') (c @ rest) = norm_loop (join_path st @ ''/'' @ c) rest"
      using 4 assms(3,5) norm_loop_name [of c rest "join_path st @ ''/''"] by (simp add: plain_name_def)
    also have "\<dots> = norm_loop (join_path st @ ''/'' @ c @ ''/'') rest'"
      using lc assms(5) by (simp add: rest)
    moreover have "c \<noteq> ''.''" "c \<noteq> ''..''" "c \<noteq> []" using 4 by (auto simp: plain_name_def)
    ultimately show ?thesis by (simp add: norm_comp_def rest)
  qed
qed

lemma norm_comp_facts:
  assumes "path_comp c" "list_all plain_name st"
  shows "list_all plain_name (norm_comp st c)" "length (join_path (norm_comp st c)) \<le> length (join_path st) + 1 + length c"
proof -
  have b: "length (join_path (butlast st)) \<le> length (join_path st)" "list_all plain_name (butlast st)"
    using assms(2) by (cases st rule: rev_cases; simp)+
  show "list_all plain_name (norm_comp st c)" using assms b(2) by (auto simp: norm_comp_def path_comp_def)
  show "length (join_path (norm_comp st c)) \<le> length (join_path st) + 1 + length c"
    using b(1) by (auto simp: norm_comp_def)
qed

lemma norm_loop_comps:
  assumes "list_all path_comp cs" "list_all plain_name st" "length (join_path st) + length (join_path cs) < VFS_MAX_PATH"
  defines "st' \<equiv> foldl norm_comp st cs"
  shows "list_all plain_name st' \<and> length (join_path st') < VFS_MAX_PATH
    \<and> (norm_loop (join_path st @ ''/'') (drop 1 (join_path cs)) = Some (join_path st' @ ''/'')
       \<or> st' \<noteq> [] \<and> norm_loop (join_path st @ ''/'') (drop 1 (join_path cs)) = Some (join_path st'))"
  using assms(1-3) unfolding st'_def
proof (induction cs arbitrary: st)
  case (Cons c cs)
  note f = norm_comp_facts [of c st]
  show ?case
  proof (cases "plain_name c \<and> cs = []")
    case True
    then have "norm_loop (join_path st @ ''/'') c = Some (join_path (st @ [c]))"
      using norm_loop_name [of c "[]" "join_path st @ ''/''"] Cons.prems(3) by (simp add: plain_name_def)
    with True Cons.prems show ?thesis by (auto simp: norm_comp_def plain_name_def)
  next
    case False
    then have "norm_loop (join_path st @ ''/'') (drop 1 (join_path (c # cs)))
        = norm_loop (join_path (norm_comp st c) @ ''/'') (drop 1 (join_path cs))"
      using norm_loop_comp [of c st "join_path cs"] Cons.prems join_path_start [of cs] by (cases cs) auto
    moreover have "length (join_path (norm_comp st c)) + length (join_path cs) < VFS_MAX_PATH"
      using f(2) Cons.prems by simp
    ultimately show ?thesis using Cons.IH [of "norm_comp st c"] f(1) Cons.prems by simp
  qed
qed simp

lemma join_path_last: "list_all plain_name st \<Longrightarrow> st \<noteq> [] \<Longrightarrow> last (join_path st) \<noteq> CHR ''/'' \<and> length (join_path st) > 1"
  by (cases st rule: rev_cases) (auto simp: plain_name_def dest: last_in_set)

lemma normalize_comps:
  assumes "cs \<noteq> []" "list_all path_comp cs" "length (join_path cs) < VFS_MAX_PATH"
  shows "vfs_normalize_path (join_path cs) = Some (show_comps (norm_comps cs))"
proof -
  let ?st = "norm_comps cs"
  have p: "vfs_normalize_path (join_path cs) = Option.bind (norm_loop ''/'' (drop 1 (join_path cs)))
      (\<lambda>dst. into_buf VFS_MAX_PATH
        (if dst = [] then ''/'' else if length dst > 1 \<and> last dst = CHR ''/'' then butlast dst else dst))"
    using assms(1) by (cases cs) (auto simp: vfs_normalize_path_def)
  have c: "list_all plain_name ?st" "length (join_path ?st) < VFS_MAX_PATH"
    "norm_loop ''/'' (drop 1 (join_path cs)) = Some (join_path ?st @ ''/'')
      \<or> ?st \<noteq> [] \<and> norm_loop ''/'' (drop 1 (join_path cs)) = Some (join_path ?st)"
    using norm_loop_comps [of cs "[]"] assms by (simp_all add: norm_comps_def)
  show ?thesis
  proof (cases "?st = []")
    case True
    with c(3) p show ?thesis by (simp add: show_comps_def VFS_MAX_PATH_def)
  next
    case False
    with join_path_last [OF c(1)] have "last (join_path ?st) \<noteq> CHR ''/''" "length (join_path ?st) > 1" "join_path ?st \<noteq> []" by auto
    note l = this
    from c(3) have "vfs_normalize_path (join_path cs) = into_buf VFS_MAX_PATH (join_path ?st)"
      unfolding p by (elim disjE conjE) (simp_all only: bind.bind_lunit, simp_all add: l)
    then show ?thesis using c(2) False by (simp add: show_comps_def)
  qed
qed

lemma norm_comps_plain: "list_all plain_name st \<Longrightarrow> norm_comps st = st"
proof (induction st rule: rev_induct)
  case (snoc c st)
  then show ?case by (auto simp: norm_comps_def norm_comp_def plain_name_def)
qed (simp add: norm_comps_def)

lemma plain_path_comps: "list_all plain_name st \<Longrightarrow> list_all path_comp st"
  by (auto simp: list_all_iff path_comp_def)

lemma normalize_normal:
  assumes "list_all plain_name st" "length (join_path st) < VFS_MAX_PATH"
  shows "vfs_normalize_path (show_comps st) = Some (show_comps st)"
proof (cases "st = []")
  case True
  then show ?thesis by (simp add: show_comps_def vfs_normalize_path_def VFS_MAX_PATH_def)
next
  case False
  then show ?thesis
    using normalize_comps [OF False plain_path_comps [OF assms(1)] assms(2)] norm_comps_plain [OF assms(1)]
    by (simp add: show_comps_def)
qed

text \<open>C19: on an absolute path \<open>vfs_normalize_path\<close> is the reduction of its components: empty components and \<open>.\<close> vanish,
  \<open>..\<close> removes the component before it and stays at the root, names are kept. The names must not end in a dot. Normalising the
  result again changes nothing.\<close>

theorem normalize_reduces_components:
  assumes "cs \<noteq> []" "list_all path_comp cs" "length (join_path cs) < VFS_MAX_PATH"
  shows "vfs_normalize_path (join_path cs) = Some (show_comps (norm_comps cs))
    \<and> vfs_normalize_path (show_comps (norm_comps cs)) = Some (show_comps (norm_comps cs))"
  using normalize_comps [OF assms] normalize_normal [of "norm_comps cs"] norm_loop_comps [of cs "[]"] assms
  by (simp add: norm_comps_def)

theorem normalize_reduces_components_witness:
  "vfs_normalize_path ''/usr//lib/../bin/.'' = Some ''/usr/bin''"
  using normalize_reduces_components [of "[''usr'', [], ''lib'', ''..'', ''bin'', ''.'']"]
  by (simp add: path_comp_def plain_name_def VFS_MAX_PATH_def norm_comps_def norm_comp_def show_comps_def)

text \<open>The text-based tests for \<open>.\<close> and \<open>..\<close> are not anchored at the start of a component.\<close>

lemma normalize_damages_names:
  "vfs_normalize_path ''/a./b'' = Some ''/a/b''" "vfs_normalize_path ''/notes../b'' = Some ''/b''"
  by (simp_all add: vfs_normalize_path_def VFS_MAX_PATH_def norm_back_def)

end
