(* ===== verification/Vfs.thy ===== *)
theory Vfs
  imports Process Ramfs Abyssfs Path_Norm
begin

text \<open>
  The virtual file system \<open>src/src/fs/vfs.c\<close> and the per-process name spaces \<open>src/src/kernel/namespace.c\<close>.

  The record \<open>kernel\<close> collects the statics these files read and write: the process table, the kernel heap,
  the two disks, the registered file systems, the mount table and the descriptor table. A table that is
  filled from the front is a list; the fields \<open>fs->open\<close>, \<open>fs->create\<close>, ... of \<open>struct filesystem_type\<close> and
  \<open>f_ops->read\<close>, \<open>f_ops->write\<close> are the functions \<open>fs_open\<close>, \<open>fs_create\<close>, ... that select on \<open>fs_kind\<close>, with the
  null entries of the two tables as \<open>None\<close>. Console output is left out.
\<close>

section \<open>State\<close>

record mount_pt =
  mp_path :: string
  mp_fs :: fs_kind
  mp_sb :: vfs_super_block

record kernel =
  pt :: ptable
  km :: kmem
  ram :: ramfs
  disk :: abyss
  registered_fs :: "fs_kind list"
  mount_points :: "mount_pt list"
  fd_table :: "u64 option list"
  next_fd :: nat

definition MAX_FS :: nat where
  "MAX_FS = 4"

definition MAX_MOUNTS :: nat where
  "MAX_MOUNTS = 16"

definition MAX_FD :: nat where
  "MAX_FD = 32"

text \<open>The statics before any function has run; \<open>h\<close> is the bump pointer of the heap.\<close>

definition kernel0 :: "u64 \<Rightarrow> kernel" where
  "kernel0 h = \<lparr>pt = ptable0, km = \<lparr>heap_pos = h, fobjs = (\<lambda>_. zero_file)\<rparr>, ram = replicate MAX_FILES zero_ramfs_file,
     disk = abyss0, registered_fs = [], mount_points = [], fd_table = replicate MAX_FD None, next_fd = 0\<rparr>"

definition cur_proc :: "kernel \<Rightarrow> process option" where
  "cur_proc k = map_option (procs (pt k)) (current_process (pt k))"

text \<open>A conversion of a \<open>ssize_t\<close> to \<open>int\<close>.\<close>

definition c_int :: "int \<Rightarrow> int" where
  "c_int n = signed_take_bit 31 n"

section \<open>The operation tables\<close>

text \<open>
  \<open>struct filesystem_type\<close> and \<open>struct vfs_file_operations\<close> as records of functions on the kernel state, and the tables of the two file systems. An
  entry that is \<open>NULL\<close> in one of them is an option; \<open>open\<close> and \<open>close\<close> of the file operations are \<open>NULL\<close> in both and are left out.
\<close>

record filesystem_type =
  ft_name :: string
  ft_mount :: "kernel \<Rightarrow> vfs_super_block option \<times> kernel"
  ft_open :: "string \<Rightarrow> kernel \<Rightarrow> u64 option \<times> kernel"
  ft_create :: "string \<Rightarrow> kernel \<Rightarrow> (u64 option \<times> kernel) option"
  ft_read_dir :: "string \<Rightarrow> nat \<Rightarrow> kernel \<Rightarrow> dirent list option option"
  ft_unlink :: "string \<Rightarrow> kernel \<Rightarrow> (int \<times> kernel) option"
  ft_mkdir :: "string \<Rightarrow> kernel \<Rightarrow> (int \<times> kernel) option"
  ft_remove_recursive :: "(string \<Rightarrow> kernel \<Rightarrow> (int \<times> kernel) option) option"

text \<open>The first argument is the address of the file object, which the functions may change.\<close>

record vfs_file_operations =
  fo_read :: "u64 \<Rightarrow> u64 \<Rightarrow> kernel \<Rightarrow> (int \<times> byte list \<times> kernel) option"
  fo_write :: "u64 \<Rightarrow> byte list \<Rightarrow> u64 \<Rightarrow> kernel \<Rightarrow> (int \<times> kernel) option"

definition set_fobj :: "u64 \<Rightarrow> vfs_file \<Rightarrow> kernel \<Rightarrow> kernel" where
  "set_fobj a f k = k\<lparr>km := (km k)\<lparr>fobjs := (fobjs (km k))(a := f)\<rparr>\<rparr>"

definition ramfs_fops :: vfs_file_operations where
  "ramfs_fops =
     \<lparr>fo_read = (\<lambda>a count k. do { (n, bs, f) \<leftarrow> ramfs_read (fobjs (km k) a) count (ram k); Some (n, bs, set_fobj a f k) }),
      fo_write = (\<lambda>a buf count k. do { (n, f, r) \<leftarrow> ramfs_write (fobjs (km k) a) buf count (ram k); Some (n, (set_fobj a f k)\<lparr>ram := r\<rparr>) })\<rparr>"

definition abyssfs_fops :: vfs_file_operations where
  "abyssfs_fops =
     \<lparr>fo_read = (\<lambda>a count k. do { (n, bs, f) \<leftarrow> abyssfs_read (fobjs (km k) a) count (disk k); Some (n, bs, set_fobj a f k) }),
      fo_write = (\<lambda>a buf count k. do { (n, f, d) \<leftarrow> abyssfs_write (fobjs (km k) a) buf count (disk k); Some (n, (set_fobj a f k)\<lparr>disk := d\<rparr>) })\<rparr>"

definition ramfs_fs_type :: filesystem_type where
  "ramfs_fs_type =
     \<lparr>ft_name = ''ramfs'',
      ft_mount = (\<lambda>k. case ramfs_mount (km k) of (v, m) \<Rightarrow> (v, k\<lparr>km := m\<rparr>)),
      ft_open = (\<lambda>path0 k. case ramfs_open path0 (ram k) (km k) of (a, m) \<Rightarrow> (a, k\<lparr>km := m\<rparr>)),
      ft_create = (\<lambda>path0 k. do { (a, r, m) \<leftarrow> ramfs_create path0 (ram k) (km k); Some (a, k\<lparr>ram := r, km := m\<rparr>) }),
      ft_read_dir = (\<lambda>path0 max_entries k. Some (Some (ramfs_read_dir path0 max_entries (ram k)))),
      ft_unlink = (\<lambda>path0 k. case ramfs_unlink path0 (ram k) of (r, f) \<Rightarrow> Some (r, k\<lparr>ram := f\<rparr>)),
      ft_mkdir = (\<lambda>path0 k. do { (r, f) \<leftarrow> ramfs_mkdir path0 (ram k); Some (r, k\<lparr>ram := f\<rparr>) }),
      ft_remove_recursive = None\<rparr>"

definition abyssfs_fs_type :: filesystem_type where
  "abyssfs_fs_type =
     \<lparr>ft_name = ''abyssfs'',
      ft_mount = (\<lambda>k. case abyssfs_mount (disk k) (km k) of (v, d, m) \<Rightarrow> (v, k\<lparr>disk := d, km := m\<rparr>)),
      ft_open = (\<lambda>path0 k. case abyssfs_open path0 (km k) of (a, m) \<Rightarrow> (a, k\<lparr>km := m\<rparr>)),
      ft_create = (\<lambda>path0 k. do { (a, d, m) \<leftarrow> abyssfs_create (map_option cwd (cur_proc k)) path0 (disk k) (km k);
                                 Some (a, k\<lparr>disk := d, km := m\<rparr>) }),
      ft_read_dir = (\<lambda>path0 max_entries k. abyssfs_read_dir path0 max_entries (disk k)),
      ft_unlink = (\<lambda>path0 k. do { (r, d) \<leftarrow> abyssfs_unlink path0 (disk k); Some (r, k\<lparr>disk := d\<rparr>) }),
      ft_mkdir = (\<lambda>path0 k. do { (r, d) \<leftarrow> abyssfs_mkdir path0 (disk k); Some (r, k\<lparr>disk := d\<rparr>) }),
      ft_remove_recursive = Some (\<lambda>path0 k. do { (r, d) \<leftarrow> abyssfs_remove_recursive path0 (disk k); Some (r, k\<lparr>disk := d\<rparr>) })\<rparr>"

text \<open>A pointer to one of the tables.\<close>

definition fs_table :: "fs_kind \<Rightarrow> filesystem_type" where
  "fs_table fs = (case fs of RamFs \<Rightarrow> ramfs_fs_type | AbyssFs \<Rightarrow> abyssfs_fs_type)"

definition fops_table :: "fs_kind \<Rightarrow> vfs_file_operations" where
  "fops_table fs = (case fs of RamFs \<Rightarrow> ramfs_fops | AbyssFs \<Rightarrow> abyssfs_fops)"

definition abyssfs_get_fs_type :: fs_kind where
  "abyssfs_get_fs_type = AbyssFs"

definition fs_mount :: "fs_kind \<Rightarrow> kernel \<Rightarrow> vfs_super_block option \<times> kernel" where
  "fs_mount fs = ft_mount (fs_table fs)"

definition fs_open :: "fs_kind \<Rightarrow> string \<Rightarrow> kernel \<Rightarrow> u64 option \<times> kernel" where
  "fs_open fs = ft_open (fs_table fs)"

definition fs_create :: "fs_kind \<Rightarrow> string \<Rightarrow> kernel \<Rightarrow> (u64 option \<times> kernel) option" where
  "fs_create fs = ft_create (fs_table fs)"

definition fs_read_dir :: "fs_kind \<Rightarrow> string \<Rightarrow> nat \<Rightarrow> kernel \<Rightarrow> dirent list option option" where
  "fs_read_dir fs = ft_read_dir (fs_table fs)"

definition fs_unlink :: "fs_kind \<Rightarrow> string \<Rightarrow> kernel \<Rightarrow> (int \<times> kernel) option" where
  "fs_unlink fs = ft_unlink (fs_table fs)"

definition fs_mkdir :: "fs_kind \<Rightarrow> string \<Rightarrow> kernel \<Rightarrow> (int \<times> kernel) option" where
  "fs_mkdir fs = ft_mkdir (fs_table fs)"

definition fs_remove_recursive :: "fs_kind \<Rightarrow> (string \<Rightarrow> kernel \<Rightarrow> (int \<times> kernel) option) option" where
  "fs_remove_recursive fs = ft_remove_recursive (fs_table fs)"

text \<open>\<open>file->f_ops->read(file, buf, count)\<close> and \<open>write\<close> on the file object at heap address \<open>a\<close>.\<close>

definition fop_read :: "fs_kind \<Rightarrow> u64 \<Rightarrow> u64 \<Rightarrow> kernel \<Rightarrow> (int \<times> byte list \<times> kernel) option" where
  "fop_read fs = fo_read (fops_table fs)"

definition fop_write :: "fs_kind \<Rightarrow> u64 \<Rightarrow> byte list \<Rightarrow> u64 \<Rightarrow> kernel \<Rightarrow> (int \<times> kernel) option" where
  "fop_write fs = fo_write (fops_table fs)"

section \<open>Mounts\<close>

definition register_filesystem :: "fs_kind \<Rightarrow> kernel \<Rightarrow> int \<times> kernel" where
  "register_filesystem fs k =
     (if length (registered_fs k) \<ge> MAX_FS then (-1, k) else (0, k\<lparr>registered_fs := registered_fs k @ [fs]\<rparr>))"

definition vfs_mount :: "string \<Rightarrow> fs_kind \<Rightarrow> kernel \<Rightarrow> int \<times> kernel" where
  "vfs_mount path0 fs k =
     (if length (mount_points k) \<ge> MAX_MOUNTS then (-1, k)
      else case fs_mount fs k of
             (None, k1) \<Rightarrow> (-1, k1)
           | (Some v, k1) \<Rightarrow>
               (0, k1\<lparr>mount_points := mount_points k1 @ [\<lparr>mp_path = path0, mp_fs = fs, mp_sb = v\<rparr>]\<rparr>))"

text \<open>The loop of \<open>find_mount\<close> with the best mount so far and the length of its path.\<close>

fun mount_scan :: "string \<Rightarrow> nat \<Rightarrow> mount_pt option \<Rightarrow> mount_pt list \<Rightarrow> mount_pt option" where
  "mount_scan path0 best_len best [] = best"
| "mount_scan path0 best_len best (m # ms) =
     (let mount_len = length (mp_path m) in
      if take mount_len path0 = mp_path m \<and> mount_len > best_len then mount_scan path0 mount_len (Some m) ms
      else mount_scan path0 best_len best ms)"

definition find_mount :: "string \<Rightarrow> kernel \<Rightarrow> mount_pt option" where
  "find_mount path0 k =
     (if path0 = [] \<or> path0 = ''/''
      then (case mount_points k of m # _ \<Rightarrow> Some m | [] \<Rightarrow> None)
      else mount_scan path0 0 None (mount_points k))"

section \<open>Descriptors\<close>

definition alloc_fd :: "u64 \<Rightarrow> kernel \<Rightarrow> int \<times> kernel" where
  "alloc_fd file k =
     (if next_fd k \<ge> MAX_FD then (-1, k)
      else (int (next_fd k), k\<lparr>fd_table := (fd_table k)[next_fd k := Some file], next_fd := next_fd k + 1\<rparr>))"

definition get_file :: "int \<Rightarrow> kernel \<Rightarrow> u64 option" where
  "get_file fd0 k = (if fd0 < 0 \<or> fd0 \<ge> int MAX_FD then None else fd_table k ! nat fd0)"

definition vfs_read :: "int \<Rightarrow> u64 \<Rightarrow> kernel \<Rightarrow> (int \<times> byte list \<times> kernel) option" where
  "vfs_read fd0 count k =
     (case (if fd0 < 0 \<or> fd0 \<ge> int MAX_FD then None else fd_table k ! nat fd0) of
        None \<Rightarrow> Some (-1, [], k)
      | Some a \<Rightarrow>
          (case f_ops (fobjs (km k) a) of
             None \<Rightarrow> Some (-1, [], k)
           | Some fs \<Rightarrow> fop_read fs a count k))"

definition vfs_write :: "int \<Rightarrow> byte list \<Rightarrow> u64 \<Rightarrow> kernel \<Rightarrow> (int \<times> kernel) option" where
  "vfs_write fd0 buf count k =
     (case get_file fd0 k of
        None \<Rightarrow> Some (-1, k)
      | Some a \<Rightarrow>
          (case f_ops (fobjs (km k) a) of
             None \<Rightarrow> Some (-1, k)
           | Some fs \<Rightarrow> do { (n, k1) \<leftarrow> fop_write fs a buf count k; Some (c_int n, k1) }))"

text \<open>Neither table has a \<open>close\<close> operation, and \<open>kfree\<close> does nothing.\<close>

definition vfs_close :: "int \<Rightarrow> kernel \<Rightarrow> int \<times> kernel" where
  "vfs_close fd0 k =
     (if fd0 < 0 \<or> fd0 \<ge> int MAX_FD \<or> fd_table k ! nat fd0 = None then (-1, k)
      else (0, k\<lparr>fd_table := (fd_table k)[nat fd0 := None]\<rparr>))"

section \<open>Name spaces\<close>

text \<open>
  The first binding whose new path is a prefix of the path. The result of \<open>resolved[strlen(resolved) - 1]\<close> for an
  empty old path is outside the block.
\<close>

fun ns_resolve :: "string \<Rightarrow> ns_entry list \<Rightarrow> kmem \<Rightarrow> (string \<times> kmem) option" where
  "ns_resolve path0 [] m = Some (path0, m)"
| "ns_resolve path0 (e # es) m =
     (let new_len = length (new_path e) in
      if take new_len path0 = new_path e
      then (case kalloc (heap_pos m) (of_nat VFS_MAX_PATH) of
              (None, h) \<Rightarrow> Some (path0, m\<lparr>heap_pos := h\<rparr>)
            | (Some a, h) \<Rightarrow>
                let rest = drop new_len path0 in
                if rest \<noteq> [] \<and> hd rest \<noteq> CHR ''/'' \<and> old_path e = [] then None
                else do { r \<leftarrow> into_buf VFS_MAX_PATH
                             (old_path e @ (if rest \<noteq> [] \<and> hd rest \<noteq> CHR ''/'' \<and> last (old_path e) \<noteq> CHR ''/'' then ''/'' else []) @ rest);
                          Some (r, m\<lparr>heap_pos := h\<rparr>) })
      else ns_resolve path0 es m)"

definition resolve_namespace_path :: "string \<Rightarrow> kernel \<Rightarrow> (string \<times> kernel) option" where
  "resolve_namespace_path path0 k =
     (case cur_proc k of
        None \<Rightarrow> Some (path0, k)
      | Some p \<Rightarrow> do { (r, m) \<leftarrow> ns_resolve path0 (ns p) (km k); Some (r, k\<lparr>km := m\<rparr>) })"

definition resolve_path :: "string \<Rightarrow> kernel \<Rightarrow> string option" where
  "resolve_path path0 k =
     do { p \<leftarrow> cur_proc k;
          into_buf VFS_MAX_PATH
            (case find (\<lambda>e. take (length (old_path e)) path0 = old_path e) (ns p) of
               Some e \<Rightarrow> new_path e @ drop (length (old_path e)) path0
             | None \<Rightarrow> path0) }"

section \<open>Operations on paths\<close>

text \<open>The entries, \<open>None\<close> inside for the return value -1.\<close>

definition vfs_read_dir :: "string \<Rightarrow> nat \<Rightarrow> kernel \<Rightarrow> (dirent list option \<times> kernel) option" where
  "vfs_read_dir path0 max_entries k =
     do { (resolved_path, k1) \<leftarrow> resolve_namespace_path path0 k;
          case find_mount resolved_path k1 of
            None \<Rightarrow> Some (None, k1)
          | Some mp \<Rightarrow> do { r \<leftarrow> fs_read_dir (mp_fs mp) resolved_path max_entries k1; Some (r, k1) } }"

definition vfs_open :: "string \<Rightarrow> kernel \<Rightarrow> (int \<times> kernel) option" where
  "vfs_open path0 k =
     do { resolved_path \<leftarrow> resolve_path path0 k;
          let fs = (if take 5 resolved_path = ''/tmp/'' then RamFs else AbyssFs);
          case fs_open fs resolved_path k of
            (None, k1) \<Rightarrow> Some (-1, k1)
          | (Some file, k1) \<Rightarrow> Some (alloc_fd file k1) }"

definition get_fs_file :: "string \<Rightarrow> kernel \<Rightarrow> u64 option \<times> kernel" where
  "get_fs_file path0 k = fs_open (if take 5 path0 = ''/tmp/'' then RamFs else AbyssFs) path0 k"

text \<open>
  \<open>full_path\<close>, built in the same way by the four functions below. An empty working directory makes the code
  read \<open>full_path[-1]\<close>.
\<close>

definition make_full_path :: "string \<Rightarrow> kernel \<Rightarrow> string option" where
  "make_full_path path0 k =
     (if cs_nth path0 0 \<noteq> CHR ''/''
      then do { p \<leftarrow> cur_proc k;
                if cwd p = [] then None
                else into_buf VFS_MAX_PATH ((if last (cwd p) \<noteq> CHR ''/'' then cwd p @ ''/'' else cwd p) @ path0) }
      else into_buf VFS_MAX_PATH path0)"

definition vfs_create :: "string \<Rightarrow> kernel \<Rightarrow> (int \<times> kernel) option" where
  "vfs_create path0 k =
     do { full_path \<leftarrow> make_full_path path0 k;
          if take 5 full_path = ''/tmp/'' \<or> full_path = ''/tmp''
          then do { (file, k1) \<leftarrow> fs_create RamFs full_path k;
                    case file of None \<Rightarrow> Some (-1, k1) | Some f \<Rightarrow> Some (alloc_fd f k1) }
          else (case find_mount full_path k of
                  None \<Rightarrow> Some (-1, k)
                | Some mp \<Rightarrow>
                    do { (file, k1) \<leftarrow> fs_create (mp_fs mp) full_path k;
                         case file of None \<Rightarrow> Some (-1, k1) | Some f \<Rightarrow> Some (alloc_fd f k1) }) }"

text \<open>The file system is chosen by the full path but is given \<open>path\<close>.\<close>

definition vfs_unlink :: "string \<Rightarrow> kernel \<Rightarrow> (int \<times> kernel) option" where
  "vfs_unlink path0 k =
     do { full_path \<leftarrow> make_full_path path0 k;
          case find_mount full_path k of
            None \<Rightarrow> Some (-1, k)
          | Some mp \<Rightarrow> fs_unlink (mp_fs mp) path0 k }"

definition vfs_mkdir :: "string \<Rightarrow> kernel \<Rightarrow> (int \<times> kernel) option" where
  "vfs_mkdir path0 k =
     do { full_path \<leftarrow> make_full_path path0 k;
          case find_mount full_path k of
            None \<Rightarrow> Some (-1, k)
          | Some mp \<Rightarrow> fs_mkdir (mp_fs mp) full_path k }"

definition vfs_remove_recursive :: "string option \<Rightarrow> kernel \<Rightarrow> (int \<times> kernel) option" where
  "vfs_remove_recursive path0 k =
     (case path0 of
        None \<Rightarrow> Some (-1, k)
      | Some p \<Rightarrow>
          do { full_path \<leftarrow> make_full_path p k;
               case Option.bind (find_mount full_path k) (\<lambda>mp. fs_remove_recursive (mp_fs mp)) of
                 None \<Rightarrow> Some (-1, k)
               | Some remove \<Rightarrow> remove full_path k })"

text \<open>
  The entries the handler copies to \<open>msg->data\<close> are returned beside the message; \<open>None\<close> as a whole when
  the caller's buffer is shorter than \<open>msg->size\<close> says and the copy leaves it.
\<close>

definition handle_read_dir_message :: "Message \<Rightarrow> kernel \<Rightarrow> (int \<times> dirent list \<times> Message \<times> kernel) option" where
  "handle_read_dir_message msg k =
     (case path msg of
        None \<Rightarrow> Some (-1, [], msg, k)
      | Some p \<Rightarrow>
          do { (r, k1) \<leftarrow> vfs_read_dir p 32 k;
               case r of
                 None \<Rightarrow> Some (-1, [], msg, k1)
               | Some dirents \<Rightarrow>
                   (case data msg of
                      Some buf \<Rightarrow>
                        if msg_size msg \<ge> of_nat (length dirents) * sizeof_dirent
                        then if length buf < length dirents * unat sizeof_dirent then None
                             else Some (int (length dirents), dirents, msg\<lparr>dirent_count := of_nat (length dirents)\<rparr>, k1)
                        else Some (int (length dirents), [], msg\<lparr>dirent_count := 0\<rparr>, k1)
                    | None \<Rightarrow> Some (int (length dirents), [], msg\<lparr>dirent_count := 0\<rparr>, k1)) })"

definition vfs_init :: "kernel \<Rightarrow> kernel option" where
  "vfs_init k =
     (case abyssfs_init (disk k) (km k) of (d, m) \<Rightarrow>
        do { let k1 = k\<lparr>disk := d, km := m, ram := ramfs_init (ram k)\<rparr>;
             let k2 = snd (vfs_mount ''/'' AbyssFs k1);
             let k3 = snd (vfs_mount ''/tmp'' RamFs k2);
             d' \<leftarrow> test_abyssfs (map_option cwd (cur_proc k3)) (disk k3);
             Some (k3\<lparr>disk := d'\<rparr>) })"

section \<open>bind and unbind\<close>

text \<open>The flags of a binding, which no code looks at.\<close>

definition MAFTER :: int where "MAFTER = 1"
definition MBEFORE :: int where "MBEFORE = 2"
definition MCREATE :: int where "MCREATE = 4"
definition MCACHE :: int where "MCACHE = 8"
definition MREPL :: int where "MREPL = 16"

text \<open>\<open>sizeof(struct namespace)\<close> on AArch64.\<close>

definition sizeof_namespace :: u64 where
  "sizeof_namespace = 32"

definition create_namespace :: "string \<Rightarrow> string \<Rightarrow> int \<Rightarrow> kmem \<Rightarrow> ns_entry option \<times> kmem" where
  "create_namespace old new flags0 m =
     (case kalloc (heap_pos m) sizeof_namespace of
        (None, h) \<Rightarrow> (None, m\<lparr>heap_pos := h\<rparr>)
      | (Some _, h) \<Rightarrow>
          (case kalloc h (of_nat (length old) + 1) of (a, h1) \<Rightarrow>
             (case kalloc h1 (of_nat (length new) + 1) of (b, h2) \<Rightarrow>
                if a = None \<or> b = None then (None, m\<lparr>heap_pos := h2\<rparr>)
                else (Some \<lparr>old_path = old, new_path = new, ns_flags = flags0\<rparr>, m\<lparr>heap_pos := h2\<rparr>))))"

definition init_process_namespace :: "process \<Rightarrow> process" where
  "init_process_namespace p = p\<lparr>ns := []\<rparr>"

text \<open>\<open>current_process->...\<close> updated by \<open>f\<close>, when there is a current process.\<close>

definition upd_cur :: "(process \<Rightarrow> process) \<Rightarrow> kernel \<Rightarrow> kernel" where
  "upd_cur f k = (case current_process (pt k) of None \<Rightarrow> k | Some c \<Rightarrow> k\<lparr>pt := pupd c f (pt k)\<rparr>)"

definition bind_ns :: "string \<Rightarrow> string \<Rightarrow> int \<Rightarrow> kernel \<Rightarrow> (int \<times> kernel) option" where
  "bind_ns old new flags0 k =
     do { (r1, k1) \<leftarrow> vfs_read_dir old 1 k;
          if r1 = None then Some (-1, k1)
          else do { (r2, k2) \<leftarrow> vfs_read_dir new 1 k1;
                    if r2 = None then Some (-1, k2)
                    else (case create_namespace old new flags0 (km k2) of
                            (None, m) \<Rightarrow> Some (-1, k2\<lparr>km := m\<rparr>)
                          | (Some e, m) \<Rightarrow> Some (0, upd_cur (\<lambda>p. p\<lparr>ns := e # ns p\<rparr>) (k2\<lparr>km := m\<rparr>))) } }"

definition mount_ns :: "string \<Rightarrow> string \<Rightarrow> int \<Rightarrow> string \<Rightarrow> kernel \<Rightarrow> int \<times> kernel" where
  "mount_ns srv old flags0 spec k = (0, k)"

text \<open>The list without the first binding of the path, \<open>None\<close> when there is none.\<close>

fun ns_unlink :: "string \<Rightarrow> ns_entry list \<Rightarrow> ns_entry list option" where
  "ns_unlink path0 [] = None"
| "ns_unlink path0 (e # es) = (if new_path e = path0 then Some es else map_option ((#) e) (ns_unlink path0 es))"

definition unbind :: "string \<Rightarrow> kernel \<Rightarrow> int \<times> kernel" where
  "unbind path0 k =
     (case cur_proc k of
        None \<Rightarrow> (-1, k)
      | Some p \<Rightarrow>
          (case ns_unlink path0 (ns p) of
             None \<Rightarrow> (-1, k)
           | Some es \<Rightarrow> (0, upd_cur (\<lambda>q. q\<lparr>ns := es\<rparr>) k)))"

section \<open>The calls through the tables, file system by file system\<close>

lemma fs_mount_eq:
  "fs_mount fs k =
     (case fs of
        RamFs \<Rightarrow> (case ramfs_mount (km k) of (v, m) \<Rightarrow> (v, k\<lparr>km := m\<rparr>))
      | AbyssFs \<Rightarrow> (case abyssfs_mount (disk k) (km k) of (v, d, m) \<Rightarrow> (v, k\<lparr>disk := d, km := m\<rparr>)))"
  by (cases fs) (simp_all add: fs_mount_def fs_table_def ramfs_fs_type_def abyssfs_fs_type_def)

lemma fs_open_eq:
  "fs_open fs path0 k =
     (case (case fs of RamFs \<Rightarrow> ramfs_open path0 (ram k) (km k) | AbyssFs \<Rightarrow> abyssfs_open path0 (km k)) of
        (a, m) \<Rightarrow> (a, k\<lparr>km := m\<rparr>))"
  by (cases fs) (simp_all add: fs_open_def fs_table_def ramfs_fs_type_def abyssfs_fs_type_def)

lemma fs_create_eq:
  "fs_create fs path0 k =
     (case fs of
        RamFs \<Rightarrow> do { (a, r, m) \<leftarrow> ramfs_create path0 (ram k) (km k); Some (a, k\<lparr>ram := r, km := m\<rparr>) }
      | AbyssFs \<Rightarrow> do { (a, d, m) \<leftarrow> abyssfs_create (map_option cwd (cur_proc k)) path0 (disk k) (km k);
                       Some (a, k\<lparr>disk := d, km := m\<rparr>) })"
  by (cases fs) (simp_all add: fs_create_def fs_table_def ramfs_fs_type_def abyssfs_fs_type_def)

lemma fs_read_dir_eq:
  "fs_read_dir fs path0 max_entries k =
     (case fs of RamFs \<Rightarrow> Some (Some (ramfs_read_dir path0 max_entries (ram k)))
               | AbyssFs \<Rightarrow> abyssfs_read_dir path0 max_entries (disk k))"
  by (cases fs) (simp_all add: fs_read_dir_def fs_table_def ramfs_fs_type_def abyssfs_fs_type_def)

lemma fs_unlink_eq:
  "fs_unlink fs path0 k =
     (case fs of
        RamFs \<Rightarrow> (case ramfs_unlink path0 (ram k) of (r, f) \<Rightarrow> Some (r, k\<lparr>ram := f\<rparr>))
      | AbyssFs \<Rightarrow> do { (r, d) \<leftarrow> abyssfs_unlink path0 (disk k); Some (r, k\<lparr>disk := d\<rparr>) })"
  by (cases fs) (simp_all add: fs_unlink_def fs_table_def ramfs_fs_type_def abyssfs_fs_type_def)

lemma fs_mkdir_eq:
  "fs_mkdir fs path0 k =
     (case fs of
        RamFs \<Rightarrow> do { (r, f) \<leftarrow> ramfs_mkdir path0 (ram k); Some (r, k\<lparr>ram := f\<rparr>) }
      | AbyssFs \<Rightarrow> do { (r, d) \<leftarrow> abyssfs_mkdir path0 (disk k); Some (r, k\<lparr>disk := d\<rparr>) })"
  by (cases fs) (simp_all add: fs_mkdir_def fs_table_def ramfs_fs_type_def abyssfs_fs_type_def)

lemma fs_remove_recursive_eq:
  "fs_remove_recursive fs =
     (case fs of
        RamFs \<Rightarrow> None
      | AbyssFs \<Rightarrow> Some (\<lambda>path0 k. do { (r, d) \<leftarrow> abyssfs_remove_recursive path0 (disk k); Some (r, k\<lparr>disk := d\<rparr>) }))"
  by (cases fs) (simp_all add: fs_remove_recursive_def fs_table_def ramfs_fs_type_def abyssfs_fs_type_def)

lemma fop_read_eq:
  "fop_read fs a count k =
     do { (n, bs, f) \<leftarrow> (case fs of RamFs \<Rightarrow> ramfs_read (fobjs (km k) a) count (ram k)
                                   | AbyssFs \<Rightarrow> abyssfs_read (fobjs (km k) a) count (disk k));
          Some (n, bs, k\<lparr>km := (km k)\<lparr>fobjs := (fobjs (km k))(a := f)\<rparr>\<rparr>) }"
  by (cases fs) (simp_all add: fop_read_def fops_table_def ramfs_fops_def abyssfs_fops_def set_fobj_def)

lemma fop_write_eq:
  "fop_write fs a buf count k =
     (case fs of
        RamFs \<Rightarrow> do { (n, f, r) \<leftarrow> ramfs_write (fobjs (km k) a) buf count (ram k);
                     Some (n, k\<lparr>km := (km k)\<lparr>fobjs := (fobjs (km k))(a := f)\<rparr>, ram := r\<rparr>) }
      | AbyssFs \<Rightarrow> do { (n, f, d) \<leftarrow> abyssfs_write (fobjs (km k) a) buf count (disk k);
                       Some (n, k\<lparr>km := (km k)\<lparr>fobjs := (fobjs (km k))(a := f)\<rparr>, disk := d\<rparr>) })"
  by (cases fs) (simp_all add: fop_write_def fops_table_def ramfs_fops_def abyssfs_fops_def set_fobj_def)

end
