(* ===== verification/Uart.thy ===== *)
theory Uart
  imports Prelude
begin

text \<open>
  The serial console \<open>src/src/drivers/uart.c\<close>, and \<open>src/src/drivers/uart_debug.c\<close>.

  The device is seen through its registers. What the successive reads of the flag register \<open>UART_FR\<close> return is
  decided by the hardware: it is an arbitrary sequence \<open>fr_at\<close> with the number \<open>fr_pos\<close> of reads done. Bytes
  written to the data register are appended to \<open>tx\<close>, bytes that arrive are taken from \<open>rx\<close>, writes to the
  other registers are recorded in \<open>mmio\<close>. The waiting loops are \<open>partial_function (option)\<close>: they end exactly when
  the hardware clears the flag.

  The locale \<open>console\<close> is what the clients rely on: bytes come out in the order in which they are put in.
\<close>

section \<open>Registers\<close>

definition UART_BASE :: u64 where "UART_BASE = 0x09000000"
definition UART_LCRH :: u64 where "UART_LCRH = UART_BASE + 0x2C"
definition UART_CR :: u64 where "UART_CR = UART_BASE + 0x30"
definition UART_IBRD :: u64 where "UART_IBRD = UART_BASE + 0x24"
definition UART_FBRD :: u64 where "UART_FBRD = UART_BASE + 0x28"
definition FR_TXFF :: u32 where "FR_TXFF = 32"
definition FR_RXFE :: u32 where "FR_RXFE = 16"
definition FR_BUSY :: u32 where "FR_BUSY = 8"

record uart =
  fr_at :: "nat \<Rightarrow> u32"
  fr_pos :: nat
  rx :: "byte list"
  tx :: "byte list"
  mmio :: "(u64 \<times> u32) list"

section \<open>The driver\<close>

text \<open>\<open>while (mmio_read(UART_FR) & msk) { }\<close>: the number of reads done when the loop ends.\<close>

partial_function (option) wait_clear :: "(nat \<Rightarrow> u32) \<Rightarrow> u32 \<Rightarrow> nat \<Rightarrow> nat option" where
  "wait_clear fr msk n = (if fr n AND msk \<noteq> 0 then wait_clear fr msk (n + 1) else Some (n + 1))"

definition uart_wait :: "u32 \<Rightarrow> uart \<Rightarrow> uart option" where
  "uart_wait msk u = do { n \<leftarrow> wait_clear (fr_at u) msk (fr_pos u); Some (u\<lparr>fr_pos := n\<rparr>) }"

definition uart_init :: "uart \<Rightarrow> uart" where
  "uart_init u = u\<lparr>mmio := mmio u @ [(UART_CR, 0), (UART_IBRD, 26), (UART_FBRD, 3),
     (UART_LCRH, push_bit 4 1 OR push_bit 5 1 OR push_bit 6 1), (UART_CR, push_bit 0 1 OR push_bit 8 1 OR push_bit 9 1)]\<rparr>"

definition uart_putc :: "byte \<Rightarrow> uart \<Rightarrow> uart option" where
  "uart_putc c u = do { u1 \<leftarrow> uart_wait FR_TXFF u; Some (u1\<lparr>tx := tx u1 @ [c]\<rparr>) }"

text \<open>The loop of \<open>uart_puts\<close> on the string at address \<open>s\<close>.\<close>

fun puts_loop :: "nat \<Rightarrow> string \<Rightarrow> uart \<Rightarrow> uart option" where
  "puts_loop s [] u = Some u"
| "puts_loop s (c # cs) u =
     do { u1 \<leftarrow> (if c = CHR 0x0A then uart_putc (CHR 0x0D) u else Some u);
          u2 \<leftarrow> uart_putc c u1;
          u3 \<leftarrow> (if (s + 1) mod 8 = 0 then uart_wait FR_BUSY u2 else Some u2);
          puts_loop (s + 1) cs u3 }"

definition uart_puts :: "nat \<Rightarrow> string \<Rightarrow> uart \<Rightarrow> uart option" where
  "uart_puts s str u = do { u1 \<leftarrow> puts_loop s str u; uart_wait FR_BUSY u1 }"

definition hex_digit :: "u64 \<Rightarrow> nat \<Rightarrow> byte" where
  "hex_digit n i =
     (let digit = drop_bit i n AND 0xF
      in char_of (unat digit + (if digit < 10 then 48 else 97 - 10)))"

fun put_all_c :: "byte list \<Rightarrow> uart \<Rightarrow> uart option" where
  "put_all_c [] u = Some u"
| "put_all_c (c # cs) u = do { u1 \<leftarrow> uart_putc c u; put_all_c cs u1 }"

text \<open>\<open>s\<close> is the address of the literal \<open>0x\<close>.\<close>

definition uart_hex :: "nat \<Rightarrow> u64 \<Rightarrow> uart \<Rightarrow> uart option" where
  "uart_hex s n u =
     do { u1 \<leftarrow> uart_puts s ''0x'' u;
          put_all_c (map (hex_digit n) [60, 56, 52, 48, 44, 40, 36, 32, 28, 24, 20, 16, 12, 8, 4, 0]) u1 }"

text \<open>A byte is in the data register when the flag says so; with no byte on the way the loop has no end.\<close>

definition uart_getc :: "uart \<Rightarrow> (byte \<times> uart) option" where
  "uart_getc u =
     (case rx u of
        [] \<Rightarrow> None
      | c # cs \<Rightarrow> do { u1 \<leftarrow> uart_wait FR_RXFE u; Some (c, u1\<lparr>rx := cs\<rparr>) })"

text \<open>The addresses of the six literals are \<open>s\<close>.\<close>

definition uart_dump_regs :: "(nat \<Rightarrow> nat) \<Rightarrow> u64 \<Rightarrow> u64 \<Rightarrow> u64 \<Rightarrow> uart \<Rightarrow> uart option" where
  "uart_dump_regs s spsr elr sp0 u =
     do { u1 \<leftarrow> uart_puts (s 0) ''SPSR_EL1='' u; u2 \<leftarrow> uart_hex (s 6) spsr u1; u3 \<leftarrow> uart_puts (s 1) ''  '' u2;
          u4 \<leftarrow> uart_puts (s 2) ''ELR_EL1='' u3; u5 \<leftarrow> uart_hex (s 6) elr u4; u6 \<leftarrow> uart_puts (s 3) ''  '' u5;
          u7 \<leftarrow> uart_puts (s 4) ''SP_EL0='' u6; u8 \<leftarrow> uart_hex (s 6) sp0 u7; uart_puts (s 5) [CHR 0x0A] u8 }"

section \<open>Waiting ends when the hardware lets it\<close>

text \<open>Hardware that clears all three flags again and again.\<close>

definition uart_fair :: "uart \<Rightarrow> bool" where
  "uart_fair u \<longleftrightarrow> (\<forall>n. \<exists>k \<ge> n. fr_at u k AND (FR_TXFF OR FR_RXFE OR FR_BUSY) = 0)"

lemma wait_clear_ends:
  assumes "k \<ge> n" "fr k AND msk = 0"
  shows "\<exists>m. wait_clear fr msk n = Some m"
  using assms
proof (induction "k - n" arbitrary: n)
  case 0
  then have "fr n AND msk = 0" by simp
  then show ?case by (subst wait_clear.simps) simp
next
  case (Suc d)
  show ?case
  proof (cases "fr n AND msk = 0")
    case True
    then show ?thesis by (subst wait_clear.simps) simp
  next
    case False
    then have "n < k" using Suc.hyps(2) by simp
    with Suc.hyps(1) [of "n + 1"] Suc.hyps(2) Suc.prems False show ?thesis by (subst wait_clear.simps) simp
  qed
qed

lemma uart_wait_fair:
  assumes "uart_fair u" "msk \<in> {FR_TXFF, FR_RXFE, FR_BUSY}"
  obtains n where "uart_wait msk u = Some (u\<lparr>fr_pos := n\<rparr>)"
proof -
  obtain k where k: "k \<ge> fr_pos u" "fr_at u k AND (FR_TXFF OR FR_RXFE OR FR_BUSY) = 0"
    using assms(1) by (auto simp: uart_fair_def)
  have "fr_at u k AND msk = 0"
  proof (rule bit_word_eqI)
    fix j assume "j < LENGTH(32)"
    have "\<not> bit (fr_at u k AND (FR_TXFF OR FR_RXFE OR FR_BUSY)) j" by (simp add: k(2))
    with assms(2) show "bit (fr_at u k AND msk) j = bit (0 :: u32) j" by (auto simp: bit_and_iff bit_or_iff)
  qed
  from wait_clear_ends [OF k(1), of "fr_at u", OF this] show thesis by (auto simp: uart_wait_def intro: that)
qed

section \<open>The interface: a console\<close>

text \<open>What the hardware sees of a string: a carriage return before every line feed.\<close>

fun crlf :: "string \<Rightarrow> string" where
  "crlf [] = []"
| "crlf (c # cs) = (if c = CHR 0x0A then [CHR 0x0D, c] else [c]) @ crlf cs"

locale console =
  fixes put :: "byte \<Rightarrow> 's \<Rightarrow> 's option"
    and get :: "'s \<Rightarrow> (byte \<times> 's) option"
    and sent :: "'s \<Rightarrow> byte list"
    and pending :: "'s \<Rightarrow> byte list"
    and live :: "'s \<Rightarrow> bool"
  assumes put_ok: "live s \<Longrightarrow> \<exists>s'. put c s = Some s' \<and> live s' \<and> sent s' = sent s @ [c] \<and> pending s' = pending s"
    and get_ok: "live s \<Longrightarrow> pending s = c # cs \<Longrightarrow> \<exists>s'. get s = Some (c, s') \<and> live s' \<and> sent s' = sent s \<and> pending s' = cs"
    and get_blocks: "pending s = [] \<Longrightarrow> get s = None"
begin

primrec put_list :: "byte list \<Rightarrow> 's \<Rightarrow> 's option" where
  "put_list [] s = Some s"
| "put_list (c # cs) s = do { s1 \<leftarrow> put c s; put_list cs s1 }"

primrec get_list :: "nat \<Rightarrow> 's \<Rightarrow> (byte list \<times> 's) option" where
  "get_list 0 s = Some ([], s)"
| "get_list (Suc n) s = do { (c, s1) \<leftarrow> get s; (cs, s2) \<leftarrow> get_list n s1; Some (c # cs, s2) }"

lemma put_list_ok: "live s \<Longrightarrow> \<exists>s'. put_list cs s = Some s' \<and> live s' \<and> sent s' = sent s @ cs \<and> pending s' = pending s"
proof (induction cs arbitrary: s)
  case (Cons c cs)
  obtain s1 where s1: "put c s = Some s1" "live s1" "sent s1 = sent s @ [c]" "pending s1 = pending s"
    using put_ok [OF Cons.prems] by blast
  with Cons.IH [OF s1(2)] show ?case by auto
qed simp

lemma get_list_ok: "live s \<Longrightarrow> pending s = cs @ ds \<Longrightarrow>
    \<exists>s'. get_list (length cs) s = Some (cs, s') \<and> live s' \<and> sent s' = sent s \<and> pending s' = ds"
proof (induction cs arbitrary: s)
  case (Cons c cs)
  obtain s1 where s1: "get s = Some (c, s1)" "live s1" "sent s1 = sent s" "pending s1 = cs @ ds"
    using get_ok [OF Cons.prems(1), of c "cs @ ds"] Cons.prems(2) by auto
  with Cons.IH [OF s1(2,4)] show ?case by auto
qed simp

end

section \<open>The driver provides it\<close>

lemma uart_putc_ok:
  assumes "uart_fair u"
  shows "\<exists>u'. uart_putc c u = Some u' \<and> uart_fair u' \<and> tx u' = tx u @ [c] \<and> rx u' = rx u"
proof -
  obtain n where "uart_wait FR_TXFF u = Some (u\<lparr>fr_pos := n\<rparr>)" using uart_wait_fair [OF assms, of FR_TXFF] by auto
  then show ?thesis using assms by (simp add: uart_putc_def uart_fair_def)
qed

lemma uart_getc_ok:
  assumes "uart_fair u" "rx u = c # cs"
  shows "\<exists>u'. uart_getc u = Some (c, u') \<and> uart_fair u' \<and> tx u' = tx u \<and> rx u' = cs"
proof -
  obtain n where "uart_wait FR_RXFE u = Some (u\<lparr>fr_pos := n\<rparr>)" using uart_wait_fair [OF assms(1), of FR_RXFE] by auto
  then show ?thesis using assms by (simp add: uart_getc_def uart_fair_def)
qed

interpretation serial: console uart_putc uart_getc tx rx uart_fair
  by unfold_locales (use uart_putc_ok uart_getc_ok in \<open>auto simp: uart_getc_def\<close>)

lemma put_all_c_eq: "put_all_c cs u = serial.put_list cs u"
proof (induction cs arbitrary: u)
  case (Cons c cs)
  then show ?case by (cases "uart_putc c u") simp_all
qed simp

lemma puts_loop_ok:
  "uart_fair u \<Longrightarrow> \<exists>u'. puts_loop s str u = Some u' \<and> uart_fair u' \<and> tx u' = tx u @ crlf str \<and> rx u' = rx u"
proof (induction str arbitrary: s u)
  case (Cons c cs)
  obtain u2 where u2: "Option.bind (if c = CHR 0x0A then uart_putc (CHR 0x0D) u else Some u) (uart_putc c) = Some u2"
    "uart_fair u2" "tx u2 = tx u @ (if c = CHR 0x0A then [CHR 0x0D, c] else [c])" "rx u2 = rx u"
    using serial.put_list_ok [OF Cons.prems, of "if c = CHR 0x0A then [CHR 0x0D, c] else [c]"] by (auto split: if_splits)
  obtain n where w: "uart_wait FR_BUSY u2 = Some (u2\<lparr>fr_pos := n\<rparr>)" using uart_wait_fair [OF u2(2), of FR_BUSY] by auto
  define u3 where "u3 = (if (s + 1) mod 8 = 0 then u2\<lparr>fr_pos := n\<rparr> else u2)"
  have u3: "(if (s + 1) mod 8 = 0 then uart_wait FR_BUSY u2 else Some u2) = Some u3"
    "uart_fair u3" "tx u3 = tx u2" "rx u3 = rx u2"
    using w u2(2) by (simp_all add: u3_def uart_fair_def)
  have "puts_loop s (c # cs) u = puts_loop (s + 1) cs u3"
    using u2(1) u3(1) by (cases "c = CHR 0x0A") (auto simp: bind_assoc)
  with Cons.IH [OF u3(2), of "s + 1"] u2 u3 show ?case by auto
qed simp

lemma uart_puts_ok:
  assumes "uart_fair u"
  shows "\<exists>u'. uart_puts s str u = Some u' \<and> uart_fair u' \<and> tx u' = tx u @ crlf str \<and> rx u' = rx u"
proof -
  obtain u1 where u1: "puts_loop s str u = Some u1" "uart_fair u1" "tx u1 = tx u @ crlf str" "rx u1 = rx u"
    using puts_loop_ok [OF assms] by blast
  obtain n where "uart_wait FR_BUSY u1 = Some (u1\<lparr>fr_pos := n\<rparr>)" using uart_wait_fair [OF u1(2), of FR_BUSY] by auto
  with u1 show ?thesis by (simp add: uart_puts_def uart_fair_def)
qed

section \<open>Numbers\<close>

definition hex_value :: "byte \<Rightarrow> nat" where
  "hex_value c = (let n = of_char c in if n < 58 then n - 48 else n - 87)"

definition hex_number :: "byte list \<Rightarrow> nat" where
  "hex_number ds = foldl (\<lambda>a d. a * 16 + hex_value d) 0 ds"

lemma hex_value_digit: "hex_value (hex_digit n (4 * i)) = unat n div 16 ^ i mod 16"
proof -
  have "drop_bit (4 * i) n AND 0xF = take_bit 4 (drop_bit (4 * i) n)"
    using take_bit_eq_mask [of 4 "drop_bit (4 * i) n"] by (simp add: mask_numeral)
  moreover have "take_bit 64 (unat n) = unat n"
    using unsigned_less [where 'a = nat, of n] by (intro take_bit_nat_eq_self) simp
  then have "unat (take_bit 4 (drop_bit (4 * i) n)) = take_bit 4 (drop_bit (4 * i) (unat n))"
    by (simp only: unsigned_take_bit_eq unsigned_drop_bit_eq) simp
  ultimately have u: "unat (drop_bit (4 * i) n AND 0xF) = unat n div 16 ^ i mod 16"
    by (simp only: take_bit_eq_mod drop_bit_eq_div power_mult) simp
  define d where "d = drop_bit (4 * i) n AND 0xF"
  have d: "unat d < 16" "unat d = unat n div 16 ^ i mod 16" using u by (simp_all add: d_def)
  have "hex_value (char_of (unat d + (if d < 10 then 48 else 97 - 10))) = unat d"
    using d(1) by (auto simp: hex_value_def Let_def word_less_nat_alt of_char_of)
  then show ?thesis using d(2) by (simp add: hex_digit_def Let_def d_def)
qed

lemma horner: "foldl (\<lambda>a i. a * 16 + x div 16 ^ i mod 16) a (rev [0..<k]) = a * 16 ^ k + x mod 16 ^ k" for x :: nat
proof (induction k arbitrary: a)
  case (Suc k)
  have "(a * 16 + x div 16 ^ k mod 16) * 16 ^ k + x mod 16 ^ k = a * 16 ^ Suc k + x mod 16 ^ Suc k"
    using mod_mult2_eq [of x "16 ^ k" 16] by (simp add: algebra_simps)
  then show ?case using Suc.IH [of "a * 16 + x div 16 ^ k mod 16"] by simp
qed simp

lemma hex_digits_number: "hex_number (map (hex_digit n) [60, 56, 52, 48, 44, 40, 36, 32, 28, 24, 20, 16, 12, 8, 4, 0]) = unat n"
proof -
  have p: "[60, 56, 52, 48, 44, 40, 36, 32, 28, 24, 20, 16, 12, 8, 4, 0] = map ((*) 4) (rev [0..<16::nat])"
    by (simp add: upt_rec numeral_eq_Suc)
  have "hex_number (map (hex_digit n) (map ((*) 4) (rev [0..<16]))) = unat n mod 16 ^ 16"
    using horner [of "unat n" 0 16] by (simp add: hex_number_def foldl_map hex_value_digit)
  moreover have "unat n < 16 ^ 16" using unsigned_less [where 'a = nat, of n] by simp
  ultimately show ?thesis unfolding p by simp
qed

definition hex_digits :: "u64 \<Rightarrow> byte list" where
  "hex_digits n = map (hex_digit n) [60, 56, 52, 48, 44, 40, 36, 32, 28, 24, 20, 16, 12, 8, 4, 0]"

lemma uart_hex_ok:
  assumes "uart_fair u"
  shows "\<exists>u'. uart_hex s n u = Some u' \<and> uart_fair u' \<and> tx u' = tx u @ ''0x'' @ hex_digits n \<and> rx u' = rx u"
proof -
  obtain u1 where u1: "uart_puts s ''0x'' u = Some u1" "uart_fair u1" "tx u1 = tx u @ ''0x''" "rx u1 = rx u"
    using uart_puts_ok [OF assms, of s "''0x''"] by auto
  obtain u2 where u2: "put_all_c (hex_digits n) u1 = Some u2" "uart_fair u2" "tx u2 = tx u1 @ hex_digits n" "rx u2 = rx u1"
    using serial.put_list_ok [OF u1(2), of "hex_digits n"] unfolding put_all_c_eq [symmetric] by blast
  have "uart_hex s n u = Some u2" unfolding uart_hex_def u1(1) bind.bind_lunit hex_digits_def [symmetric] by (rule u2(1))
  then show ?thesis using u1 u2(2-4) by simp
qed

section \<open>Properties\<close>

text \<open>C35: on hardware that keeps clearing its flags, \<open>uart_puts\<close> returns and has sent the string with a carriage return before every
  line feed, and nothing else; \<open>uart_hex\<close> returns and has sent \<open>0x\<close> and sixteen digits that read back as the number.\<close>

theorem uart_output_complete:
  assumes "uart_fair u"
  shows "(\<exists>u'. uart_puts s str u = Some u' \<and> tx u' = tx u @ crlf str \<and> rx u' = rx u)
    \<and> (\<exists>u' ds. uart_hex s n u = Some u' \<and> tx u' = tx u @ ''0x'' @ ds \<and> length ds = 16 \<and> hex_number ds = unat n)"
proof -
  have "length (hex_digits n) = 16 \<and> hex_number (hex_digits n) = unat n" using hex_digits_number [of n] by (simp add: hex_digits_def)
  then show ?thesis using uart_puts_ok [OF assms, of s str] uart_hex_ok [OF assms, of s n] by blast
qed

definition idle_uart :: uart where
  "idle_uart = \<lparr>fr_at = (\<lambda>_. 0), fr_pos = 0, rx = [], tx = [], mmio = []\<rparr>"

lemma idle_uart_fair: "uart_fair idle_uart"
  by (auto simp: uart_fair_def idle_uart_def)

theorem uart_output_complete_witness:
  "\<exists>u'. uart_puts 0 [CHR ''o'', CHR ''k'', CHR 0x0A] idle_uart = Some u' \<and> tx u' = [CHR ''o'', CHR ''k'', CHR 0x0D, CHR 0x0A]"
  using uart_output_complete [OF idle_uart_fair, of 0 "[CHR ''o'', CHR ''k'', CHR 0x0A]" 0] by (auto simp: idle_uart_def)

end
