(* ===== verification/Message.thy ===== *)
theory Message
  imports Vfs Uart
begin

text \<open>
  The message interface of the kernel: \<open>send_message\<close> and \<open>handle_message\<close> of \<open>src/src/kernel/message.c\<close>, and
  \<open>load_program\<close> and \<open>exec_process\<close> of \<open>src/src/kernel/process.c\<close>, which send messages.

  A machine is the kernel state and the console. What a handler copies to the caller is the changed message;
  directory entries, copied as structures to the caller's buffer, are kept in \<open>dirents_out\<close>. A call that enters the
  scheduler is suspended there (\<open>Suspend\<close>); the rest of the function, run when the process is resumed, is a
  definition of its own. \<open>None\<close> is undefined behaviour (a null path, a buffer that is too small) or a loop that does
  not end. Diagnostic output is left out; the console holds what the messages themselves read and write.
\<close>

section \<open>State\<close>

record machine =
  kern :: kernel
  con :: uart
  dirents_out :: "dirent list"

text \<open>
  What the model is given: the linker's addresses, the address of \<open>argv\<close> and of the string to print, the addresses of the kernel's own
  strings (see \<open>say\<close>), and the registers \<open>ELR_EL1\<close> and \<open>FAR_EL1\<close> at an exception.
\<close>

record env =
  env_lm :: link_map
  env_argv :: u64
  env_str :: nat
  env_adr :: "nat \<Rightarrow> nat"
  env_elr :: u64
  env_far :: u64

datatype reply = Return int | Suspend sched_outcome

type_synonym msg_result = "(reply \<times> Message \<times> machine) option"

definition on_kern :: "(int \<times> kernel) option \<Rightarrow> machine \<Rightarrow> (int \<times> machine) option" where
  "on_kern r m = map_option (\<lambda>(n, k). (n, m\<lparr>kern := k\<rparr>)) r"

text \<open>The C string at the start of a buffer.\<close>

definition cstr_of :: "byte list \<Rightarrow> string option" where
  "cstr_of bs = (if NUL \<in> set bs then Some (takeWhile (\<lambda>c. c \<noteq> NUL) bs) else None)"

text \<open>\<open>memcpy\<close> of \<open>bs\<close> to the start of the caller's buffer.\<close>

definition copy_to_user :: "byte list \<Rightarrow> byte list option \<Rightarrow> byte list option option" where
  "copy_to_user bs buf =
     (case buf of None \<Rightarrow> None
      | Some b \<Rightarrow> if length bs \<le> length b then Some (Some (bs @ drop (length bs) b)) else None)"

section \<open>Printing\<close>

text \<open>
  \<open>adr\<close> gives the address of the string a call of \<open>uart_puts\<close> prints, on which only the waiting of the driver depends. It is
  indexed by the number of flag reads done, which no two calls share.
\<close>

definition say :: "(nat \<Rightarrow> nat) \<Rightarrow> string \<Rightarrow> machine \<Rightarrow> machine option" where
  "say adr s m = map_option (\<lambda>u. m\<lparr>con := u\<rparr>) (uart_puts (adr (fr_pos (con m))) s (con m))"

fun say_all :: "(nat \<Rightarrow> nat) \<Rightarrow> string list \<Rightarrow> machine \<Rightarrow> machine option" where
  "say_all adr [] m = Some m"
| "say_all adr (s # ss) m = do { m1 \<leftarrow> say adr s m; say_all adr ss m1 }"

abbreviation newline :: string where
  "newline \<equiv> [CHR 0x0A]"

definition say_hex :: "(nat \<Rightarrow> nat) \<Rightarrow> u64 \<Rightarrow> machine \<Rightarrow> machine option" where
  "say_hex adr n m = map_option (\<lambda>u. m\<lparr>con := u\<rparr>) (uart_hex (adr (fr_pos (con m))) n (con m))"

text \<open>A sequence of calls of \<open>uart_puts\<close> (\<open>Inl\<close>) and \<open>uart_hex\<close> (\<open>Inr\<close>).\<close>

fun say_items :: "(nat \<Rightarrow> nat) \<Rightarrow> (string + u64) list \<Rightarrow> machine \<Rightarrow> machine option" where
  "say_items adr [] m = Some m"
| "say_items adr (x # xs) m = do { m1 \<leftarrow> (case x of Inl s \<Rightarrow> say adr s m | Inr n \<Rightarrow> say_hex adr n m); say_items adr xs m1 }"

section \<open>Handlers\<close>

definition msg_open :: "Message \<Rightarrow> machine \<Rightarrow> msg_result" where
  "msg_open msg m =
     do { p \<leftarrow> path msg;
          (r, m1) \<leftarrow> on_kern (vfs_open p (kern m)) m;
          Some (Return r, msg\<lparr>fd := r\<rparr>, m1) }"

definition msg_read :: "Message \<Rightarrow> machine \<Rightarrow> msg_result" where
  "msg_read msg m =
     do { (bytes, bs, k) \<leftarrow> vfs_read (fd msg) 256 (kern m);
          let m1 = m\<lparr>kern := k\<rparr>;
          if bytes > 0
          then do { d \<leftarrow> copy_to_user bs (data msg);
                    Some (Return (c_int bytes), msg\<lparr>data := d, msg_size := of_int bytes\<rparr>, m1) }
          else Some (Return (c_int bytes), msg, m1) }"

definition msg_fork :: "env \<Rightarrow> Message \<Rightarrow> machine \<Rightarrow> msg_result" where
  "msg_fork e msg m =
     do { (new, s) \<leftarrow> create_process (env_lm e) (pt (kern m));
          Some (Return 0, msg\<lparr>msg_pid := pid (procs s new)\<rparr>, m\<lparr>kern := (kern m)\<lparr>pt := s\<rparr>\<rparr>) }"

definition msg_exec :: "env \<Rightarrow> Message \<Rightarrow> machine \<Rightarrow> msg_result" where
  "msg_exec e msg m =
     do { (r, s) \<leftarrow> handle_exec_message (env_argv e) msg (pt (kern m));
          Some (Return r, msg, m\<lparr>kern := (kern m)\<lparr>pt := s\<rparr>\<rparr>) }"

text \<open>The first scan and the block; a child found is left as it is.\<close>

definition msg_wait :: "Message \<Rightarrow> machine \<Rightarrow> msg_result" where
  "msg_wait msg m =
     (let s = pt (kern m) in
      do { cur \<leftarrow> get_current_process s;
           r \<leftarrow> wait_scan s (pid (procs s cur)) (process_list s);
           case r of
             Some p \<Rightarrow> Some (Return 0, msg\<lparr>status := exit_status (procs s p)\<rparr>, m)
           | None \<Rightarrow>
               do { (out, s1) \<leftarrow> schedule (pupd cur (\<lambda>pr. pr\<lparr>pstate := PROC_BLOCKED\<rparr>) s);
                    Some (Suspend out, msg, m\<lparr>kern := (kern m)\<lparr>pt := s1\<rparr>\<rparr>) } })"

text \<open>The second scan, when the caller \<open>cur\<close> runs again.\<close>

definition msg_wait_resume :: "proc_ptr \<Rightarrow> Message \<Rightarrow> machine \<Rightarrow> msg_result" where
  "msg_wait_resume cur msg m =
     (let s = pt (kern m) in
      do { r \<leftarrow> wait_scan s (pid (procs s cur)) (process_list s);
           case r of
             Some p \<Rightarrow> Some (Return 0, msg\<lparr>status := exit_status (procs s p)\<rparr>, m)
           | None \<Rightarrow> Some (Return (-1), msg, m) })"

definition msg_read_dir :: "Message \<Rightarrow> machine \<Rightarrow> msg_result" where
  "msg_read_dir msg m =
     do { (r, ds, msg1, k) \<leftarrow> handle_read_dir_message msg (kern m);
          Some (Return r, msg1, m\<lparr>kern := k, dirents_out := ds\<rparr>) }"

definition msg_create :: "Message \<Rightarrow> machine \<Rightarrow> msg_result" where
  "msg_create msg m =
     do { p \<leftarrow> path msg;
          (d, k1) \<leftarrow> vfs_create p (kern m);
          if d \<ge> 0 then Some (Return 0, msg\<lparr>fd := d\<rparr>, m\<lparr>kern := snd (vfs_close d k1)\<rparr>)
          else Some (Return (-1), msg, m\<lparr>kern := k1\<rparr>) }"

definition msg_mkdir :: "Message \<Rightarrow> machine \<Rightarrow> msg_result" where
  "msg_mkdir msg m =
     do { p \<leftarrow> path msg; (r, m1) \<leftarrow> on_kern (vfs_mkdir p (kern m)) m; Some (Return r, msg, m1) }"

definition msg_getcwd :: "Message \<Rightarrow> machine \<Rightarrow> msg_result" where
  "msg_getcwd msg m =
     (case cur_proc (kern m) of
        None \<Rightarrow> Some (Return (-1), msg, m)
      | Some p \<Rightarrow>
          if data msg \<noteq> None \<and> msg_size msg > 0
          then let cwd_len = of_nat (length (cwd p)) :: u64 in
            if cwd_len < msg_size msg
            then do { d \<leftarrow> copy_to_user (cwd p @ [NUL]) (data msg);
                      Some (Return 0, msg\<lparr>data := d, msg_size := cwd_len\<rparr>, m) }
            else Some (Return (-1), msg, m)
          else Some (Return (-1), msg, m))"

text \<open>The path of \<open>MSG_CHDIR\<close> before it is normalised.\<close>

definition chdir_path :: "string \<Rightarrow> process \<Rightarrow> string option" where
  "chdir_path p0 p =
     (if cs_nth p0 0 = CHR ''/'' then Some (take 255 p0)
      else if cwd p = [] then None
      else into_buf 256 ((if last (cwd p) \<noteq> CHR ''/'' then cwd p @ ''/'' else cwd p) @ p0))"

definition msg_chdir :: "Message \<Rightarrow> machine \<Rightarrow> msg_result" where
  "msg_chdir msg m =
     (case cur_proc (kern m) of
        None \<Rightarrow> Some (Return (-1), msg\<lparr>status := -1\<rparr>, m)
      | Some p \<Rightarrow>
          do { p0 \<leftarrow> path msg;
               full0 \<leftarrow> chdir_path p0 p;
               full_path \<leftarrow> vfs_normalize_path full0;
               (r, k) \<leftarrow> vfs_read_dir full_path 1 (kern m);
               if r \<noteq> None
               then Some (Return 0, msg\<lparr>status := 0\<rparr>, m\<lparr>kern := upd_cur (\<lambda>q. q\<lparr>cwd := take 255 full_path\<rparr>) k\<rparr>)
               else Some (Return (-1), msg\<lparr>status := -1\<rparr>, m\<lparr>kern := k\<rparr>) })"

text \<open>
  The loop that copies in chunks of 1024 bytes, shared by \<open>MSG_COPY\<close> and \<open>MSG_MOVE\<close>: whether all was written and how much.
\<close>

partial_function (option) copy_loop :: "int \<Rightarrow> int \<Rightarrow> int \<Rightarrow> kernel \<Rightarrow> (bool \<times> int \<times> kernel) option" where
  "copy_loop src_fd dst_fd total_copied k =
     do { (r, buf, k1) \<leftarrow> vfs_read src_fd 1024 k;
          let bytes_read = c_int r;
          if bytes_read > 0
          then do { (bytes_written, k2) \<leftarrow> vfs_write dst_fd buf (of_int bytes_read) k1;
                    if bytes_written \<noteq> bytes_read then Some (False, total_copied, k2)
                    else copy_loop src_fd dst_fd (total_copied + bytes_written) k2 }
          else Some (True, total_copied, k1) }"

text \<open>Opening the source, creating the destination, the loop and the two closes; \<open>None\<close> inside is the failed return.\<close>

definition copy_files :: "string \<Rightarrow> string \<Rightarrow> kernel \<Rightarrow> (bool option \<times> kernel) option" where
  "copy_files src_path dst_path k =
     do { (src_fd, k1) \<leftarrow> vfs_open src_path k;
          if src_fd < 0 then Some (None, k1)
          else do { (dst_fd, k2) \<leftarrow> vfs_create dst_path k1;
                    if dst_fd < 0 then Some (None, snd (vfs_close src_fd k2))
                    else do { (ok, total_copied, k3) \<leftarrow> copy_loop src_fd dst_fd 0 k2;
                              Some (Some ok, snd (vfs_close dst_fd (snd (vfs_close src_fd k3)))) } } }"

definition msg_copy :: "Message \<Rightarrow> machine \<Rightarrow> msg_result" where
  "msg_copy msg m =
     (if path msg = None \<or> data msg = None then Some (Return (-1), msg, m)
      else do { src_path \<leftarrow> path msg;
                dst_path \<leftarrow> Option.bind (data msg) cstr_of;
                (r, k) \<leftarrow> copy_files src_path dst_path (kern m);
                Some (Return (if r = Some True then 0 else -1), msg, m\<lparr>kern := k\<rparr>) })"

definition msg_remove :: "Message \<Rightarrow> machine \<Rightarrow> msg_result" where
  "msg_remove msg m =
     (case path msg of
        None \<Rightarrow> Some (Return (-1), msg, m)
      | Some p \<Rightarrow> do { (r, m1) \<leftarrow> on_kern (vfs_unlink p (kern m)) m; Some (Return (if r < 0 then -1 else 0), msg, m1) })"

text \<open>A failed write and a failed removal of the source both remove the destination.\<close>

definition msg_move :: "Message \<Rightarrow> machine \<Rightarrow> msg_result" where
  "msg_move msg m =
     (if path msg = None \<or> data msg = None then Some (Return (-1), msg, m)
      else do { src_path \<leftarrow> path msg;
                dst_path \<leftarrow> Option.bind (data msg) cstr_of;
                (r, k) \<leftarrow> copy_files src_path dst_path (kern m);
                case r of
                  None \<Rightarrow> Some (Return (-1), msg, m\<lparr>kern := k\<rparr>)
                | Some False \<Rightarrow> do { (_, k1) \<leftarrow> vfs_unlink dst_path k; Some (Return (-1), msg, m\<lparr>kern := k1\<rparr>) }
                | Some True \<Rightarrow>
                    do { (u, k1) \<leftarrow> vfs_unlink src_path k;
                         if u < 0 then do { (_, k2) \<leftarrow> vfs_unlink dst_path k1; Some (Return (-1), msg, m\<lparr>kern := k2\<rparr>) }
                         else Some (Return 0, msg, m\<lparr>kern := k1\<rparr>) } })"

definition msg_bind :: "Message \<Rightarrow> machine \<Rightarrow> msg_result" where
  "msg_bind msg m =
     (if path msg = None \<or> data msg = None then Some (Return (-1), msg, m)
      else do { source_path \<leftarrow> path msg;
                target_path \<leftarrow> Option.bind (data msg) cstr_of;
                (r, m1) \<leftarrow> on_kern (bind_ns target_path source_path 16 (kern m)) m;
                Some (Return (if r < 0 then -1 else 0), msg, m1) })"

definition msg_unbind :: "Message \<Rightarrow> machine \<Rightarrow> msg_result" where
  "msg_unbind msg m =
     (if cur_proc (kern m) = None then Some (Return (-1), msg, m)
      else do { p \<leftarrow> path msg; (r, m1) \<leftarrow> on_kern (Some (unbind p (kern m))) m; Some (Return r, msg, m1) })"

definition msg_putc :: "Message \<Rightarrow> machine \<Rightarrow> msg_result" where
  "msg_putc msg m = do { u \<leftarrow> uart_putc (character msg) (con m); Some (Return 0, msg, m\<lparr>con := u\<rparr>) }"

definition msg_getc :: "Message \<Rightarrow> machine \<Rightarrow> msg_result" where
  "msg_getc msg m =
     do { (c, u) \<leftarrow> uart_getc (con m); Some (Return (of_char c), msg\<lparr>character := c\<rparr>, m\<lparr>con := u\<rparr>) }"

definition msg_puts :: "env \<Rightarrow> Message \<Rightarrow> machine \<Rightarrow> msg_result" where
  "msg_puts e msg m =
     do { s \<leftarrow> msg_string msg; u \<leftarrow> uart_puts (env_str e) s (con m); Some (Return 0, msg, m\<lparr>con := u\<rparr>) }"

section \<open>The dispatcher\<close>

definition send_message :: "env \<Rightarrow> Message \<Rightarrow> machine \<Rightarrow> msg_result" where
  "send_message e msg m =
     (case msg_type_of (msg_type msg) of
        Some MSG_OPEN \<Rightarrow> msg_open msg m
      | Some MSG_READ \<Rightarrow> msg_read msg m
      | Some MSG_FORK \<Rightarrow> msg_fork e msg m
      | Some MSG_EXEC \<Rightarrow> msg_exec e msg m
      | Some MSG_WAIT \<Rightarrow> msg_wait msg m
      | Some MSG_PIPE \<Rightarrow> Some (Return 0, msg, m)
      | Some MSG_READ_DIR \<Rightarrow> msg_read_dir msg m
      | Some MSG_CREATE \<Rightarrow> msg_create msg m
      | Some MSG_MKDIR \<Rightarrow> msg_mkdir msg m
      | Some MSG_GETCWD \<Rightarrow> msg_getcwd msg m
      | Some MSG_CHDIR \<Rightarrow> msg_chdir msg m
      | Some MSG_COPY \<Rightarrow> msg_copy msg m
      | Some MSG_REMOVE \<Rightarrow> msg_remove msg m
      | Some MSG_MOVE \<Rightarrow> msg_move msg m
      | Some MSG_BIND \<Rightarrow> msg_bind msg m
      | Some MSG_UNBIND \<Rightarrow> msg_unbind msg m
      | Some MSG_PUTC \<Rightarrow> msg_putc msg m
      | Some MSG_GETC \<Rightarrow> msg_getc msg m
      | Some MSG_PUTS \<Rightarrow> msg_puts e msg m
      | _ \<Rightarrow> Some (Return (-1), msg, m))"

definition handle_message :: "env \<Rightarrow> Message \<Rightarrow> machine \<Rightarrow> msg_result" where
  "handle_message e msg m =
     (case msg_type_of (msg_type msg) of
        Some MSG_OPEN \<Rightarrow> send_message e msg m
      | Some MSG_READ \<Rightarrow> send_message e msg m
      | Some MSG_FORK \<Rightarrow> send_message e msg m
      | Some MSG_EXEC \<Rightarrow> send_message e msg m
      | Some MSG_WAIT \<Rightarrow> send_message e msg m
      | Some MSG_PIPE \<Rightarrow> send_message e msg m
      | Some MSG_PUTC \<Rightarrow> send_message e msg m
      | Some MSG_GETC \<Rightarrow> send_message e msg m
      | Some MSG_PUTS \<Rightarrow> send_message e msg m
      | _ \<Rightarrow> Some (Return (-1), msg, m))"

section \<open>Loading a program\<close>

definition PROCESS_LOAD_ADDR :: u64 where
  "PROCESS_LOAD_ADDR = 0x40100000"

text \<open>The memory at \<open>proc->ctx.pc\<close> is the byte list \<open>img\<close>; the result is the return value and the memory.\<close>

definition load_program :: "env \<Rightarrow> string \<Rightarrow> byte list \<Rightarrow> machine \<Rightarrow> (int \<times> byte list \<times> machine) option" where
  "load_program e path0 img m =
     do { (r1, msg1, m1) \<leftarrow> send_message e ((blank_message (msg_code MSG_OPEN))\<lparr>path := Some path0, flags := 0\<rparr>) m;
          case r1 of
            Suspend out \<Rightarrow> None
          | Return n1 \<Rightarrow>
              if n1 < 0 then Some (-1, img, m1)
              else do { (r2, msg2, m2) \<leftarrow> send_message e (msg1\<lparr>msg_type := msg_code MSG_READ, fd := status msg1,
                            data := Some img, msg_size := 4096\<rparr>) m1;
                        let image2 = (case data msg2 of Some b \<Rightarrow> b | None \<Rightarrow> img);
                        case r2 of
                          Suspend out \<Rightarrow> None
                        | Return n2 \<Rightarrow>
                            if n2 < 0 then Some (-1, image2, m2)
                            else do { (r3, msg3, m3) \<leftarrow> send_message e (msg2\<lparr>msg_type := msg_code MSG_CLOSE\<rparr>) m2;
                                      Some (0, image2, m3) } } }"

definition exec_process :: "env \<Rightarrow> string \<Rightarrow> byte list \<Rightarrow> machine \<Rightarrow> (int \<times> byte list \<times> machine) option" where
  "exec_process e path0 img m =
     do { cur \<leftarrow> get_current_process (pt (kern m));
          (r, image1, m1) \<leftarrow> load_program e path0 img m;
          if r < 0 then Some (-1, image1, m1)
          else let s = pt (kern m1);
                   top = process_stacks (env_lm e) + (of_nat (process_count s) - 1) * PROCESS_STACK_SIZE + PROCESS_STACK_SIZE
               in Some (0, image1, m1\<lparr>kern := (kern m1)\<lparr>pt := pupd cur (\<lambda>pr. pr\<lparr>proc_sp := top,
                    ctx := (ctx pr)\<lparr>ctx_pc := PROCESS_LOAD_ADDR\<rparr>\<rparr>) s\<rparr>\<rparr>) }"

end
