(* ===== verification/Ramfs_Props.thy ===== *)
theory Ramfs_Props
  imports Ramfs
begin

text \<open>
  What the RAM disk guarantees, and where it does not: the properties of \<open>src/src/fs/ramfs.c\<close>.
\<close>

section \<open>Directory listings\<close>

lemma ramfs_dir_loop_eq:
  "ramfs_dir_loop p m i fs (take m ds) = take m (ds @ map (\<lambda>(j, rf). \<lparr>d_inode = of_nat (j + 2), d_name = get_basename (rf_path rf)\<rparr>)
     (filter (\<lambda>(j, rf). used rf \<and> is_file_in_dir (rf_path rf) p) (enumerate i fs)))"
proof (induction fs arbitrary: i ds)
  case Nil
  then show ?case by simp
next
  case (Cons rf fs)
  show ?case
  proof (cases "length ds < m")
    case True
    let ?d = "\<lparr>d_inode = of_nat (i + 2), d_name = get_basename (rf_path rf)\<rparr>"
    have "take m (ds @ [?d]) = ds @ [?d]" "take m ds = ds" using True by simp_all
    with True Cons.IH [of "Suc i" ds] Cons.IH [of "Suc i" "ds @ [?d]"] show ?thesis
      by auto
  qed simp
qed

lemma is_file_in_dir_tmp:
  "is_file_in_dir f ''/tmp'' \<longleftrightarrow> (\<exists>b. f = ''/tmp/'' @ b \<and> CHR ''/'' \<notin> set b)"
proof
  assume "is_file_in_dir f ''/tmp''"
  then have *: "take 4 f = ''/tmp''" "cs_nth f 4 = CHR ''/''" "CHR ''/'' \<notin> set (drop 5 f)"
    by (auto simp: is_file_in_dir_def Let_def last_idx_None_iff eval_nat_numeral split: if_splits)
  then have "4 < length f" by (auto simp: cs_nth_def split: if_splits)
  then have "f = take 4 f @ f ! 4 # drop 5 f"
    using id_take_nth_drop [of 4 f] by simp
  with * \<open>4 < length f\<close> show "\<exists>b. f = ''/tmp/'' @ b \<and> CHR ''/'' \<notin> set b"
    by (intro exI [of _ "drop 5 f"]) (simp add: cs_nth_def)
next
  assume "\<exists>b. f = ''/tmp/'' @ b \<and> CHR ''/'' \<notin> set b"
  then show "is_file_in_dir f ''/tmp''"
    by (auto simp: is_file_in_dir_def Let_def last_idx_None_iff cs_nth_def)
qed

lemma get_basename_join: "CHR ''/'' \<notin> set b \<Longrightarrow> get_basename (d @ ''/'' @ b) = b"
  using last_idx_append_notin [of "CHR ''/''" b d] by (simp add: get_basename_def)

section \<open>Properties\<close>

text \<open>A disk for the witnesses: one file \<open>/tmp/a\<close> that holds \<open>hi\<close>.\<close>

definition demo_ram :: ramfs where
  "demo_ram = snd (ramfs_create_file ''/tmp/a'' ''hi'' (ramfs_init []))"

definition demo_kmem :: kmem where
  "demo_kmem = \<lparr>heap_pos = 0, fobjs = (\<lambda>_. zero_file)\<rparr>"

lemma init_Cons: "ramfs_init fs = zero_ramfs_file # replicate 15 zero_ramfs_file"
  by (simp add: ramfs_init_def MAX_FILES_def numeral_eq_Suc)

lemma demo_ram_eq:
  "demo_ram = zero_ramfs_file\<lparr>used := True, rf_path := ''/tmp/a'', content := mwrite (\<lambda>_. NUL) 0 (''hi'' @ [NUL]),
     rf_size := 2\<rparr> # replicate 15 zero_ramfs_file"
  by (simp add: demo_ram_def ramfs_create_file_def init_Cons Let_def zero_ramfs_file_def MAX_PATH_def MAX_CONTENT_def)

lemma demo_ram_simps:
  "length demo_ram = 16" "used (demo_ram ! 0)" "rf_path (demo_ram ! 0) = ''/tmp/a''" "rf_size (demo_ram ! 0) = 2"
  "rf_bytes (demo_ram ! 0) = ''hi''"
  by (simp_all add: demo_ram_eq rf_bytes_def mread_def mwrite_def mcopy_def upt_rec)

lemma demo_ram_rest: "i < 16 \<Longrightarrow> i \<noteq> 0 \<Longrightarrow> demo_ram ! i = zero_ramfs_file"
  by (cases i) (simp_all add: demo_ram_eq)

lemma demo_ram_inv: "ramfs_inv demo_ram" "ram_uniq demo_ram"
proof -
  show "ramfs_inv demo_ram"
    by (auto simp: ramfs_inv_def demo_ram_eq zero_ramfs_file_def MAX_FILES_def MAX_PATH_def MAX_CONTENT_def)
  have "i = 0" if "i < 16" "used (demo_ram ! i)" for i
    using that demo_ram_rest [of i] by (cases "i = 0") (auto simp: zero_ramfs_file_def)
  then show "ram_uniq demo_ram"
    unfolding ram_uniq_def demo_ram_simps(1) by blast
qed

lemma demo_ram_free: "first_idx (\<lambda>rf. \<not> used rf) demo_ram = Some 1"
  by (simp add: demo_ram_eq numeral_eq_Suc zero_ramfs_file_def)

lemma demo_ram_lookup: "ram_lookup demo_ram ''/tmp/b'' = None" "ram_find ''/tmp/a'' demo_ram = Some 0"
proof -
  have "rf_path (demo_ram ! i) \<noteq> ''/tmp/b''" if "i < 16" "used (demo_ram ! i)" for i
    using that demo_ram_rest [of i] demo_ram_simps(3) by (cases "i = 0") (auto simp: zero_ramfs_file_def)
  then show "ram_lookup demo_ram ''/tmp/b'' = None"
    by (simp add: ram_lookup_def ram_find_None_iff demo_ram_simps(1))
  show "ram_find ''/tmp/a'' demo_ram = Some 0"
    using demo_ram_inv demo_ram_simps by (simp add: ram_find_iff)
qed

text \<open>C20: what is written to a file of the RAM disk is what a later read at the same position gives back, through any
  file object for that file; the write moves the position by the length and keeps the disk well formed.\<close>

theorem ramfs_write_read:
  assumes "ramfs_inv fs" "ram_file_ok fs file i" "unat (f_pos file) \<le> unat (rf_size (fs ! i))"
    and "unat (f_pos file) + length buf \<le> MAX_CONTENT"
    and "private_data g = Ram i" "f_pos g = f_pos file"
  shows "\<exists>fs'. ramfs_write file buf (of_nat (length buf)) fs
        = Some (int (length buf), file\<lparr>f_pos := f_pos file + of_nat (length buf)\<rparr>, fs')
    \<and> ramfs_inv fs' \<and> ramfs_read g (of_nat (length buf)) fs'
        = Some (int (length buf), buf, g\<lparr>f_pos := f_pos g + of_nat (length buf)\<rparr>)"
proof -
  have len: "unat (of_nat (length buf) :: u64) = length buf"
    using assms(4) by (simp add: unat_of_nat MAX_CONTENT_def)
  have small: "length buf \<le> 2 ^ 63" using assms(4) by (simp add: MAX_CONTENT_def)
  have t: "take (min (length buf) (MAX_CONTENT - unat (f_pos file))) buf = buf"
    using assms(4) by simp
  from ramfs_write_spec [OF assms(1-3), of "of_nat (length buf)" buf] obtain rf where
    w: "ramfs_write file buf (of_nat (length buf)) fs
      = Some (int (length buf), file\<lparr>f_pos := f_pos file + of_nat (length buf)\<rparr>, fs[i := rf])"
    and inv: "ramfs_inv (fs[i := rf])"
    and b: "rf_bytes rf = take (unat (f_pos file)) (rf_bytes (fs ! i)) @ buf
       @ drop (unat (f_pos file) + length buf) (rf_bytes (fs ! i))"
    unfolding len t using small by auto
  have i: "i < length fs" using assms(2) by (simp add: ram_file_ok_def)
  have ok: "ram_file_ok (fs[i := rf]) g i"
    using assms(2,5,6) by (simp add: ram_file_ok_def)
  have r: "take (length buf) (drop (unat (f_pos g)) (rf_bytes (fs[i := rf] ! i))) = buf"
    using i assms(3,6) by (simp add: b)
  from ramfs_read_spec [OF inv ok, of "of_nat (length buf)"] w inv show ?thesis
    unfolding len r using small by simp
qed

theorem ramfs_write_read_witness:
  "\<exists>fs'. ramfs_write (zero_file\<lparr>private_data := Ram 0, f_pos := 2\<rparr>) '' there'' 6 demo_ram
      = Some (6, zero_file\<lparr>private_data := Ram 0, f_pos := 8\<rparr>, fs')
    \<and> ramfs_read (zero_file\<lparr>private_data := Ram 0, f_pos := 2\<rparr>) 6 fs'
      = Some (6, '' there'', zero_file\<lparr>private_data := Ram 0, f_pos := 8\<rparr>)"
  using ramfs_write_read [OF demo_ram_inv(1), of "zero_file\<lparr>private_data := Ram 0, f_pos := 2\<rparr>" 0 "'' there''"
      "zero_file\<lparr>private_data := Ram 0, f_pos := 2\<rparr>"]
  by (auto simp: ram_file_ok_def demo_ram_simps MAX_CONTENT_def)

text \<open>C21: while paths are unique the RAM disk is a map from paths to contents: creating a new path adds it with
  empty contents and changes no other entry, and unlinking it then restores the map.\<close>

theorem ramfs_create_then_unlink:
  assumes "ramfs_inv fs" "ram_uniq fs" "take 5 p = ''/tmp/''" "ram_lookup fs p = None"
    and "ramfs_create p fs km = Some (Some a, fs', km')"
  shows "ram_lookup fs' = (ram_lookup fs)(p := Some [])
    \<and> (\<exists>fs''. ramfs_unlink p fs' = (0, fs'') \<and> ram_lookup fs'' = ram_lookup fs)"
proof -
  have add: "ram_add p (fs, km) = Some (fs', km')"
    using assms(5) by (simp add: ram_add_def)
  from ramdisk.add_del [of "(fs, km)" p "(fs', km')"] assms add
  have "\<exists>s''. ram_del p (fs', km') = (0, s'') \<and> ram_lookup (fst s'') = ram_lookup fs" by auto
  moreover from ramdisk.add_lookup [of "(fs, km)" p "(fs', km')"] assms add
  have "ram_lookup fs' = (ram_lookup fs)(p := Some [])" by auto
  ultimately show ?thesis
    by (auto simp: ram_del_def split: prod.splits)
qed

lemma demo_create:
  assumes "take 5 p = ''/tmp/''" "length p < 32"
  shows "\<exists>fs' km'. ramfs_create p demo_ram demo_kmem = Some (Some 0, fs', km')"
  using assms demo_ram_free
  by (simp add: ramfs_create_def demo_kmem_def MAX_PATH_def Let_def new_file_def kalloc_def HEAP_SIZE_def sizeof_vfs_file_def)

theorem ramfs_create_then_unlink_witness:
  "\<exists>fs' km'. ramfs_create ''/tmp/b'' demo_ram demo_kmem = Some (Some 0, fs', km')
    \<and> ram_lookup fs' ''/tmp/b'' = Some [] \<and> (\<exists>fs''. ramfs_unlink ''/tmp/b'' fs' = (0, fs''))"
proof -
  obtain fs' km' where c: "ramfs_create ''/tmp/b'' demo_ram demo_kmem = Some (Some 0, fs', km')"
    using demo_create [of "''/tmp/b''"] by auto
  from ramfs_create_then_unlink [OF demo_ram_inv _ demo_ram_lookup(1) c] c show ?thesis by auto
qed

text \<open>the RAM disk does not check whether a path exists. Creating a path that is in use succeeds and leaves two
  files under the same path, of which an open only ever finds the one in the earlier slot.\<close>

theorem ramfs_create_duplicates:
  assumes "take 5 p = ''/tmp/''" "ram_find p fs = Some j" "ramfs_create p fs km = Some (Some a, fs', km')"
  shows "\<exists>i. i \<noteq> j \<and> i < length fs' \<and> used (fs' ! i) \<and> rf_path (fs' ! i) = p
    \<and> used (fs' ! j) \<and> rf_path (fs' ! j) = p \<and> fs' ! j = fs ! j \<and> ram_find p fs' = Some (min i j)"
  using assms(3)
proof (rule ramfs_create_Some)
  fix i rf
  assume i: "first_idx (\<lambda>rf. \<not> used rf) fs = Some i"
    and rf: "fs' = fs[i := rf]" "used rf" "rf_path rf = tmp_path p"
  have p: "tmp_path p = p" using assms(1) by (simp add: tmp_path_def)
  have free: "i < length fs" "\<not> used (fs ! i)" using first_idx_SomeD [OF i] by blast+
  have j: "j < length fs" "used (fs ! j)" "rf_path (fs ! j) = p"
    "\<And>k. k < j \<Longrightarrow> used (fs ! k) \<Longrightarrow> rf_path (fs ! k) \<noteq> p"
    using assms(2) unfolding ram_find_def first_idx_Some_iff by blast+
  have ij: "i \<noteq> j" using free j by auto
  have at: "used (fs' ! i)" "rf_path (fs' ! i) = p" "fs' ! j = fs ! j"
    using free ij rf p by simp_all
  have "used (fs' ! min i j) \<and> rf_path (fs' ! min i j) = p"
    using at j by (simp add: min_def)
  moreover have "\<not> (used (fs' ! k) \<and> rf_path (fs' ! k) = p)" if "k < min i j" for k
    using that j(4) [of k] by (simp add: rf(1))
  moreover have "min i j < length fs'" using free j rf(1) by simp
  ultimately have "ram_find p fs' = Some (min i j)"
    unfolding ram_find_def first_idx_Some_iff by blast
  with ij at j free rf(1) show ?thesis by (intro exI [of _ i]) simp
qed

theorem ramfs_create_duplicates_witness:
  "\<exists>fs' km' i. ramfs_create ''/tmp/a'' demo_ram demo_kmem = Some (Some 0, fs', km')
    \<and> i \<noteq> 0 \<and> rf_path (fs' ! i) = ''/tmp/a'' \<and> ram_find ''/tmp/a'' fs' = Some 0"
proof -
  obtain fs' km' where c: "ramfs_create ''/tmp/a'' demo_ram demo_kmem = Some (Some 0, fs', km')"
    using demo_create [of "''/tmp/a''"] by auto
  from ramfs_create_duplicates [OF _ demo_ram_lookup(2) c] c show ?thesis by auto
qed

text \<open>a listing of \<open>/tmp\<close> with room for all files holds \<open>.\<close>, \<open>..\<close> and exactly the names of the files directly
  in that directory.\<close>

theorem ramfs_read_dir_tmp:
  assumes "length fs + 2 \<le> max_entries"
  shows "d_name ` set (ramfs_read_dir ''/tmp'' max_entries fs)
    = {''.'', ''..''} \<union> {b. CHR ''/'' \<notin> set b \<and> (\<exists>rf. rf \<in> set fs \<and> used rf \<and> rf_path rf = ''/tmp/'' @ b)}"
proof -
  let ?es = "filter (\<lambda>(j, rf). used rf \<and> is_file_in_dir (rf_path rf) ''/tmp'') (enumerate 0 fs)"
  let ?d = "\<lambda>(j, rf). \<lparr>d_inode = of_nat (j + 2), d_name = get_basename (rf_path rf)\<rparr> :: dirent"
  have "length ?es \<le> length fs" using length_filter_le [of _ "enumerate 0 fs"] by simp
  then have "set (ramfs_read_dir ''/tmp'' max_entries fs)
      = {\<lparr>d_inode = 1, d_name = ''.''\<rparr>, \<lparr>d_inode = 1, d_name = ''..''\<rparr>} \<union> ?d ` set ?es"
    using assms unfolding ramfs_read_dir_def ramfs_dir_loop_eq by simp
  moreover have "(\<lambda>x. d_name (?d x)) ` set ?es
      = {b. CHR ''/'' \<notin> set b \<and> (\<exists>rf. rf \<in> set fs \<and> used rf \<and> rf_path rf = ''/tmp/'' @ b)}" (is "?l = ?r")
  proof (intro set_eqI iffI)
    fix b assume "b \<in> ?l"
    then obtain j rf where jr: "(j, rf) \<in> set (enumerate 0 fs)" "used rf" "is_file_in_dir (rf_path rf) ''/tmp''"
      "b = get_basename (rf_path rf)" by auto
    then obtain c where c: "rf_path rf = ''/tmp/'' @ c" "CHR ''/'' \<notin> set c"
      unfolding is_file_in_dir_tmp by blast
    with jr(4) get_basename_join [of c "''/tmp''"] have "b = c" by simp
    moreover have "rf \<in> set fs" using jr(1) by (auto simp: in_set_enumerate_eq)
    ultimately show "b \<in> ?r" using c jr(2) by blast
  next
    fix b assume "b \<in> ?r"
    then obtain rf where rf: "CHR ''/'' \<notin> set b" "rf \<in> set fs" "used rf" "rf_path rf = ''/tmp/'' @ b" by blast
    then obtain j where "j < length fs" "fs ! j = rf" by (metis in_set_conv_nth)
    then have "(j, rf) \<in> set (enumerate 0 fs)" by (simp add: in_set_enumerate_eq)
    moreover have "is_file_in_dir (rf_path rf) ''/tmp''" using rf unfolding is_file_in_dir_tmp by blast
    ultimately have "(j, rf) \<in> set ?es" using rf(3) by simp
    then show "b \<in> ?l"
      using get_basename_join [OF rf(1), of "''/tmp''"] rf(4) by force
  qed
  ultimately show ?thesis by (auto simp: image_image)
qed

theorem ramfs_read_dir_tmp_witness:
  "''a'' \<in> d_name ` set (ramfs_read_dir ''/tmp'' 32 demo_ram)"
  unfolding ramfs_read_dir_tmp [of demo_ram 32, simplified demo_ram_simps, simplified]
  using demo_ram_simps nth_mem [of 0 demo_ram] by (auto intro!: exI [of _ "demo_ram ! 0"])


lemma path_match_iff:
  "length a < n \<Longrightarrow> NUL \<notin> set a \<Longrightarrow> NUL \<notin> set b \<Longrightarrow> path_match n a b \<longleftrightarrow> a = b"
proof (induction n a b rule: path_match.induct)
  case (2 n a b)
  then show ?case by (cases a; cases b) auto
qed simp

lemma copy_out_string:
  assumes "NUL \<notin> set s" "c + length s < MAX_CONTENT" "\<And>k. k < length s \<Longrightarrow> m (c + k) = s ! k" "m (c + length s) = NUL"
    and "length s < r"
  shows "copy_out m c r = Some (c + length s, s @ [NUL])"
  using assms
proof (induction s arbitrary: c r)
  case Nil
  then show ?case by (cases r) auto
next
  case (Cons x s)
  then obtain r' where r: "r = Suc r'" by (cases r) auto
  have "m c = x" using Cons.prems(3) [of 0] by simp
  moreover have "copy_out m (Suc c) r' = Some (Suc c + length s, s @ [NUL])"
  proof (rule Cons.IH)
    show "m (Suc c + k) = s ! k" if "k < length s" for k
      using Cons.prems(3) [of "Suc k"] that by simp
  qed (use Cons.prems r in auto)
  moreover have "x \<noteq> NUL" "c < MAX_CONTENT" using Cons.prems by auto
  ultimately show ?case by (simp add: r)
qed

text \<open>a file made from a path and a text reads back as that text, when the path is new and fits its 31 bytes,
  the text fits its 4095 bytes, and a slot is free.\<close>

theorem ramfs_create_file_read_file:
  assumes "first_idx (\<lambda>rf. \<not> used rf) fs = Some i" "list_all (\<lambda>rf. NUL \<notin> set (rf_path rf) \<and> length (rf_path rf) < MAX_PATH) fs"
    and "ram_find p fs = None" "NUL \<notin> set p" "length p < MAX_PATH"
    and "NUL \<notin> set text" "length text < MAX_CONTENT" "length text < max_len"
  shows "\<exists>fs'. ramfs_create_file p text fs = (0, fs') \<and> ramfs_read_file p max_len fs' = Some (int (length text), text @ [NUL])"
proof -
  have free: "i < length fs" "\<not> used (fs ! i)" using first_idx_SomeD [OF assms(1)] by blast+
  define rf where "rf = (fs ! i)\<lparr>used := True, rf_path := p, content := mwrite (content (fs ! i)) 0 (text @ [NUL]),
    rf_size := of_nat (length text)\<rparr>"
  have c: "ramfs_create_file p text fs = (0, fs[i := rf])"
    using assms(1,5,7) by (simp add: ramfs_create_file_def rf_def Let_def)
  have "first_idx (\<lambda>rf. used rf \<and> path_match MAX_PATH (rf_path rf) p) (fs[i := rf]) = Some i"
    unfolding first_idx_Some_iff
  proof (intro conjI allI impI)
    show "path_match MAX_PATH (rf_path (fs[i := rf] ! i)) p"
      using free assms(4,5) by (simp add: path_match_iff rf_def)
    fix k assume "k < i"
    then have "used (fs ! k) \<longrightarrow> rf_path (fs ! k) \<noteq> p" "NUL \<notin> set (rf_path (fs ! k))" "length (rf_path (fs ! k)) < MAX_PATH"
      using assms(2,3) free(1) unfolding ram_find_None_iff list_all_length by auto
    then show "\<not> (used (fs[i := rf] ! k) \<and> path_match MAX_PATH (rf_path (fs[i := rf] ! k)) p)"
      using \<open>k < i\<close> assms(4) by (simp add: path_match_iff)
  qed (use free in \<open>simp_all add: rf_def\<close>)
  moreover have "copy_out (content rf) 0 max_len = Some (0 + length text, text @ [NUL])"
    using assms(6-8) by (intro copy_out_string) (auto simp: rf_def mwrite_def mcopy_def nth_append)
  ultimately show ?thesis
    using c free by (simp add: ramfs_read_file_def)
qed

theorem ramfs_create_file_read_file_witness:
  "\<exists>fs'. ramfs_create_file ''/tmp/b'' ''text'' demo_ram = (0, fs')
    \<and> ramfs_read_file ''/tmp/b'' 64 fs' = Some (4, ''text'' @ [NUL])"
proof -
  have "list_all (\<lambda>rf. NUL \<notin> set (rf_path rf) \<and> length (rf_path rf) < MAX_PATH) demo_ram"
    by (simp add: demo_ram_eq zero_ramfs_file_def MAX_PATH_def list_all_iff)
  moreover have "ram_find ''/tmp/b'' demo_ram = None"
    using demo_ram_lookup(1) by (simp add: ram_lookup_def)
  ultimately show ?thesis
    using ramfs_create_file_read_file [OF demo_ram_free, of "''/tmp/b''" "''text''" 64]
    by (simp add: MAX_PATH_def MAX_CONTENT_def)
qed

text \<open>the 32-byte path arrays are never checked: creating a file whose full path has 32 or more characters, or a
  directory whose path does while a slot is free, writes past the array. The virtual file system passes
  paths of up to 255 characters.\<close>

theorem ramfs_path_overflow:
  "(ramfs_create p fs km = None \<longleftrightarrow> 32 \<le> length (if take 5 p = ''/tmp/'' then p else ''/tmp/'' @ p))
    \<and> (ramfs_mkdir p fs = None \<longleftrightarrow> list_ex (\<lambda>rf. \<not> used rf) fs \<and> 32 \<le> length p)"
proof -
  have "ramfs_create p fs km = None \<longleftrightarrow> 32 \<le> length (if take 5 p = ''/tmp/'' then p else ''/tmp/'' @ p)"
    by (simp add: ramfs_create_def into_buf_def MAX_PATH_def Let_def split: option.split prod.split)
  moreover have "first_idx (\<lambda>rf. \<not> used rf) fs \<noteq> None \<longleftrightarrow> list_ex (\<lambda>rf. \<not> used rf) fs"
    unfolding first_idx_None_iff list_ex_iff by blast
  then have "ramfs_mkdir p fs = None \<longleftrightarrow> list_ex (\<lambda>rf. \<not> used rf) fs \<and> 32 \<le> length p"
    by (auto simp: ramfs_mkdir_def into_buf_def MAX_PATH_def split: option.splits)
  ultimately show ?thesis by blast
qed


end
