(* ===== verification/Abyss_Dir.thy ===== *)
theory Abyss_Dir
  imports Abyss_Layout
begin

text \<open>
  Directory blocks as association lists. \<open>dir_at m p b es\<close> says that the bytes from \<open>p\<close> up to \<open>b\<close> hold the
  records of \<open>es\<close> (names with their inode numbers), each as short as its name allows except the
  last one, and then an empty record. The walks of the code are shown to compute on \<open>es\<close>, and the two updates
  to append to it and to remove from it.
\<close>

section \<open>Record sizes\<close>

definition esize :: "string \<Rightarrow> nat" where
  "esize s = 4 * ((length s + 10) div 4)"

definition name_ok :: "string \<Rightarrow> bool" where
  "name_ok s \<longleftrightarrow> NUL \<notin> set s \<and> length s \<le> 245"

lemma and_not_mask: "w AND NOT (mask n) = push_bit n (drop_bit n (w::u8))"
  by (rule bit_word_eqI) (auto simp: bit_simps)

lemma unat_and_not_mask2: "unat (w AND NOT (mask 2) :: u8) = unat w div 4 * 4"
proof -
  have "unat w < 256" using unsigned_less [where 'a = nat, of w] by simp
  then have "unat w div 4 * 4 < 256" by presburger
  then have "unat (w div 4 * 4) = unat w div 4 * 4"
    by (simp add: unat_word_ariths unat_div)
  then show ?thesis
    unfolding and_not_mask push_bit_eq_mult drop_bit_eq_div by simp
qed

lemma round_up_4: "unat (round_up w 4) = (unat w + 3) mod 256 div 4 * 4"
proof -
  have "round_up w 4 = (w + 3) AND NOT (mask 2)"
    by (simp add: round_up_def mask_eq_exp_minus_1 algebra_simps)
  then show ?thesis by (simp only: unat_and_not_mask2) (simp add: unat_word_ariths)
qed

lemma rec_size_exact: "rec_size n = ((n + 7) mod 256 + 3) mod 256 div 4 * 4"
proof -
  have "unat (of_nat (6 + n + 1) :: u8) = (n + 7) mod 256" by (simp only: unat_of_nat) (simp add: add.commute)
  then show ?thesis by (simp only: rec_size_def round_up_4 ABYSSFS_DIR_ENTRY_FIXED_SIZE_def)
qed

lemma rec_size_esize: "name_ok s \<Longrightarrow> rec_size (length s) = esize s"
  by (simp add: rec_size_exact esize_def name_ok_def)

lemma esize_bounds: "length s + 7 \<le> esize s" "0 < esize s"
  by (simp_all add: esize_def)

lemma esize_le: "name_ok s \<Longrightarrow> esize s \<le> 252"
  using div_le_mono [of "length s + 10" 255 4] by (simp add: esize_def name_ok_def)

lemma of_char_char_of [simp]: "n < 256 \<Longrightarrow> of_char (char_of n :: char) = (n :: nat)"
  by simp

section \<open>Directories as lists\<close>

type_synonym dir = "(string \<times> u32) list"

primrec dir_at :: "mem \<Rightarrow> nat \<Rightarrow> nat \<Rightarrow> dir \<Rightarrow> bool" where
  "dir_at m p b [] \<longleftrightarrow> p + 6 \<le> b \<and> de_rec_len m p = 0"
| "dir_at m p b (e # es) \<longleftrightarrow> name_ok (fst e) \<and> de_inode m p = snd e \<and> de_name_len m p = length (fst e)
     \<and> cstr m (p + 6) (fst e)
     \<and> (if es = [] then esize (fst e) \<le> de_rec_len m p else de_rec_len m p = esize (fst e))
     \<and> dir_at m (p + de_rec_len m p) b es"

definition dsum :: "dir \<Rightarrow> nat" where
  "dsum es = sum_list (map (\<lambda>e. esize (fst e)) es)"

lemma dsum_simps [simp]:
  "dsum [] = 0" "dsum (e # es) = esize (fst e) + dsum es" "dsum (es @ fs) = dsum es + dsum fs"
  by (simp_all add: dsum_def)

lemma dir_at_bound: "dir_at m p b es \<Longrightarrow> p + dsum es + 6 \<le> b"
  by (induction es arbitrary: p) (fastforce split: if_splits)+

lemma dir_at_rec_pos: "dir_at m p b (e # es) \<Longrightarrow> esize (fst e) \<le> de_rec_len m p \<and> 0 < de_rec_len m p"
  using esize_bounds(2) [of "fst e"] by (auto split: if_splits)

lemma dir_at_entry_bound: "dir_at m p b (e # es) \<Longrightarrow> p + de_rec_len m p + 6 \<le> b"
  using dir_at_bound by fastforce

lemma dir_at_cong:
  assumes "\<And>a. p \<le> a \<Longrightarrow> a < b \<Longrightarrow> m' a = m a"
  shows "dir_at m p b es \<Longrightarrow> dir_at m' p b es"
  using assms
proof (induction es arbitrary: p)
  case Nil
  then show ?case by (auto simp: de_rec_len_def)
next
  case (Cons e es)
  have bnd: "p + de_rec_len m p + 6 \<le> b" "length (fst e) + 7 \<le> de_rec_len m p"
    using dir_at_entry_bound [OF Cons.prems(1)] dir_at_rec_pos [OF Cons.prems(1)] esize_bounds(1) [of "fst e"] by auto
  have same: "m' (p + k) = m (p + k)" if "k < de_rec_len m p" for k
    using Cons.prems(2) bnd that by simp
  have f: "de_rec_len m' p = de_rec_len m p" "de_name_len m' p = de_name_len m p" "de_inode m' p = de_inode m p"
    using same [of 0] same [of 1] same [of 2] same [of 3] same [of 4] same [of 5] bnd
    by (auto simp: de_rec_len_def de_name_len_def de_inode_def intro!: ld32_cong)
  have "cstr m' (p + 6) (fst e)"
    by (rule cstr_cong [of m]) (use Cons.prems bnd in auto)
  moreover have "dir_at m' (p + de_rec_len m p) b es"
    by (rule Cons.IH) (use Cons.prems in auto)
  ultimately show ?case using Cons.prems(1) by (simp add: f)
qed

lemma dir_at_split: "dir_at m p b (us @ e # vs) \<Longrightarrow> dir_at m (p + dsum us) b (e # vs)"
proof (induction us arbitrary: p)
  case Nil
  then show ?case by simp
next
  case (Cons u us)
  then have "dir_at m (p + esize (fst u)) b (us @ e # vs)" by (auto split: if_splits)
  from Cons.IH [OF this] show ?case by (simp only: dsum_simps add.assoc)
qed

text \<open>Rewriting the end of a directory.\<close>

lemma dir_at_replace:
  assumes "dir_at m p b (us @ ws)" "ws \<noteq> []" "\<And>a. p \<le> a \<Longrightarrow> a < p + dsum us \<Longrightarrow> m' a = m a"
    and "dir_at m' (p + dsum us) b zs"
  shows "dir_at m' p b (us @ zs)"
  using assms
proof (induction us arbitrary: p)
  case Nil
  then show ?case by simp
next
  case (Cons e us)
  have r: "de_rec_len m p = esize (fst e)" using Cons.prems(1,2) by simp
  have bnd: "length (fst e) + 7 \<le> esize (fst e)" by (rule esize_bounds)
  have same: "m' (p + k) = m (p + k)" if "k < esize (fst e)" for k
    using Cons.prems(3) that by simp
  have f: "de_rec_len m' p = de_rec_len m p" "de_name_len m' p = de_name_len m p" "de_inode m' p = de_inode m p"
    using same [of 0] same [of 1] same [of 2] same [of 3] same [of 4] same [of 5] bnd
    by (auto simp: de_rec_len_def de_name_len_def de_inode_def intro!: ld32_cong)
  have "cstr m' (p + 6) (fst e)"
    by (rule cstr_cong [of m]) (use Cons.prems bnd in auto)
  moreover have "dir_at m' (p + esize (fst e)) b (us @ zs)"
    by (rule Cons.IH) (use Cons.prems r in \<open>auto simp: add.assoc\<close>)
  ultimately show ?case using Cons.prems(1) r by (simp add: f)
qed

section \<open>The walks\<close>

lemma streq_at_cstr:
  "cstr m a t \<Longrightarrow> a + length t < DISK_SIZE \<Longrightarrow> NUL \<notin> set s \<Longrightarrow> streq_at m a s = Some (t = s)"
proof (induction s arbitrary: a t)
  case Nil
  then show ?case by (cases t) auto
next
  case (Cons c s)
  show ?case
  proof (cases t)
    case Nil
    with Cons.prems show ?thesis by auto
  next
    case t: (Cons d u)
    with Cons.prems Cons.IH [of "Suc a" u] show ?thesis by auto
  qed
qed

declare dir_find.simps [simp del] dir_end.simps [simp del]

lemma dir_find_None:
  "dir_at m p b es \<Longrightarrow> b \<le> DISK_SIZE \<Longrightarrow> NUL \<notin> set s \<Longrightarrow> s \<notin> fst ` set es \<Longrightarrow> dir_find m p s = Some None"
proof (induction es arbitrary: p)
  case Nil
  then show ?case by (subst dir_find.simps) (simp add: ABYSSFS_DIR_ENTRY_FIXED_SIZE_def)
next
  case (Cons e es)
  have bnd: "p + de_rec_len m p + 6 \<le> b" "esize (fst e) \<le> de_rec_len m p" "0 < de_rec_len m p"
    using dir_at_entry_bound [OF Cons.prems(1)] dir_at_rec_pos [OF Cons.prems(1)] by auto
  have "streq_at m (p + 6) s = Some (fst e = s)"
    by (rule streq_at_cstr) (use Cons.prems bnd esize_bounds(1) [of "fst e"] in auto)
  moreover have "fst e \<noteq> s" using Cons.prems(4) by auto
  moreover have "dir_find m (p + de_rec_len m p) s = Some None"
    by (rule Cons.IH) (use Cons.prems in auto)
  ultimately show ?case
    using Cons.prems(2) bnd by (subst dir_find.simps) (simp add: ABYSSFS_DIR_ENTRY_FIXED_SIZE_def)
qed

lemma dir_find_Some:
  "dir_at m p b (us @ e # vs) \<Longrightarrow> b \<le> DISK_SIZE \<Longrightarrow> NUL \<notin> set (fst e) \<Longrightarrow> fst e \<notin> fst ` set us \<Longrightarrow>
     dir_find m p (fst e) = Some (Some (p + dsum us))"
proof (induction us arbitrary: p)
  case Nil
  have bnd: "p + de_rec_len m p + 6 \<le> b" "esize (fst e) \<le> de_rec_len m p" "0 < de_rec_len m p"
    using dir_at_entry_bound [of m p b e vs] dir_at_rec_pos [of m p b e vs] Nil.prems by auto
  have "streq_at m (p + 6) (fst e) = Some (fst e = fst e)"
    by (rule streq_at_cstr) (use Nil.prems bnd esize_bounds(1) [of "fst e"] in auto)
  then show ?case
    using Nil.prems bnd by (subst dir_find.simps) (simp add: ABYSSFS_DIR_ENTRY_FIXED_SIZE_def)
next
  case (Cons u us)
  have d: "dir_at m p b (u # us @ e # vs)" using Cons.prems(1) by (simp only: append_Cons)
  have r: "de_rec_len m p = esize (fst u)" using d by simp
  from d have "dir_at m (p + de_rec_len m p) b (us @ e # vs)" unfolding dir_at.simps by blast
  then have nxt: "dir_at m (p + esize (fst u)) b (us @ e # vs)" by (simp only: r)
  have bnd: "p + de_rec_len m p + 6 \<le> b" "0 < esize (fst u)" "length (fst u) + 7 \<le> esize (fst u)"
    using dir_at_entry_bound [OF d] esize_bounds by auto
  have "streq_at m (p + 6) (fst e) = Some (fst u = fst e)"
    by (rule streq_at_cstr) (use d Cons.prems r bnd in auto)
  moreover have "fst u \<noteq> fst e" using Cons.prems(4) by auto
  moreover have "dir_find m (p + esize (fst u)) (fst e) = Some (Some (p + esize (fst u) + dsum us))"
    by (rule Cons.IH [OF nxt]) (use Cons.prems in auto)
  ultimately show ?case
    using Cons.prems(2) r bnd by (subst dir_find.simps) (simp add: ABYSSFS_DIR_ENTRY_FIXED_SIZE_def add.assoc)
qed

lemma map_of_split: "map_of (es :: (string \<times> u32) list) s = Some i \<Longrightarrow> \<exists>us vs. es = us @ (s, i) # vs \<and> s \<notin> fst ` set us"
proof (induction es)
  case (Cons e es)
  show ?case
  proof (cases "fst e = s")
    case True
    with Cons.prems have "e # es = [] @ (s, i) # es" "s \<notin> fst ` set ([] :: (string \<times> u32) list)" by (cases e; simp)+
    then show ?thesis by blast
  next
    case False
    with Cons obtain us vs where "es = us @ (s, i) # vs" "s \<notin> fst ` set us" by (auto split: if_splits)
    with False show ?thesis by (intro exI [of _ "e # us"] exI [of _ vs]) auto
  qed
qed simp

lemma dir_find_map_of:
  assumes "dir_at m p b es" "b \<le> DISK_SIZE" "NUL \<notin> set s"
  shows "case map_of es s of None \<Rightarrow> dir_find m p s = Some None
    | Some i \<Rightarrow> \<exists>q. dir_find m p s = Some (Some q) \<and> de_inode m q = i"
proof (cases "map_of es s")
  case None
  then have "s \<notin> fst ` set es" by (simp add: map_of_eq_None_iff)
  with assms None show ?thesis by (simp add: dir_find_None)
next
  case (Some i)
  from map_of_split [OF Some] obtain us vs where es: "es = us @ (s, i) # vs" "s \<notin> fst ` set us" by blast
  have "dir_at m (p + dsum us) b ((s, i) # vs)"
    using assms(1) unfolding es(1) by (rule dir_at_split)
  then have "de_inode m (p + dsum us) = i" by simp
  moreover have "dir_find m p (fst (s, i)) = Some (Some (p + dsum us))"
    using assms es by (intro dir_find_Some) auto
  ultimately show ?thesis using Some by simp
qed

lemma dir_end_at:
  "dir_at m p b (us @ [e]) \<Longrightarrow> b \<le> DISK_SIZE \<Longrightarrow>
     \<exists>q. dir_end m b prev p = Some (Some (p + dsum us), q)"
proof (induction us arbitrary: p prev)
  case Nil
  then have d: "dir_at m p b [e]" by simp
  have bnd: "p + de_rec_len m p + 6 \<le> b" "0 < de_rec_len m p" "de_rec_len m (p + de_rec_len m p) = 0"
    using dir_at_entry_bound [OF d] dir_at_rec_pos [OF d] d by auto
  have "dir_end m b (Some p) (p + de_rec_len m p) = Some (Some p, p + de_rec_len m p)"
    using Nil.prems(2) bnd by (subst dir_end.simps) (simp add: ABYSSFS_DIR_ENTRY_FIXED_SIZE_def)
  then show ?case
    using Nil.prems(2) bnd by (subst dir_end.simps) (simp add: ABYSSFS_DIR_ENTRY_FIXED_SIZE_def)
next
  case (Cons u us)
  have d: "dir_at m p b (u # us @ [e])" using Cons.prems(1) by (simp only: append_Cons)
  have r: "de_rec_len m p = esize (fst u)" using d by simp
  from d have "dir_at m (p + de_rec_len m p) b (us @ [e])" unfolding dir_at.simps by blast
  then have nxt: "dir_at m (p + esize (fst u)) b (us @ [e])" by (simp only: r)
  have bnd: "p + de_rec_len m p + 6 \<le> b" "0 < esize (fst u)"
    using dir_at_entry_bound [OF d] esize_bounds by auto
  from Cons.IH [OF nxt Cons.prems(2), of "Some p"] show ?case
    using Cons.prems(2) r bnd by (subst dir_end.simps) (simp add: ABYSSFS_DIR_ENTRY_FIXED_SIZE_def add.assoc)
qed

section \<open>The updates\<close>

lemma write_entry_spec:
  assumes "name_ok s" "e + esize s \<le> DISK_SIZE"
  obtains m' where "write_entry e s i m = Some m'" "de_inode m' e = i" "de_name_len m' e = length s"
    "de_rec_len m' e = esize s" "cstr m' (e + 6) s" "\<And>a. a < e \<or> e + esize s \<le> a \<Longrightarrow> m' a = m a"
    "\<And>a. e + 7 + length s \<le> a \<Longrightarrow> m' a = m a"
proof -
  define m2 where "m2 = (st32 m e i)(e + 4 := char_of (length s), e + 5 := char_of (esize s))"
  define m' where "m' = (mwrite m2 (e + 6) s)(e + 6 + length s := NUL)"
  have len: "length s mod 256 = length s" using assms(1) by (simp add: name_ok_def)
  have b: "length s + 7 \<le> esize s" "esize s < 256"
    using esize_bounds [of s] esize_le [OF assms(1)] by auto
  have "write_entry e s i m = Some m'"
    unfolding write_entry_def Let_def len rec_size_esize [OF assms(1)] m2_def m'_def
    using assms(2) b by (simp add: ABYSSFS_DIR_ENTRY_FIXED_SIZE_def)
  moreover have at: "m' a = (if a = e + 6 + length s then NUL else if e + 6 \<le> a \<and> a < e + 6 + length s then s ! (a - (e + 6))
      else m2 a)" for a
    by (auto simp: m'_def mwrite_def mcopy_def)
  have "de_inode m' e = ld32 m2 e"
    unfolding de_inode_def by (rule ld32_cong) (simp_all add: at)
  then have "de_inode m' e = i" by (simp add: m2_def ld32_upd_out)
  moreover have "de_name_len m' e = length s" "de_rec_len m' e = esize s"
    using b assms(1) by (simp_all add: de_name_len_def de_rec_len_def at m2_def name_ok_def)
  moreover have "cstr m' (e + 6) s"
    using assms(1) by (simp add: cstr_iff at name_ok_def)
  moreover have "m' a = m a" if "a < e \<or> e + esize s \<le> a" for a
    using that b by (auto simp: at m2_def st32_out)
  moreover have "m' a = m a" if "e + 7 + length s \<le> a" for a
    using that by (auto simp: at m2_def st32_out)
  ultimately show thesis by (rule that)
qed

text \<open>A name is appended: shrinking the last record to its name makes room for the new one.\<close>

lemma dir_append_at:
  assumes d: "dir_at m p (p + BLOCK_SIZE) es" and ne: "es \<noteq> []" and disk: "p + BLOCK_SIZE \<le> DISK_SIZE"
    and ok: "name_ok s" and room: "dsum es + esize s + 6 \<le> BLOCK_SIZE"
  obtains m' where "dir_append p s i m = Some m'" "dir_at m' p (p + BLOCK_SIZE) (es @ [(s, i)])"
    "\<And>a. a < p \<or> p + BLOCK_SIZE \<le> a \<Longrightarrow> m' a = m a"
proof -
  let ?b = "p + BLOCK_SIZE"
  from ne obtain us l where es: "es = us @ [l]" by (metis append_butlast_last_id)
  define q where "q = p + dsum us"
  define e where "e = q + esize (fst l)"
  define m1 where "m1 = mfill (m(q + 5 := char_of (esize (fst l)))) e NUL (?b - e)"
  have dl: "dir_at m q ?b [l]" using d unfolding es q_def by (rule dir_at_split)
  then have l: "name_ok (fst l)" "de_name_len m q = length (fst l)" "cstr m (q + 6) (fst l)" "de_inode m q = snd l"
    by auto
  have b: "length (fst l) + 7 \<le> esize (fst l)" "esize (fst l) < 256"
    using esize_bounds [of "fst l"] esize_le [OF l(1)] by auto
  have e: "e + esize s + 6 \<le> ?b" using room by (simp add: e_def q_def es)
  obtain m' where m': "write_entry e s i m1 = Some m'" "de_inode m' e = i" "de_name_len m' e = length s"
    "de_rec_len m' e = esize s" "cstr m' (e + 6) s" "\<And>a. a < e \<or> e + esize s \<le> a \<Longrightarrow> m' a = m1 a"
    by (rule write_entry_spec [OF ok, of e i m1]) (use e disk in auto)
  from dir_end_at [of m p ?b us l None] d disk obtain z where
    "dir_end m ?b None p = Some (Some q, z)" by (auto simp: es q_def)
  then have app: "dir_append p s i m = Some m'"
    using e m'(1) by (simp add: dir_append_def Let_def l(2) rec_size_esize [OF l(1)] e_def [symmetric] m1_def [symmetric])
  have low: "m' a = (if a = q + 5 then char_of (esize (fst l)) else m a)" if "a < e" for a
    using that m'(6) by (simp add: m1_def mfill_def)
  have "dir_at m' (e + esize s) ?b []"
    using e m'(6) by (simp add: de_rec_len_def m1_def mfill_def)
  then have "dir_at m' e ?b [(s, i)]" using m' ok by simp
  moreover have "de_rec_len m' q = esize (fst l)" "de_name_len m' q = length (fst l)"
    using b low l(2) by (simp_all add: de_rec_len_def de_name_len_def e_def)
  moreover have "de_inode m' q = snd l"
    unfolding l(4) [symmetric] de_inode_def by (rule ld32_cong) (use b low in \<open>simp_all add: e_def\<close>)
  moreover have "cstr m' (q + 6) (fst l)"
    by (rule cstr_cong [OF l(3)]) (use b low in \<open>simp_all add: e_def\<close>)
  ultimately have "dir_at m' q ?b [l, (s, i)]" using l(1) by (simp add: e_def)
  then have new: "dir_at m' (p + dsum us) ?b [l, (s, i)]" by (simp only: q_def)
  have "m' a = m a" if "a < p + dsum us" for a
    using that low [of a] by (simp add: q_def e_def)
  with d have "dir_at m' p ?b (us @ [l, (s, i)])"
    unfolding es by (intro dir_at_replace [OF _ _ _ new]) auto
  moreover have "m' a = m a" if "a < p \<or> ?b \<le> a" for a
    using that e m'(6) [of a] by (auto simp: m1_def mfill_def q_def e_def)
  ultimately show thesis using that [OF app] by (simp add: es)
qed


text \<open>A name is removed: the rest of the block moves down, or the last record is cleared.\<close>

lemma dir_at_mono: "dir_at m p b es \<Longrightarrow> b \<le> b' \<Longrightarrow> dir_at m p b' es"
  by (induction es arbitrary: p) auto

lemma dir_at_shift:
  assumes "dir_at m (q + r) b es" "\<And>a. q \<le> a \<Longrightarrow> a + r < b \<Longrightarrow> m' a = m (a + r)"
  shows "dir_at m' q (b - r) es"
  using assms
proof (induction es arbitrary: q)
  case Nil
  then have "m' (q + 5) = m (q + r + 5)" using Nil.prems(2) [of "q + 5"] by (simp add: ac_simps)
  with Nil show ?case by (auto simp: de_rec_len_def)
next
  case (Cons e es)
  let ?l = "de_rec_len m (q + r)"
  have bnd: "q + r + ?l + 6 \<le> b" "length (fst e) + 7 \<le> ?l"
    using dir_at_entry_bound [OF Cons.prems(1)] dir_at_rec_pos [OF Cons.prems(1)] esize_bounds(1) [of "fst e"] by auto
  have same: "m' (q + k) = m (q + r + k)" if "k < ?l" for k
    using Cons.prems(2) [of "q + k"] bnd that by (simp add: add.commute add.left_commute)
  have f: "de_rec_len m' q = ?l" "de_name_len m' q = de_name_len m (q + r)"
    using same [of 4] same [of 5] bnd by (auto simp: de_rec_len_def de_name_len_def)
  have i: "de_inode m' q = de_inode m (q + r)"
    using same [of 0] same [of 1] same [of 2] same [of 3] bnd by (simp add: de_inode_def ld32_def)
  have "m' (q + 6 + k) = m (q + r + 6 + k)" if "k \<le> length (fst e)" for k
    using same [of "6 + k"] bnd that by (simp add: add.assoc)
  then have "cstr m' (q + 6) (fst e)"
    using Cons.prems(1) by (simp add: cstr_iff)
  moreover have "dir_at m' (q + ?l) (b - r) es"
  proof (rule Cons.IH)
    show "dir_at m (q + ?l + r) b es"
      using Cons.prems(1) unfolding dir_at.simps by (metis add.assoc add.commute)
  qed (use Cons.prems(2) in auto)
  ultimately show ?case
    using Cons.prems(1) unfolding dir_at.simps f i by blast
qed

lemma dir_remove_at:
  assumes d: "dir_at m p b (us @ e # vs)"
    and m': "m' = (if de_rec_len m (q + de_rec_len m q) > 0
      then snd (memmove m q (q + de_rec_len m q) (b - (q + de_rec_len m q))) else mfill m q NUL (de_rec_len m q))"
    and q: "q = p + dsum us"
  shows "dir_at m' p b (us @ vs)" "\<And>a. a < p \<or> b \<le> a \<Longrightarrow> m' a = m a"
proof -
  let ?r = "de_rec_len m q"
  have dq: "dir_at m q b (e # vs)" using d unfolding q by (rule dir_at_split)
  have bnd: "q + ?r + 6 \<le> b" "length (fst e) + 7 \<le> ?r" and dv: "dir_at m (q + ?r) b vs"
    using dir_at_entry_bound [OF dq] dir_at_rec_pos [OF dq] esize_bounds(1) [of "fst e"] dq by auto
  have low: "m' a = m a" if "a < q \<or> b \<le> a" for a
    using that bnd by (auto simp: m' memmove_eq_mcopy mcopy_def mfill_def)
  have "dir_at m' q b vs"
  proof (cases vs)
    case Nil
    with dv have "m' = mfill m q NUL ?r" by (simp add: m')
    then show ?thesis using Nil bnd by (simp add: de_rec_len_def mfill_def)
  next
    case (Cons v vs')
    with dv have "0 < de_rec_len m (q + ?r)" using dir_at_rec_pos by blast
    then have "m' = mcopy m q m (q + ?r) (b - (q + ?r))" by (simp add: m' memmove_eq_mcopy)
    then have "m' a = m (a + ?r)" if "q \<le> a" "a + ?r < b" for a
      using that bnd by (auto simp: mcopy_def intro!: arg_cong [of _ _ m])
    with dv have "dir_at m' q (b - ?r) vs" by (rule dir_at_shift)
    then show ?thesis by (rule dir_at_mono) simp
  qed
  then have "dir_at m' (p + dsum us) b vs" by (simp only: q)
  moreover have "m' a = m a" if "a < p + dsum us" for a
    using that low by (simp add: q)
  ultimately show "dir_at m' p b (us @ vs)"
    by (intro dir_at_replace [OF d]) simp_all
  show "m' a = m a" if "a < p \<or> b \<le> a" for a
    using that low [of a] by (auto simp: q)
qed

section \<open>New directories\<close>

lemma esize_dots: "esize ''.'' = 8" "esize ''..'' = 12" "name_ok ''.''" "name_ok ''..''" "rec_size 1 = 8"
  by (simp_all add: esize_def name_ok_def rec_size_exact)

text \<open>The second record of a new directory claims 248 bytes (4088 cut to eight bits).\<close>

lemma write_dots_at:
  assumes "m (p + 261) = NUL" "p + 262 \<le> b"
  shows "dir_at (write_dots p self parent m) p b [(''.'', self), (''..'', parent)]"
    "\<And>a. a < p \<or> p + 262 \<le> a \<Longrightarrow> write_dots p self parent m a = m a"
proof -
  let ?m = "write_dots p self parent m"
  have w: "?m = (mwrite (st32 ((mwrite (st32 m p self) (p + 6) (''.'' @ [NUL]))(p + 4 := char_of (1::nat), p + 5 := char_of (8::nat)))
      (p + 8) parent) (p + 14) (''..'' @ [NUL]))(p + 12 := char_of (2::nat), p + 13 := char_of (4088::nat))"
    unfolding write_dots_def Let_def esize_dots(5) BLOCK_SIZE_def by (simp add: add.assoc)
  have at: "?m (p + 4) = char_of (1::nat)" "?m (p + 5) = char_of (8::nat)" "?m (p + 6) = CHR ''.''" "?m (p + 7) = NUL"
    "?m (p + 12) = char_of (2::nat)" "?m (p + 13) = char_of (4088::nat)"
    "?m (p + 14) = CHR ''.''" "?m (p + 15) = CHR ''.''" "?m (p + 16) = NUL" "?m (p + 261) = m (p + 261)"
    unfolding w by (simp_all add: mwrite_def mcopy_def st32_def)
  have i: "de_inode ?m p = self" "de_inode ?m (p + 8) = parent"
    unfolding w de_inode_def mwrite_def by (simp_all add: ld32_upd_out ld32_mcopy_out ld32_st32_out)
  have len: "de_rec_len ?m p = 8" "de_name_len ?m p = 1" "de_rec_len ?m (p + 8) = 248" "de_name_len ?m (p + 8) = 2"
    "de_rec_len ?m (p + 256) = 0"
    using at assms(1) by (simp_all add: de_rec_len_def de_name_len_def add.commute [of p])
  have c: "cstr ?m (p + 6) ''.''" "cstr ?m (p + 14) ''..''"
    using at by (simp_all add: add.commute [of p])
  show "dir_at ?m p b [(''.'', self), (''..'', parent)]"
    using c i len assms(2) by (simp add: esize_dots add.commute [of p])
  show "?m a = m a" if "a < p \<or> p + 262 \<le> a" for a
    using that unfolding w by (auto simp: mwrite_def mcopy_def st32_def)
qed

declare dir_at.simps [simp del]

end
