(* ===== verification/Abyss_Inv.thy ===== *)
theory Abyss_Inv
  imports Abyssfs Abyss_Dir
begin

text \<open>
  The state of AbyssFS once it is formatted: where blocks and inodes lie, which bytes the updates of an
  inode leave alone, the block bitmap as a set, and the root directory as an association list.

  The locale \<open>block_pool\<close> is the contract of the block allocator.
\<close>

section \<open>Addresses\<close>

definition sb_ok :: "abyss \<Rightarrow> bool" where
  "sb_ok st \<longleftrightarrow> total_blocks (sb st) = 64 \<and> inode_blocks (sb st) = 8 \<and> first_data_block (sb st) = 9"

lemma sb_ok_update [simp]:
  "sb_ok (st\<lparr>blocks := m\<rparr>) = sb_ok st" "sb_ok (st\<lparr>block_bitmap := b\<rparr>) = sb_ok st"
  "sb_ok (st\<lparr>sb := (sb st)\<lparr>free_blocks := n\<rparr>\<rparr>) = sb_ok st"
  by (simp_all add: sb_ok_def)

lemma get_block_ok: "sb_ok st \<Longrightarrow> unat b < 64 \<Longrightarrow> get_block b st = Some (unat b * 4096)"
  by (simp add: get_block_def sb_ok_def word_le_nat_alt BLOCK_SIZE_def unat_word_ariths)

lemma get_block_None: "sb_ok st \<Longrightarrow> 64 \<le> unat b \<Longrightarrow> get_block b st = None"
  by (simp add: get_block_def sb_ok_def word_le_nat_alt)

lemma div_mod_64: "(1 + n div 64) * 4096 + n mod 64 * 64 = 4096 + 64 * (n :: nat)"
proof -
  have "(1 + q) * 4096 + r * 64 = 4096 + 64 * n" if "n = q * 64 + r" for q r :: nat
    using that by simp
  then show ?thesis by (simp only: div_mult_mod_eq)
qed

definition inode_addr :: "u32 \<Rightarrow> nat" where
  "inode_addr n = 4096 + 64 * unat n"

lemma get_inode_ok:
  assumes "sb_ok st"
  shows "get_inode n st = (if unat n < 512 then Some (inode_addr n) else None)"
proof (cases "unat n < 512")
  case True
  have d: "unat (n div 64) = unat n div 64" "unat (n mod 64) = unat n mod 64"
    by (simp_all add: unat_div unat_mod)
  then have "unat (1 + n div 64) = 1 + unat n div 64"
    using True by (simp add: unat_word_ariths)
  moreover have "1 + unat n div 64 < 64" using True by simp
  ultimately have "get_block (1 + n div 64) st = Some ((1 + unat n div 64) * 4096)"
    using get_block_ok [OF assms, of "1 + n div 64"] by simp
  moreover have "(1 + unat n div 64) * 4096 + unat n mod 64 * 64 = 4096 + 64 * unat n"
    by (rule div_mod_64)
  ultimately show ?thesis
    using True assms d
    by (simp add: get_inode_def sb_ok_def BLOCK_SIZE_def sizeof_inode_def inodes_per_block_def inode_addr_def)
next
  case False
  then show ?thesis
    using assms by (simp add: get_inode_def sb_ok_def BLOCK_SIZE_def sizeof_inode_def)
qed

lemma inode_addr_bounds: "unat n < 512 \<Longrightarrow> 4096 \<le> inode_addr n \<and> inode_addr n + 64 \<le> 36864"
  by (simp add: inode_addr_def)

lemma inode_addr_inj: "inode_addr a = inode_addr b \<longleftrightarrow> a = b"
  by (simp add: inode_addr_def word_unat_eq_iff)

lemma inode_addr_apart: "a \<noteq> b \<Longrightarrow> inode_addr a + 64 \<le> inode_addr b \<or> inode_addr b + 64 \<le> inode_addr a"
  using nat_neq_iff [of "unat a" "unat b"] by (auto simp: inode_addr_def word_unat_eq_iff)

section \<open>Updates of an inode\<close>

lemma inode_fields [simp]:
  "i_mode (set_i_mode p v st) p = v" "i_size (set_i_mode p v st) p = i_size st p" "i_blocks (set_i_mode p v st) p = i_blocks st p"
  "i_mode (set_i_size p v st) p = i_mode st p" "i_size (set_i_size p v st) p = v" "i_blocks (set_i_size p v st) p = i_blocks st p"
  "i_mode (set_i_blocks p v st) p = i_mode st p" "i_size (set_i_blocks p v st) p = i_size st p" "i_blocks (set_i_blocks p v st) p = v"
  "i_mode (clear_inode p st) p = 0" "i_size (clear_inode p st) p = 0" "i_blocks (clear_inode p st) p = 0"
  by (simp_all add: i_mode_def i_size_def i_blocks_def set_i_mode_def set_i_size_def set_i_blocks_def clear_inode_def
      sizeof_inode_def ld32_st32_out ld32_mfill_0)

lemma inode_frame:
  assumes "a < p \<or> p + 64 \<le> a"
  shows "blocks (set_i_mode p v st) a = blocks st a" "blocks (set_i_size p v st) a = blocks st a"
    "blocks (set_i_blocks p v st) a = blocks st a" "blocks (clear_inode p st) a = blocks st a"
  using assms by (auto simp: set_i_mode_def set_i_size_def set_i_blocks_def clear_inode_def sizeof_inode_def
      st32_out mfill_out)

lemma inode_keeps [simp]:
  "sb (set_i_mode p v st) = sb st" "block_bitmap (set_i_mode p v st) = block_bitmap st"
  "sb (set_i_size p v st) = sb st" "block_bitmap (set_i_size p v st) = block_bitmap st"
  "sb (set_i_blocks p v st) = sb st" "block_bitmap (set_i_blocks p v st) = block_bitmap st"
  "sb (clear_inode p st) = sb st" "block_bitmap (clear_inode p st) = block_bitmap st"
  by (simp_all add: set_i_mode_def set_i_size_def set_i_blocks_def clear_inode_def)

text \<open>The fields of an inode depend on its 64 bytes only.\<close>

lemma inode_fields_cong:
  assumes "\<And>a. p \<le> a \<Longrightarrow> a < p + 64 \<Longrightarrow> blocks st' a = blocks st a"
  shows "i_mode st' p = i_mode st p" "i_size st' p = i_size st p" "i_blocks st' p = i_blocks st p"
  using assms by (auto simp: i_mode_def i_size_def i_blocks_def intro!: ld32_cong)

section \<open>The block allocator\<close>

primrec alloc_blocks :: "nat \<Rightarrow> ('s \<Rightarrow> u32 \<times> 's) \<Rightarrow> 's \<Rightarrow> u32 list" where
  "alloc_blocks 0 al s = []"
| "alloc_blocks (Suc n) al s = (case al s of (b, s') \<Rightarrow> b # alloc_blocks n al s')"

locale block_pool =
  fixes alloc :: "'s \<Rightarrow> u32 \<times> 's"
    and free :: "u32 \<Rightarrow> 's \<Rightarrow> 's"
    and in_use :: "'s \<Rightarrow> nat set"
    and inv :: "'s \<Rightarrow> bool"
    and first :: nat
    and total :: nat
  assumes alloc_Some: "inv s \<Longrightarrow> alloc s = (b, s') \<Longrightarrow> b \<noteq> 0 \<Longrightarrow>
      first \<le> unat b \<and> unat b < total \<and> unat b \<notin> in_use s \<and> in_use s' = insert (unat b) (in_use s) \<and> inv s'"
    and alloc_None: "inv s \<Longrightarrow> alloc s = (0, s') \<Longrightarrow> s' = s \<and> {first..<total} \<subseteq> in_use s"
    and free_use: "inv s \<Longrightarrow> unat b < total \<Longrightarrow> in_use (free b s) = in_use s - {unat b} \<and> inv (free b s)"
begin

lemma alloc_blocks_fresh:
  "inv s \<Longrightarrow> b \<in> set (alloc_blocks n alloc s) \<Longrightarrow> b \<noteq> 0 \<Longrightarrow>
     first \<le> unat b \<and> unat b < total \<and> unat b \<notin> in_use s"
proof (induction n arbitrary: s)
  case 0
  then show ?case by simp
next
  case (Suc n)
  obtain c s' where c: "alloc s = (c, s')" by force
  show ?case
  proof (cases "c = 0")
    case True
    with c Suc alloc_None [of s s'] show ?thesis by auto
  next
    case False
    with c Suc alloc_Some [of s c s'] show ?thesis by auto
  qed
qed

lemma alloc_blocks_distinct: "inv s \<Longrightarrow> distinct (filter (\<lambda>b. b \<noteq> 0) (alloc_blocks n alloc s))"
proof (induction n arbitrary: s)
  case 0
  then show ?case by simp
next
  case (Suc n)
  obtain c s' where c: "alloc s = (c, s')" by force
  show ?case
  proof (cases "c = 0")
    case True
    with c Suc alloc_None [of s s'] show ?thesis by auto
  next
    case False
    then have s': "in_use s' = insert (unat c) (in_use s)" "inv s'"
      using c Suc.prems alloc_Some [of s c s'] by auto
    then have "c \<notin> set (alloc_blocks n alloc s')"
      using alloc_blocks_fresh [of s' c n] False by auto
    with c False Suc.IH [OF s'(2)] show ?thesis by simp
  qed
qed

text \<open>A free block is obtained after at most as many allocations as there are free blocks.\<close>

lemma alloc_blocks_reach:
  assumes "inv s" "b \<noteq> 0" "first \<le> unat b" "unat b < total" "unat b \<notin> in_use s" "card ({first..<total} - in_use s) \<le> n"
  shows "b \<in> set (alloc_blocks n alloc s)"
  using assms
proof (induction n arbitrary: s)
  case 0
  then have "{first..<total} - in_use s = {}" by simp
  then show ?case using 0 by auto
next
  case (Suc n)
  obtain c s' where c: "alloc s = (c, s')" by force
  have c0: "c \<noteq> 0" using alloc_None [of s s'] c Suc.prems by fastforce
  note al = alloc_Some [OF Suc.prems(1) c c0]
  have eq: "{first..<total} - in_use s' = ({first..<total} - in_use s) - {unat c}" using al by auto
  have "unat c \<in> {first..<total} - in_use s" using al by simp
  then have "card ({first..<total} - in_use s') \<le> n"
    using Suc.prems(6) unfolding eq by (subst card_Diff_singleton) auto
  then have "c \<noteq> b \<Longrightarrow> b \<in> set (alloc_blocks n alloc s')"
    using Suc.IH [of s'] Suc.prems al by (auto simp: word_unat_eq_iff)
  then show ?case using c by auto
qed

text \<open>A block that is given back is obtained again.\<close>

lemma free_then_alloc:
  assumes "inv s" "b \<noteq> 0" "first \<le> unat b" "unat b < total"
  shows "in_use (free b s) = in_use s - {unat b}" "b \<in> set (alloc_blocks (total - first) alloc (free b s))"
proof -
  note f = free_use [OF assms(1,4)]
  then show "in_use (free b s) = in_use s - {unat b}" by simp
  have "card ({first..<total} - in_use (free b s)) \<le> card {first..<total}" by (rule card_mono) auto
  then show "b \<in> set (alloc_blocks (total - first) alloc (free b s))"
    using f assms by (intro alloc_blocks_reach) auto
qed

end

definition used_blocks :: "abyss \<Rightarrow> nat set" where
  "used_blocks st = {i. bit (block_bitmap st) i}"

lemma unat_of_nat_block: "i < 64 \<Longrightarrow> unat (of_nat i :: u32) = i"
  by (simp add: unat_of_nat)

lemma alloc_block_cases:
  assumes "sb_ok st"
  obtains (full) "alloc_block st = (0, st)" "{9..<64} \<subseteq> used_blocks st"
  | (ok) i where "9 \<le> i" "i < 64" "i \<notin> used_blocks st" "alloc_block st = (of_nat i,
      st\<lparr>block_bitmap := block_bitmap st OR push_bit i 1, sb := (sb st)\<lparr>free_blocks := free_blocks (sb st) - 1\<rparr>\<rparr>)"
proof (cases "find (\<lambda>i. \<not> bit (block_bitmap st) i) [9..<64]")
  case None
  then have "\<forall>i \<in> set [9..<64]. bit (block_bitmap st) i" unfolding find_None_iff by blast
  moreover have "alloc_block st = (0, st)"
    using assms None by (simp add: alloc_block_def sb_ok_def)
  ultimately show ?thesis by (intro full) (simp_all only: used_blocks_def set_upt, blast)
next
  case (Some i)
  then obtain us vs where *: "[9..<64] = us @ i # vs" "\<not> bit (block_bitmap st) i" by (rule find_SomeE)
  have "i \<in> set [9..<64]" unfolding *(1) by simp
  then have "9 \<le> i" "i < 64" by (simp_all only: set_upt atLeastLessThan_iff)
  moreover have "alloc_block st = (of_nat i,
      st\<lparr>block_bitmap := block_bitmap st OR push_bit i 1, sb := (sb st)\<lparr>free_blocks := free_blocks (sb st) - 1\<rparr>\<rparr>)"
    using assms Some by (simp add: alloc_block_def sb_ok_def)
  ultimately show ?thesis using ok [of i] *(2) by (simp add: used_blocks_def)
qed

lemma bit_set: "i < 64 \<Longrightarrow> bit (b OR push_bit i 1 :: u64) k \<longleftrightarrow> k = i \<or> bit b k"
  by (auto simp: bit_simps)

lemma bit_set_exp: "i < 64 \<Longrightarrow> bit (b OR 2 ^ i :: u64) k \<longleftrightarrow> k = i \<or> bit b k"
  using bit_set [of i b k] by simp

lemma bit_clear: "i < 64 \<Longrightarrow> bit (b AND NOT (push_bit i 1) :: u64) k \<longleftrightarrow> k \<noteq> i \<and> bit b k"
  by (auto simp: bit_simps dest: bit_imp_le_length)

lemma bit_clear_exp: "i < 64 \<Longrightarrow> bit (b AND NOT (2 ^ i) :: u64) k \<longleftrightarrow> k \<noteq> i \<and> bit b k"
  using bit_clear [of i b k] by simp

interpretation disk_pool: block_pool alloc_block free_block used_blocks sb_ok 9 64
proof unfold_locales
  fix st st' :: abyss and b :: u32
  assume st: "sb_ok st" and a: "alloc_block st = (b, st')" "b \<noteq> 0"
  from st show "9 \<le> unat b \<and> unat b < 64 \<and> unat b \<notin> used_blocks st
      \<and> used_blocks st' = insert (unat b) (used_blocks st) \<and> sb_ok st'"
  proof (cases rule: alloc_block_cases)
    case full
    with a show ?thesis by simp
  next
    case (ok i)
    with a have b: "b = of_nat i" and st': "st' = st\<lparr>block_bitmap := block_bitmap st OR push_bit i 1,
        sb := (sb st)\<lparr>free_blocks := free_blocks (sb st) - 1\<rparr>\<rparr>" by auto
    have "used_blocks st' = insert i (used_blocks st)"
      using ok(2) by (auto simp: used_blocks_def st' bit_set_exp)
    moreover have "sb_ok st'" using st by (simp add: st' sb_ok_def)
    ultimately show ?thesis using ok by (simp add: b unat_of_nat_block)
  qed
next
  fix st st' :: abyss
  assume st: "sb_ok st" and a: "alloc_block st = (0, st')"
  from st show "st' = st \<and> {9..<64} \<subseteq> used_blocks st"
  proof (cases rule: alloc_block_cases)
    case full
    with a show ?thesis by simp
  next
    case (ok i)
    with a have "(of_nat i :: u32) = 0" by simp
    with ok unat_of_nat_block [of i] show ?thesis by simp
  qed
next
  fix st :: abyss and b :: u32
  assume "sb_ok st" "unat b < 64"
  then show "used_blocks (free_block b st) = used_blocks st - {unat b} \<and> sb_ok (free_block b st)"
    by (auto simp: free_block_def sb_ok_def word_less_nat_alt used_blocks_def bit_clear_exp)
qed

end
