(* ===== verification/Abyss_Ops.thy ===== *)
theory Abyss_Ops
  imports Abyss_Inv
begin

text \<open>
  The operations of AbyssFS on the abstract state: the root directory is an association list, a directory
  tree is a map from inode numbers to such lists, and an inode has a mode, a size and a block.
\<close>

section \<open>The well-formed disk\<close>

definition root_dir :: "abyss \<Rightarrow> dir \<Rightarrow> bool" where
  "root_dir st es \<longleftrightarrow> dir_at (blocks st) 36864 40960 es"

definition abyss_wf :: "abyss \<Rightarrow> dir \<Rightarrow> bool" where
  "abyss_wf st es \<longleftrightarrow> sb_ok st \<and> i_blocks st (inode_addr 1) = 9 \<and> i_mode st (inode_addr 1) \<noteq> 0
     \<and> root_dir st es \<and> es \<noteq> [] \<and> 9 \<in> used_blocks st"

lemma inode_addr_1: "inode_addr 1 = 4160"
  by (simp add: inode_addr_def)

lemma abyss_wf_sb: "abyss_wf st es \<Longrightarrow> sb_ok st"
  by (simp add: abyss_wf_def)

lemma root_block: "sb_ok st \<Longrightarrow> get_block (inode_blocks (sb st) + 1) st = Some 36864"
  using get_block_ok [of st 9] by (simp add: sb_ok_def)

lemma abyss_wf_cong:
  assumes "abyss_wf st es" "sb_ok st'" "9 \<in> used_blocks st'"
    and "\<And>a. inode_addr 1 \<le> a \<Longrightarrow> a < inode_addr 1 + 64 \<Longrightarrow> blocks st' a = blocks st a"
    and "root_dir st' es'" "es' \<noteq> []"
  shows "abyss_wf st' es'"
proof -
  have "i_blocks st' (inode_addr 1) = i_blocks st (inode_addr 1)" "i_mode st' (inode_addr 1) = i_mode st (inode_addr 1)"
    using assms(4) by (intro inode_fields_cong; simp)+
  with assms show ?thesis by (simp add: abyss_wf_def)
qed

section \<open>Formatting\<close>

lemma fold_clear:
  assumes "sb_ok st" "\<forall>a < DISK_SIZE. blocks st a = NUL"
  shows "sb_ok (fold (\<lambda>i s. case get_inode (of_nat i) s of Some p \<Rightarrow> clear_inode p s | None \<Rightarrow> s) xs st)
    \<and> (\<forall>a < DISK_SIZE. blocks (fold (\<lambda>i s. case get_inode (of_nat i) s of Some p \<Rightarrow> clear_inode p s | None \<Rightarrow> s) xs st) a = NUL)
    \<and> sb (fold (\<lambda>i s. case get_inode (of_nat i) s of Some p \<Rightarrow> clear_inode p s | None \<Rightarrow> s) xs st) = sb st"
  using assms
proof (induction xs arbitrary: st)
  case Nil
  then show ?case by simp
next
  case (Cons x xs)
  let ?s = "case get_inode (of_nat x) st of Some p \<Rightarrow> clear_inode p st | None \<Rightarrow> st"
  have "sb ?s = sb st" by (simp split: option.split)
  moreover have "\<forall>a < DISK_SIZE. blocks ?s a = NUL"
    using Cons.prems(2) by (auto simp: clear_inode_def mfill_def split: option.split)
  moreover have "sb_ok ?s" using Cons.prems(1) calculation(1) by (simp add: sb_ok_def)
  ultimately show ?case using Cons.IH [of ?s] by simp
qed

lemma used_blocks_1023:
  assumes "block_bitmap st = 1023"
  shows "used_blocks st = {0..9}"
proof (rule set_eqI)
  fix i
  have "bit (1023 :: u64) i \<longleftrightarrow> bit (mask 10 :: u64) i" by (simp add: mask_eq_exp_minus_1)
  also have "\<dots> \<longleftrightarrow> i < 10" unfolding bit_mask_iff by (auto simp: possible_bit_def)
  finally show "i \<in> used_blocks st \<longleftrightarrow> i \<in> {0..9}"
    unfolding used_blocks_def assms by (simp only: mem_Collect_eq atLeastAtMost_iff) arith
qed

lemma fold_bits_511: "fold (\<lambda>i b. b OR push_bit i 1) [0..<9] 0 = (511 :: u64)"
  by (simp add: upt_rec)

lemma abyss_format_wf:
  "abyss_wf (abyss_format st) [(''.'', 1), (''..'', 1)]" "used_blocks (abyss_format st) = {0..9}"
  "free_blocks (sb (abyss_format st)) = 55" "abyssfs_initialized (abyss_format st)"
  "\<And>a. a < DISK_SIZE \<Longrightarrow> \<not> (4160 \<le> a \<and> a < 4224) \<Longrightarrow> \<not> (36864 \<le> a \<and> a < 37126) \<Longrightarrow> blocks (abyss_format st) a = NUL"
proof -
  define sb0 where "sb0 = \<lparr>sb_magic = ABYSSFS_MAGIC, sb_block_size = of_nat BLOCK_SIZE, total_blocks = 64, inode_blocks = 8,
            data_blocks = 64 - 8 - 1, free_blocks = 64 - 8 - 1, first_data_block = 8 + (1 :: u32)\<rparr>"
  define st1 where "st1 = st\<lparr>blocks := mfill (blocks st) 0 NUL DISK_SIZE, blocks_allocated := True, sb := sb0\<rparr>"
  define st2 where "st2 = fold (\<lambda>i s. case get_inode (of_nat i) s of Some p \<Rightarrow> clear_inode p s | None \<Rightarrow> s) [0..<8] st1"
  define st3 where "st3 = st2\<lparr>block_bitmap := fold (\<lambda>i b. b OR push_bit i 1) [0..<9] 0\<rparr>"
  define s3 where "s3 = set_i_blocks (inode_addr 1) 9 (set_i_size (inode_addr 1) 4096 (set_i_mode (inode_addr 1) 0x4000 st3))"
  define st4 where "st4 = s3\<lparr>blocks := write_dots 36864 1 1 (blocks s3)\<rparr>"
  have "sb_ok st1" by (simp add: st1_def sb0_def sb_ok_def)
  then have z2: "sb_ok st2" "\<forall>a < DISK_SIZE. blocks st2 a = NUL" "sb st2 = sb0"
    unfolding st2_def using fold_clear [of st1 "[0..<8]"] by (auto simp: st1_def mfill_def)
  have s3: "sb_ok s3" "i_blocks s3 (inode_addr 1) = 9" "i_mode s3 (inode_addr 1) = 0x4000" "sb s3 = sb0"
    "block_bitmap s3 = 511"
    using z2 unfolding s3_def st3_def fold_bits_511 by (simp_all add: sb_ok_def)
  have i1: "get_inode 1 st3 = Some (inode_addr 1)"
    using z2(1) by (simp add: get_inode_ok st3_def)
  have b9: "get_block 9 s3 = Some 36864" using get_block_ok [OF s3(1), of 9] by simp
  have "inode_blocks (sb st3) = 8" using z2(3) by (simp add: st3_def sb0_def)
  then have r: "format_root st3 = st4"
    using b9 s3(2) unfolding format_root_def i1 option.case Let_def
    by (simp add: BLOCK_SIZE_def s3_def [symmetric] st4_def [symmetric])
  have st4: "abyss_format st = st4\<lparr>block_bitmap := block_bitmap st4 OR push_bit 9 1, abyssfs_initialized := True\<rparr>"
    unfolding abyss_format_def Let_def sb0_def [symmetric] st1_def [symmetric] st2_def [symmetric] st3_def [symmetric] r
    by (simp add: st4_def s3(4)) (simp add: sb0_def)
  have low: "blocks s3 a = NUL" if "36864 \<le> a" "a < DISK_SIZE" for a
    using that z2(2) by (simp add: s3_def inode_frame inode_addr_def st3_def)
  have dots: "dir_at (blocks st4) 36864 40960 [(''.'', 1), (''..'', 1)]"
    "\<And>a. a < 36864 \<Longrightarrow> blocks st4 a = blocks s3 a"
    using write_dots_at(1) [of "blocks s3" 36864 40960 1 1] write_dots_at(2) [of "blocks s3" 36864 40960] low
    by (simp_all add: st4_def DISK_SIZE_def)
  then have "blocks st4 a = blocks s3 a" if "a < inode_addr 1 + 64" for a
    using that by (simp add: inode_addr_1)
  then have "i_blocks st4 (inode_addr 1) = 9" "i_mode st4 (inode_addr 1) = 0x4000"
    unfolding s3(2) [symmetric] s3(3) [symmetric] by (intro inode_fields_cong; simp)+
  moreover have ub: "used_blocks (abyss_format st) = {0..9}"
    by (rule used_blocks_1023) (simp add: st4 st4_def s3(5))
  ultimately show "abyss_wf (abyss_format st) [(''.'', 1), (''..'', 1)]"
    using dots(1) s3(1) by (simp add: abyss_wf_def st4 root_dir_def sb_ok_def st4_def i_blocks_def i_mode_def)
  show "free_blocks (sb (abyss_format st)) = 55" "abyssfs_initialized (abyss_format st)"
    by (simp_all add: st4 st4_def s3(4) sb0_def)
  show "used_blocks (abyss_format st) = {0..9}" by (rule ub)
  show "blocks (abyss_format st) a = NUL" if "a < DISK_SIZE" "\<not> (4160 \<le> a \<and> a < 4224)" "\<not> (36864 \<le> a \<and> a < 37126)" for a
  proof -
    have "blocks st4 a = blocks s3 a"
      using write_dots_at(2) [of "blocks s3" 36864 40960 a 1 1] low that by (auto simp: st4_def DISK_SIZE_def)
    also have "\<dots> = blocks st2 a"
    proof -
      have "a < inode_addr 1 \<or> inode_addr 1 + 64 \<le> a" using that(2) by (auto simp: inode_addr_1)
      then show ?thesis unfolding s3_def by (simp add: inode_frame st3_def)
    qed
    finally show ?thesis using z2(2) that(1) by (simp add: st4)
  qed
qed

section \<open>Allocating an inode\<close>

lemma alloc_inode_cases:
  assumes "sb_ok st"
  obtains (full) "alloc_inode st = (0, st)" "\<And>n. n \<noteq> 0 \<Longrightarrow> unat n < 512 \<Longrightarrow> i_mode st (inode_addr n) \<noteq> 0"
  | (ok) n where "n \<noteq> 0" "unat n < 512" "i_mode st (inode_addr n) = 0"
      "\<And>k. k \<noteq> 0 \<Longrightarrow> k < n \<Longrightarrow> i_mode st (inode_addr k) \<noteq> 0"
      "alloc_inode st = (n, set_i_mode (inode_addr n) 0x1FF (clear_inode (inode_addr n) st))"
proof -
  let ?P = "\<lambda>i. case get_inode (of_nat i) st of None \<Rightarrow> False | Some p \<Rightarrow> i_mode st p = 0"
  have max: "unat (inode_blocks (sb st) * inodes_per_block) = 512"
    using assms by (simp add: sb_ok_def inodes_per_block_def BLOCK_SIZE_def sizeof_inode_def)
  have small: "unat (of_nat i :: u32) = i" if "i < 512" for i
    using that by (simp add: unat_of_nat)
  have P: "?P i \<longleftrightarrow> i_mode st (inode_addr (of_nat i)) = 0" if "i < 512" for i
    using that small [OF that] by (simp add: get_inode_ok [OF assms])
  have nat_of: "n = of_nat (unat n)" "unat n \<in> set [1..<512] \<longleftrightarrow> n \<noteq> 0 \<and> unat n < 512" for n :: u32
    using unat_gt_0 [of n] by (simp_all only: of_nat_unat ucast_id set_upt atLeastLessThan_iff) linarith
  show thesis
  proof (cases "find ?P [1..<512]")
    case None
    then have no: "\<not> ?P i" if "i \<in> set [1..<512]" for i using that unfolding find_None_iff by blast
    have "i_mode st (inode_addr n) \<noteq> 0" if "n \<noteq> 0" "unat n < 512" for n
      using no [of "unat n"] P [of "unat n"] that nat_of [of n] by simp
    moreover have "alloc_inode st = (0, st)"
      unfolding alloc_inode_def Let_def max None by simp
    ultimately show thesis using full by blast
  next
    case (Some i)
    then obtain us vs where *: "[1..<512] = us @ i # vs" "\<forall>k \<in> set us. \<not> ?P k" "?P i" by (rule find_SomeE)
    have "i \<in> set [1..<512]" unfolding *(1) by simp
    then have i: "1 \<le> i" "i < 512" by (simp_all only: set_upt atLeastLessThan_iff)
    have us: "k \<in> set us" if "1 \<le> k" "k < i" for k
    proof -
      have "k \<in> set (us @ i # vs)" unfolding *(1) [symmetric] using that i by (simp only: set_upt atLeastLessThan_iff) simp
      moreover have "k \<notin> set (i # vs)"
      proof -
        have "sorted_wrt (<) (us @ i # vs)" unfolding *(1) [symmetric] by (rule sorted_wrt_upt)
        with that show ?thesis by (auto simp: sorted_wrt_append)
      qed
      ultimately show ?thesis by simp
    qed
    have n: "unat (of_nat i :: u32) = i" by (rule small [OF i(2)])
    have "i_mode st (inode_addr k) \<noteq> 0" if "k \<noteq> 0" "k < of_nat i" for k :: u32
    proof -
      have "unat k < i" "1 \<le> unat k" using that n unat_gt_0 [of k] by (simp_all add: word_less_nat_alt Suc_le_eq)
      then have "\<not> ?P (unat k)" using *(2) us by blast
      with P [of "unat k"] \<open>unat k < i\<close> i show ?thesis by simp
    qed
    moreover have "i_mode st (inode_addr (of_nat i)) = 0" using P [OF i(2)] *(3) by blast
    moreover have "(of_nat i :: u32) \<noteq> 0" using n i by auto
    moreover have "alloc_inode st = (of_nat i, set_i_mode (inode_addr (of_nat i)) 0x1FF (clear_inode (inode_addr (of_nat i)) st))"
      unfolding alloc_inode_def Let_def max Some option.case using n i by (simp add: get_inode_ok [OF assms])
    ultimately show thesis using n i by (intro ok [of "of_nat i"]) auto
  qed
qed

text \<open>A change inside the structure of an inode other than the root's.\<close>

lemma abyss_wf_inode:
  assumes "abyss_wf st es" "unat n < 512" "n \<noteq> 1" "sb st' = sb st" "block_bitmap st' = block_bitmap st"
    and "\<And>a. a < inode_addr n \<or> inode_addr n + 64 \<le> a \<Longrightarrow> blocks st' a = blocks st a"
  shows "abyss_wf st' es"
proof -
  have "root_dir st' es"
    unfolding root_dir_def
    by (rule dir_at_cong [of _ _ _ "blocks st"]) (use assms inode_addr_bounds [OF assms(2)] in \<open>auto simp: abyss_wf_def root_dir_def\<close>)
  then show ?thesis
    using assms inode_addr_apart [OF assms(3)]
    by (intro abyss_wf_cong [OF assms(1)]) (auto simp: abyss_wf_def used_blocks_def sb_ok_def)
qed

lemma alloc_inode_wf:
  assumes "abyss_wf st es" "alloc_inode st = (n, st')" "n \<noteq> 0"
  shows "abyss_wf st' es" "unat n < 512" "n \<noteq> 1" "i_size st' (inode_addr n) = 0" "i_blocks st' (inode_addr n) = 0"
    "used_blocks st' = used_blocks st" "\<And>a. a < inode_addr n \<or> inode_addr n + 64 \<le> a \<Longrightarrow> blocks st' a = blocks st a"
proof -
  have sbk: "sb_ok st" using assms(1) by (rule abyss_wf_sb)
  from sbk have a: "unat n < 512" "i_mode st (inode_addr n) = 0"
    "st' = set_i_mode (inode_addr n) 0x1FF (clear_inode (inode_addr n) st)"
    by (rule alloc_inode_cases; use assms(2,3) in auto)+
  show u: "unat n < 512" by (rule a(1))
  show n1: "n \<noteq> 1" using assms(1) a(2) by (auto simp: abyss_wf_def)
  show "i_size st' (inode_addr n) = 0" "i_blocks st' (inode_addr n) = 0" "used_blocks st' = used_blocks st"
    by (simp_all add: a(3) used_blocks_def)
  show frame: "blocks st' a = blocks st a" if "a < inode_addr n \<or> inode_addr n + 64 \<le> a" for a
    using that by (simp add: a(3) inode_frame)
  show "abyss_wf st' es" by (rule abyss_wf_inode [OF assms(1) u n1]) (simp_all add: a(3) inode_frame)
qed


text \<open>The inode that is handed out is the first free one.\<close>

lemma alloc_inode_first:
  assumes "sb_ok st" "alloc_inode st = (n, st')" "n \<noteq> 0"
  shows "i_mode st (inode_addr n) = 0" "\<forall>k. k \<noteq> 0 \<and> k < n \<longrightarrow> i_mode st (inode_addr k) \<noteq> 0" "i_mode st' (inode_addr n) = 0x1FF"
  using assms(1) by (rule alloc_inode_cases; use assms(2,3) in auto)+

section \<open>Paths\<close>

text \<open>A part of the directory tree: the directories of some inodes.\<close>

definition dirs_ok :: "(u32 \<rightharpoonup> dir) \<Rightarrow> abyss \<Rightarrow> bool" where
  "dirs_ok D st \<longleftrightarrow> sb_ok st \<and> (\<forall>i es. D i = Some es \<longrightarrow> unat i < 512 \<and> i_blocks st (inode_addr i) \<noteq> 0
     \<and> unat (i_blocks st (inode_addr i)) < 64
     \<and> dir_at (blocks st) (unat (i_blocks st (inode_addr i)) * 4096) (unat (i_blocks st (inode_addr i)) * 4096 + 4096) es)"

text \<open>The walk from inode \<open>i\<close> along path components: \<open>None\<close> when it leaves the known part of the tree, \<open>Some None\<close> when
  a directory has no such component.\<close>

fun tree_walk :: "(u32 \<rightharpoonup> dir) \<Rightarrow> u32 \<Rightarrow> string list \<Rightarrow> u32 option option" where
  "tree_walk D i [] = Some (Some i)"
| "tree_walk D i (t # ts) =
     (case D i of
        None \<Rightarrow> None
      | Some es \<Rightarrow> (case map_of es t of None \<Rightarrow> Some None | Some j \<Rightarrow> tree_walk D j ts))"

lemma path_walk_tree:
  "dirs_ok D st \<Longrightarrow> list_all (\<lambda>t. NUL \<notin> set t) ts \<Longrightarrow> tree_walk D i ts = Some r \<Longrightarrow>
     path_walk st (get_inode i st) ts = Some (case r of None \<Rightarrow> None | Some j \<Rightarrow> get_inode j st)"
proof (induction ts arbitrary: i)
  case Nil
  then show ?case by auto
next
  case (Cons t ts)
  from Cons.prems obtain es where es: "D i = Some es" by (auto split: option.splits)
  let ?b = "i_blocks st (inode_addr i)"
  from Cons.prems(1) es have i: "sb_ok st" "unat i < 512" "?b \<noteq> 0" "unat ?b < 64"
    "dir_at (blocks st) (unat ?b * 4096) (unat ?b * 4096 + 4096) es"
    by (auto simp: dirs_ok_def)
  have gi: "get_inode i st = Some (inode_addr i)" using i(2) by (simp add: get_inode_ok [OF i(1)])
  have gb: "get_block ?b st = Some (unat ?b * 4096)" by (rule get_block_ok [OF i(1,4)])
  have f: "case map_of es t of None \<Rightarrow> dir_find (blocks st) (unat ?b * 4096) t = Some None
      | Some k \<Rightarrow> \<exists>q. dir_find (blocks st) (unat ?b * 4096) t = Some (Some q) \<and> de_inode (blocks st) q = k"
    by (rule dir_find_map_of [OF i(5)]) (use i(4) Cons.prems(2) in \<open>simp_all add: DISK_SIZE_def\<close>)
  show ?case
  proof (cases "map_of es t")
    case None
    with f have "dir_find (blocks st) (unat ?b * 4096) t = Some None" by simp
    moreover have "r = None" using None Cons.prems(3) es by simp
    ultimately show ?thesis using es gi gb i(3) by simp
  next
    case (Some k)
    with f have "\<exists>q. dir_find (blocks st) (unat ?b * 4096) t = Some (Some q) \<and> de_inode (blocks st) q = k" by simp
    then obtain q where "dir_find (blocks st) (unat ?b * 4096) t = Some (Some q)" "de_inode (blocks st) q = k" by blast
    moreover have "path_walk st (get_inode k st) ts = Some (case r of None \<Rightarrow> None | Some j \<Rightarrow> get_inode j st)"
      using Cons.prems es Some by (intro Cons.IH) auto
    ultimately show ?thesis using es gi gb i(3) by simp
  qed
qed

lemma abyss_wf_dirs_ok: "abyss_wf st es \<Longrightarrow> dirs_ok [1 \<mapsto> es] st"
  by (simp add: abyss_wf_def dirs_ok_def root_dir_def)

lemma tokens_single: "s \<noteq> [] \<Longrightarrow> CHR ''/'' \<notin> set s \<Longrightarrow> tokens ''/'' s = [s]"
  using tokens_word [of s "''/''" "[]"] by simp

lemma skip_slash_simps [simp]: "skip_slash [] = []" "skip_slash (CHR ''/'' # r) = r"
  by (simp_all add: skip_slash_def)

lemma skip_slash_name: "CHR ''/'' \<notin> set s \<Longrightarrow> skip_slash s = s"
  by (cases s) (auto simp: skip_slash_def)

text \<open>A single component is looked up in the root directory.\<close>

lemma lookup_root:
  assumes "abyss_wf st es" "s \<noteq> []" "CHR ''/'' \<notin> set s" "NUL \<notin> set s" "length s \<le> 255"
  shows "get_inode_by_path s st = Some (case map_of es s of None \<Rightarrow> None | Some j \<Rightarrow> get_inode j st)"
proof -
  have "tree_walk [1 \<mapsto> es] 1 [s] = Some (map_of es s)" by (simp split: option.split)
  from path_walk_tree [OF abyss_wf_dirs_ok [OF assms(1)] _ this] assms show ?thesis
    by (simp add: get_inode_by_path_def skip_slash_name tokens_single)
qed

section \<open>Creating and removing names\<close>

lemma create_file_at:
  assumes sbk: "sb_ok st" and t: "create_target cwd name st = Some (Some d, filename)"
    and blk: "i_blocks st d \<noteq> 0" "unat (i_blocks st d) < 64"
    and d: "dir_at (blocks st) (unat (i_blocks st d) * 4096) (unat (i_blocks st d) * 4096 + 4096) es" "es \<noteq> []"
    and ok: "name_ok filename" "dsum es + esize filename + 6 \<le> 4096"
  obtains st' where "create_file cwd name n st = Some (0, st')"
    "dir_at (blocks st') (unat (i_blocks st d) * 4096) (unat (i_blocks st d) * 4096 + 4096) (es @ [(filename, n)])"
    "\<And>a. a < unat (i_blocks st d) * 4096 \<or> unat (i_blocks st d) * 4096 + 4096 \<le> a \<Longrightarrow> blocks st' a = blocks st a"
    "sb st' = sb st" "block_bitmap st' = block_bitmap st"
proof -
  let ?p = "unat (i_blocks st d) * 4096"
  have disk: "?p + BLOCK_SIZE \<le> DISK_SIZE" using blk(2) by (simp add: BLOCK_SIZE_def DISK_SIZE_def)
  obtain m' where m': "dir_append ?p filename n (blocks st) = Some m'" "dir_at m' ?p (?p + BLOCK_SIZE) (es @ [(filename, n)])"
    "\<And>a. a < ?p \<or> ?p + BLOCK_SIZE \<le> a \<Longrightarrow> m' a = blocks st a"
    using dir_append_at [of "blocks st" ?p es filename n] d disk ok by (auto simp: BLOCK_SIZE_def)
  have "create_file cwd name n st = Some (0, st\<lparr>blocks := m'\<rparr>)"
    using t blk get_block_ok [OF sbk blk(2)] m'(1) by (simp add: create_file_def dir_block_of_def Let_def)
  with m' show thesis by (intro that [of "st\<lparr>blocks := m'\<rparr>"]) (auto simp: BLOCK_SIZE_def)
qed

lemma create_target_root:
  assumes "abyss_wf st es" "CHR ''/'' \<notin> set s" "length s \<le> 255"
  shows "create_target (Some ''/'') s st = Some (Some (inode_addr 1), s)"
proof -
  have "last_idx CHR ''/'' s = None" using assms(2) by (simp add: last_idx_None_iff)
  with assms show ?thesis
    by (simp add: create_target_def Let_def get_inode_ok [OF abyss_wf_sb])
qed

lemma create_file_root:
  assumes wf: "abyss_wf st es" and s: "CHR ''/'' \<notin> set s" "name_ok s" "dsum es + esize s + 6 \<le> 4096"
  obtains st' where "create_file (Some ''/'') s n st = Some (0, st')" "abyss_wf st' (es @ [(s, n)])"
    "\<And>a. a < 36864 \<or> 40960 \<le> a \<Longrightarrow> blocks st' a = blocks st a" "sb st' = sb st" "block_bitmap st' = block_bitmap st"
proof -
  have sbk: "sb_ok st" by (rule abyss_wf_sb [OF wf])
  have b: "i_blocks st (inode_addr 1) = 9" and d: "dir_at (blocks st) 36864 40960 es" "es \<noteq> []"
    using wf by (simp_all add: abyss_wf_def root_dir_def)
  have t: "create_target (Some ''/'') s st = Some (Some (inode_addr 1), s)"
    using wf s by (intro create_target_root) (auto simp: name_ok_def)
  obtain st' where st': "create_file (Some ''/'') s n st = Some (0, st')" "dir_at (blocks st') 36864 40960 (es @ [(s, n)])"
    "\<And>a. a < 36864 \<or> 40960 \<le> a \<Longrightarrow> blocks st' a = blocks st a" "sb st' = sb st" "block_bitmap st' = block_bitmap st"
    using create_file_at [OF sbk t, of es n] d s(2,3) unfolding b by auto
  then have "abyss_wf st' (es @ [(s, n)])"
    using wf by (intro abyss_wf_cong [OF wf]) (auto simp: abyss_wf_def sb_ok_def used_blocks_def root_dir_def inode_addr_1)
  from that [OF st'(1) this st'(3-5)] show thesis .
qed


lemma release_inode_facts:
  assumes sbk: "sb_ok st" and n: "unat n < 512"
  shows "sb_ok (release_inode n st)" "i_mode (release_inode n st) (inode_addr n) = 0"
    "\<And>a. a < inode_addr n \<or> inode_addr n + 64 \<le> a \<Longrightarrow> blocks (release_inode n st) a = blocks st a"
    "used_blocks (release_inode n st) = used_blocks st
      - (if i_blocks st (inode_addr n) \<noteq> 0 \<and> unat (i_blocks st (inode_addr n)) < 64 then {unat (i_blocks st (inode_addr n))} else {})"
proof -
  let ?p = "inode_addr n" and ?b = "i_blocks st (inode_addr n)"
  let ?s1 = "set_i_mode ?p 0 st"
  have r: "release_inode n st = (if ?b \<noteq> 0 then free_block ?b ?s1 else ?s1)"
    using n by (simp add: release_inode_def get_inode_ok [OF sbk] Let_def)
  have s1: "sb_ok ?s1" using sbk by (simp add: sb_ok_def)
  have f: "free_block ?b ?s1 = ?s1" if "\<not> unat ?b < 64"
    using that sbk by (simp add: free_block_def sb_ok_def word_less_nat_alt)
  have k: "blocks (free_block ?b ?s1) = blocks ?s1" by (simp add: free_block_def)
  show "sb_ok (release_inode n st)"
    using disk_pool.free_use [OF s1, of ?b] s1 f by (cases "unat ?b < 64") (auto simp: r)
  show "i_mode (release_inode n st) ?p = 0"
    using inode_fields(1) [of ?p 0 st] by (simp add: r i_mode_def k)
  show "blocks (release_inode n st) a = blocks st a" if "a < ?p \<or> ?p + 64 \<le> a" for a
    using that by (simp add: r k inode_frame)
  have u1: "used_blocks ?s1 = used_blocks st" by (simp add: used_blocks_def)
  show "used_blocks (release_inode n st) = used_blocks st
      - (if ?b \<noteq> 0 \<and> unat ?b < 64 then {unat ?b} else {})"
    using disk_pool.free_use [OF s1, of ?b] f u1 by (cases "unat ?b < 64") (auto simp: r)
qed

lemma unlink_at:
  assumes sbk: "sb_ok st" and d: "dir_at (blocks st) 36864 40960 (us @ (s, n) # vs)"
    and s: "s \<notin> fst ` set us" "NUL \<notin> set s" "skip_slash p = s" and n: "unat n < 512"
  obtains st' where "abyssfs_unlink p st = Some (0, st')" "sb_ok st'" "dir_at (blocks st') 36864 40960 (us @ vs)"
    "i_mode st' (inode_addr n) = 0"
    "used_blocks st' = used_blocks st
      - (if i_blocks st (inode_addr n) \<noteq> 0 \<and> unat (i_blocks st (inode_addr n)) < 64 then {unat (i_blocks st (inode_addr n))} else {})"
    "\<And>a. \<not> (36864 \<le> a \<and> a < 40960) \<Longrightarrow> a < inode_addr n \<or> inode_addr n + 64 \<le> a \<Longrightarrow> blocks st' a = blocks st a"
proof -
  define st1 where "st1 = release_inode n st"
  note rel = release_inode_facts [OF sbk n, folded st1_def]
  define q where "q = 36864 + dsum us"
  define m where "m = blocks st1"
  have find: "dir_find (blocks st) 36864 s = Some (Some q)"
    using dir_find_Some [OF d] s(1,2) by (simp add: q_def DISK_SIZE_def)
  have "dir_at (blocks st) q 40960 ((s, n) # vs)" unfolding q_def by (rule dir_at_split [OF d])
  then have ino: "de_inode (blocks st) q = n" by (simp add: dir_at.simps)
  have dm: "dir_at m 36864 40960 (us @ (s, n) # vs)"
    unfolding m_def by (rule dir_at_cong [OF _ d]) (use rel(3) inode_addr_bounds [OF n] in auto)
  let ?r = "de_rec_len m q"
  have dq: "dir_at m q 40960 ((s, n) # vs)" unfolding q_def by (rule dir_at_split [OF dm])
  have bnd: "q + ?r + 6 \<le> 40960" using dir_at_entry_bound [OF dq] by simp
  define m' where "m' = (if de_rec_len m (q + ?r) > 0
      then snd (memmove m q (q + ?r) (40960 - (q + ?r))) else mfill m q NUL ?r)"
  note rem = dir_remove_at [OF dm m'_def q_def]
  have u: "abyssfs_unlink p st = Some (0, st1\<lparr>blocks := m'\<rparr>)"
    unfolding abyssfs_unlink_def Let_def s(3) root_block [OF sbk] option.case find bind.bind_lunit ino st1_def [symmetric] m_def [symmetric]
    using bnd by (simp add: ABYSSFS_DIR_ENTRY_FIXED_SIZE_def DISK_SIZE_def BLOCK_SIZE_def m'_def)
  have "i_mode (st1\<lparr>blocks := m'\<rparr>) (inode_addr n) = i_mode st1 (inode_addr n)"
    unfolding i_mode_def by (rule ld32_cong) (use rem(2) inode_addr_bounds [OF n] in \<open>simp_all add: m_def\<close>)
  moreover have "used_blocks (st1\<lparr>blocks := m'\<rparr>) = used_blocks st1" by (simp add: used_blocks_def)
  moreover have "m' a = blocks st a" if "\<not> (36864 \<le> a \<and> a < 40960)" "a < inode_addr n \<or> inode_addr n + 64 \<le> a" for a
    using rem(2) [of a] rel(3) [of a] that by (auto simp: m_def)
  ultimately show thesis
    using u rel(1,2,4) rem(1) by (intro that [of "st1\<lparr>blocks := m'\<rparr>"]) simp_all
qed

lemma unlink_root:
  assumes wf: "abyss_wf st (us @ (s, n) # vs)" and s: "s \<notin> fst ` set us" "NUL \<notin> set s" "skip_slash p = s"
    and n: "unat n < 512" "n \<noteq> 1" "i_blocks st (inode_addr n) \<noteq> 9" and ne: "us @ vs \<noteq> []"
  obtains st' where "abyssfs_unlink p st = Some (0, st')" "abyss_wf st' (us @ vs)" "i_mode st' (inode_addr n) = 0"
    "used_blocks st' = used_blocks st
      - (if i_blocks st (inode_addr n) \<noteq> 0 \<and> unat (i_blocks st (inode_addr n)) < 64 then {unat (i_blocks st (inode_addr n))} else {})"
proof -
  have d: "dir_at (blocks st) 36864 40960 (us @ (s, n) # vs)" using wf by (simp add: abyss_wf_def root_dir_def)
  from abyss_wf_sb [OF wf] d s n(1) obtain st' where st': "abyssfs_unlink p st = Some (0, st')" "sb_ok st'"
    "dir_at (blocks st') 36864 40960 (us @ vs)" "i_mode st' (inode_addr n) = 0"
    "used_blocks st' = used_blocks st
      - (if i_blocks st (inode_addr n) \<noteq> 0 \<and> unat (i_blocks st (inode_addr n)) < 64 then {unat (i_blocks st (inode_addr n))} else {})"
    "\<And>a. \<not> (36864 \<le> a \<and> a < 40960) \<Longrightarrow> a < inode_addr n \<or> inode_addr n + 64 \<le> a \<Longrightarrow> blocks st' a = blocks st a"
    by (rule unlink_at) (rule that; assumption | blast)
  have "abyss_wf st' (us @ vs)"
  proof (rule abyss_wf_cong [OF wf st'(2)])
    have "9 \<in> used_blocks st" "unat (i_blocks st (inode_addr n)) \<noteq> 9"
      using wf n(3) by (auto simp: abyss_wf_def word_unat_eq_iff)
    then show "9 \<in> used_blocks st'" using st'(5) by simp
    show "blocks st' a = blocks st a" if "inode_addr 1 \<le> a" "a < inode_addr 1 + 64" for a
      using that st'(6) [of a] inode_addr_apart [OF n(2)] by (auto simp: inode_addr_1)
    show "root_dir st' (us @ vs)" using st'(3) by (simp add: root_dir_def)
  qed (rule ne)
  with st' show thesis by (intro that [of st']) auto
qed

lemma unlink_missing:
  assumes "abyss_wf st es" "skip_slash p \<notin> fst ` set es" "NUL \<notin> set p"
  shows "abyssfs_unlink p st = Some (-1, st)"
proof -
  have "set (skip_slash p) \<subseteq> set p" by (cases p) (auto simp: skip_slash_def)
  then have "dir_find (blocks st) 36864 (skip_slash p) = Some None"
    using assms by (intro dir_find_None [of _ _ 40960 es]) (auto simp: abyss_wf_def root_dir_def DISK_SIZE_def)
  then show ?thesis
    by (simp add: abyssfs_unlink_def Let_def root_block [OF abyss_wf_sb [OF assms(1)]])
qed


section \<open>Listings\<close>

lemma cstr_at_cstr: "cstr m a s \<Longrightarrow> a + length s < DISK_SIZE \<Longrightarrow> length s < n \<Longrightarrow> cstr_at n m a = Some s"
proof (induction s arbitrary: a n)
  case Nil
  then show ?case by (cases n) auto
next
  case (Cons c s)
  then show ?case by (cases n) auto
qed

declare dir_list.simps [simp del]

definition as_dirent :: "string \<times> u32 \<Rightarrow> dirent" where
  "as_dirent e = \<lparr>d_inode = ucast (snd e), d_name = fst e\<rparr>"

lemma dir_list_at:
  "dir_at m p b es \<Longrightarrow> b \<le> DISK_SIZE \<Longrightarrow> dir_list n m p = Some (take n (map as_dirent es))"
proof (induction es arbitrary: p n)
  case Nil
  then show ?case by (subst dir_list.simps) (simp add: dir_at.simps ABYSSFS_DIR_ENTRY_FIXED_SIZE_def)
next
  case (Cons e es)
  have bnd: "p + de_rec_len m p + 6 \<le> b" "0 < de_rec_len m p" "esize (fst e) \<le> de_rec_len m p"
    using dir_at_entry_bound [OF Cons.prems(1)] dir_at_rec_pos [OF Cons.prems(1)] by auto
  have e: "name_ok (fst e)" "cstr m (p + 6) (fst e)" "de_inode m p = snd e" and
    nxt: "dir_at m (p + de_rec_len m p) b es"
    using Cons.prems(1) unfolding dir_at.simps by blast+
  have "cstr_at 256 m (p + 6) = Some (fst e)"
    by (rule cstr_at_cstr [OF e(2)]) (use e(1) bnd Cons.prems(2) esize_bounds(1) [of "fst e"] in \<open>auto simp: name_ok_def\<close>)
  with Cons.IH [OF nxt Cons.prems(2)] e(3) bnd Cons.prems(2) show ?case
    by (subst dir_list.simps) (cases n; simp add: ABYSSFS_DIR_ENTRY_FIXED_SIZE_def as_dirent_def [of e])
qed

lemma read_dir_root:
  assumes "abyss_wf st es" "p = [] \<or> p = ''/''"
  shows "abyssfs_read_dir p n st = Some (Some (take n (map as_dirent es)))"
proof -
  have "dir_list n (blocks st) 36864 = Some (take n (map as_dirent es))"
    using assms(1) by (intro dir_list_at [of _ _ 40960]) (auto simp: abyss_wf_def root_dir_def DISK_SIZE_def)
  then show ?thesis
    using assms(2) by (auto simp: abyssfs_read_dir_def Let_def root_block [OF abyss_wf_sb [OF assms(1)]])
qed

section \<open>File contents\<close>

lemma unat_ucast_32: "unat (ucast (w :: u32) :: u64) = unat w"
proof -
  have "unat w < 2 ^ 64" using unsigned_less [where 'a = nat, of w] by simp
  then show ?thesis by (simp add: unsigned_ucast_eq take_bit_nat_eq_self)
qed

text \<open>A write to a file that has a block: the data goes to the start of the block.\<close>

lemma write_to_blocks_at:
  assumes "i_blocks st p = b" "b \<noteq> 0" "unat b < 64" "length buf \<le> 4096"
  shows "write_to_blocks p buf (of_nat (length buf)) st
    = Some (of_nat (length buf), st\<lparr>blocks := mwrite (blocks st) (unat b * 4096) buf\<rparr>)"
proof -
  have len: "unat (of_nat (length buf) :: u64) = length buf" using assms(4) by (simp add: unat_of_nat)
  have a: "unat (b * of_nat BLOCK_SIZE) = unat b * 4096"
    using assms(3) by (simp add: BLOCK_SIZE_def unat_word_ariths)
  have "\<not> (of_nat (length buf) > (of_nat BLOCK_SIZE :: u64))"
    using assms(4) len by (simp add: word_less_nat_alt BLOCK_SIZE_def)
  then show ?thesis
    using assms a len by (simp add: write_to_blocks_def Let_def DISK_SIZE_def)
qed

lemma abyssfs_read_at:
  assumes sbk: "sb_ok st" and f: "file_inode file = Some n" "f_pos file = 0" and n: "unat n < 512"
    and b: "unat (i_blocks st (inode_addr n)) < 64" and sz: "unat (i_size st (inode_addr n)) \<le> 4096"
    and c: "unat count \<le> 2 ^ 63"
  defines "bs \<equiv> mread (blocks st) (unat (i_blocks st (inode_addr n)) * 4096) (min (unat count) (unat (i_size st (inode_addr n))))"
  shows "abyssfs_read file count st = Some (int (length bs), bs, file\<lparr>f_pos := of_nat (length bs)\<rparr>)"
proof -
  let ?s = "i_size st (inode_addr n)" and ?b = "i_blocks st (inode_addr n)"
  have a: "unat (?b * of_nat BLOCK_SIZE) = unat ?b * 4096"
    using b by (simp add: BLOCK_SIZE_def unat_word_ariths)
  show ?thesis
  proof (cases "?s = 0")
    case True
    then have "bs = []" by (simp add: bs_def)
    with True f n show ?thesis by (simp add: abyssfs_read_def get_inode_ok [OF sbk] f(2))
  next
    case False
    define k where "k = (if count > (ucast ?s :: u64) then ucast ?s else count)"
    have k: "unat k = min (unat count) (unat ?s)"
      by (auto simp: k_def word_less_nat_alt unat_ucast_32 min_def)
    have k2: "sint k = int (unat k)" using k sz by (intro sint_small) simp
    have "(ucast ?s :: u64) \<noteq> 0" using False unat_ucast_32 [of ?s] by (auto simp: unat_eq_0)
    then have pos: "\<not> f_pos file \<ge> (ucast ?s :: u64)" using f(2) by (simp add: word_le_nat_alt unat_eq_0)
    have le: "unat ?b * 4096 + unat k \<le> DISK_SIZE" using b k sz by (simp add: DISK_SIZE_def)
    have ik: "get_inode n st = Some (inode_addr n)" using n by (simp add: get_inode_ok [OF sbk])
    have ke: "(if f_pos file + count > ucast ?s then ucast ?s - f_pos file else count) = k"
      by (simp add: k_def f(2))
    have bs: "mread (blocks st) (unat ?b * 4096) (unat k) = bs" "length bs = unat k" by (simp_all add: bs_def k)
    show ?thesis
      unfolding abyssfs_read_def f(1) bind.bind_lunit ik option.case Let_def ke a bs
      using pos le k2 by (simp add: f(2) bs)
  qed
qed

end
