(* ===== verification/Abyss_Props.thy ===== *)
theory Abyss_Props
  imports Abyss_Ops String_Props
begin

text \<open>
  What AbyssFS guarantees, and where it does not: the properties of \<open>src/src/fs/abyssfs.c\<close>.
\<close>

section \<open>A disk for the witnesses\<close>

definition demo_disk :: abyss where
  "demo_disk = abyss_format abyss0"

lemma demo_disk_wf: "abyss_wf demo_disk [(''.'', 1), (''..'', 1)]"
  unfolding demo_disk_def by (rule abyss_format_wf)

lemma demo_disk_sb: "sb_ok demo_disk"
  by (rule abyss_wf_sb [OF demo_disk_wf])


lemma demo_disk_zero:
  "a < DISK_SIZE \<Longrightarrow> \<not> (4160 \<le> a \<and> a < 4224) \<Longrightarrow> \<not> (36864 \<le> a \<and> a < 37126) \<Longrightarrow> blocks demo_disk a = NUL"
  unfolding demo_disk_def by (rule abyss_format_wf)

lemma fresh_block:
  assumes "sb_ok st" "used_blocks st = {0..9}"
  obtains b st' where "alloc_block st = (b, st')" "b \<noteq> 0" "unat b \<notin> {0..9}" "unat b < 64"
proof -
  obtain b st' where b: "alloc_block st = (b, st')" by force
  have b0: "b \<noteq> 0"
  proof
    assume "b = 0"
    with disk_pool.alloc_None [OF assms(1), of st'] b assms(2) have "{9..<64} \<subseteq> {0..9::nat}" by simp
    then have "10 \<in> {0..9::nat}" by (rule subsetD) simp
    then show False by simp
  qed
  with disk_pool.alloc_Some [OF assms(1) b b0] assms(2) b show thesis by (intro that) auto
qed

lemma format_inode_2: "fst (alloc_inode (abyss_format st)) = 2"
proof -
  let ?d = "abyss_format st"
  note wf = abyss_format_wf [where st = st]
  have z: "i_mode ?d (inode_addr 2) = 0"
    by (simp add: i_mode_def inode_addr_def ld32_def wf(5) DISK_SIZE_def)
  from abyss_wf_sb [OF wf(1)] show ?thesis
  proof (cases rule: alloc_inode_cases)
    case full
    with z show ?thesis using full(2) [of 2] by simp
  next
    case (ok n)
    have "\<not> 2 < n" using ok(4) [of 2] z by auto
    moreover have "n \<noteq> 1" using ok(3) wf(1) by (auto simp: abyss_wf_def)
    ultimately have "unat n \<le> 2" "unat n \<noteq> 1" "unat n \<noteq> 0"
      using ok(1) by (simp_all add: word_less_nat_alt word_unat_eq_iff)
    then have "unat n = unat (2 :: u32)" by simp
    then have "n = 2" by (simp only: word_unat_eq_iff)
    with ok(5) show ?thesis by simp
  qed
qed

lemma demo_disk_inode_2: "fst (alloc_inode demo_disk) = 2"
  by (simp add: demo_disk_def format_inode_2)



section \<open>Formatting and blocks\<close>

text \<open>formatting gives an empty file system: inode 1 is the root directory, whose block 9 holds \<open>.\<close> and \<open>..\<close>, and
  exactly blocks 0 to 9 are in use. A second call changes nothing. The free count is one too high: it says 55
  although 54 data blocks are free, since the root block is taken without counting it.\<close>

theorem abyssfs_init_formats:
  assumes "\<not> abyssfs_initialized st" "kalloc (heap_pos km) 262144 = (Some a, h)"
  shows "\<exists>st'. abyssfs_init st km = (st', km\<lparr>heap_pos := h\<rparr>) \<and> abyss_wf st' [(''.'', 1), (''..'', 1)]
    \<and> used_blocks st' = {0..9} \<and> (\<forall>km2. abyssfs_init st' km2 = (st', km2))
    \<and> free_blocks (sb st') = 55 \<and> card ({9..<64} - used_blocks st') = 54"
proof -
  have e: "abyssfs_init st km = (abyss_format st, km\<lparr>heap_pos := h\<rparr>)"
    using assms by (simp add: abyssfs_init_def BLOCK_SIZE_def)
  have "{9..<64} - {0..9} = {10..<64 :: nat}" by auto
  then have "card ({9..<64} - used_blocks (abyss_format st)) = 54" by (simp add: abyss_format_wf(2))
  with e abyss_format_wf(1-4) [of st] show ?thesis by (auto simp: abyssfs_init_def)
qed

theorem abyssfs_init_formats_witness:
  "\<exists>st'. abyssfs_init abyss0 \<lparr>heap_pos = 0, fobjs = (\<lambda>_. zero_file)\<rparr> = (st', \<lparr>heap_pos = 262144, fobjs = (\<lambda>_. zero_file)\<rparr>)
    \<and> abyss_wf st' [(''.'', 1), (''..'', 1)]"
  using abyssfs_init_formats [of abyss0 "\<lparr>heap_pos = 0, fobjs = (\<lambda>_. zero_file)\<rparr>" 0 262144]
  by (auto simp: abyss0_def kalloc_def HEAP_SIZE_def)

text \<open>C16: the block allocator never hands out a block twice: successive allocations give distinct data blocks that
  were free before (0 means that none is left). Giving back a data block frees that block and no other, and it is among the next 55
  blocks handed out, 55 being the number of data blocks.\<close>

theorem alloc_block_never_twice:
  assumes "sb_ok st"
  shows "distinct (filter (\<lambda>b. b \<noteq> 0) (alloc_blocks n alloc_block st))
    \<and> list_all (\<lambda>b. b = 0 \<or> 9 \<le> unat b \<and> unat b < 64 \<and> unat b \<notin> used_blocks st) (alloc_blocks n alloc_block st)
    \<and> (9 \<le> unat c \<and> unat c < 64 \<longrightarrow> used_blocks (free_block c st) = used_blocks st - {unat c}
         \<and> c \<in> set (alloc_blocks 55 alloc_block (free_block c st)))"
proof (intro conjI impI)
  assume "9 \<le> unat c \<and> unat c < 64"
  then have c: "c \<noteq> 0" "9 \<le> unat c" "unat c < 64" by auto
  from disk_pool.free_then_alloc [OF assms c]
  show "used_blocks (free_block c st) = used_blocks st - {unat c}" "c \<in> set (alloc_blocks 55 alloc_block (free_block c st))" by simp_all
qed (use disk_pool.alloc_blocks_distinct [OF assms, of n] disk_pool.alloc_blocks_fresh [OF assms, of _ n] in \<open>auto simp: list_all_iff\<close>)

theorem alloc_block_never_twice_witness:
  "distinct (filter (\<lambda>b. b \<noteq> 0) (alloc_blocks 60 alloc_block demo_disk)) \<and> used_blocks (free_block 9 demo_disk) = {0..8}
    \<and> 9 \<in> set (alloc_blocks 55 alloc_block (free_block 9 demo_disk))"
proof -
  have "used_blocks demo_disk = {0..9}" by (simp add: demo_disk_def abyss_format_wf(2))
  moreover have "{0..9} - {9} = {0..8 :: nat}" by auto
  ultimately show ?thesis using alloc_block_never_twice [OF demo_disk_sb, of 60 9] by simp
qed

section \<open>Paths\<close>

text \<open>C14: path lookup follows the directories: on a disk whose known directories are the association lists \<open>D\<close>, looking up
  a path of at most 255 characters walks the lists component by component from inode 1; a missing
  component gives a null pointer.\<close>

theorem get_inode_by_path_walks:
  assumes "dirs_ok D st" "tree_walk D 1 ts = Some r" "ts \<noteq> []" "length (join_path ts) \<le> 256"
    and "list_all (\<lambda>t. t \<noteq> [] \<and> CHR ''/'' \<notin> set t \<and> NUL \<notin> set t) ts"
  shows "get_inode_by_path (join_path ts) st = Some (case r of None \<Rightarrow> None | Some j \<Rightarrow> get_inode j st)"
proof -
  obtain t us where ts: "ts = t # us" using assms(3) by (cases ts) auto
  define p where "p = t @ join_path us"
  have j: "join_path ts = CHR ''/'' # p" by (simp add: ts p_def)
  have "list_all (\<lambda>c. c \<noteq> [] \<and> CHR ''/'' \<notin> set c) ts" using assms(5) by (auto simp: list_all_iff)
  then have tok: "tokens ''/'' (join_path ts) = ts"
  proof (induction ts)
    case (Cons c cs)
    have "join_path cs = [] \<or> hd (join_path cs) \<in> set ''/''" by (cases cs) auto
    with Cons tokens_word [of c "''/''" "join_path cs"] show ?case by (auto simp: tokens_delim)
  qed simp
  have "tokens ''/'' p = ts" using tok by (simp add: j tokens_delim)
  moreover have "p \<noteq> []" "take 255 p = p" using assms(4,5) by (auto simp: p_def j ts)
  moreover have "path_walk st (get_inode 1 st) ts = Some (case r of None \<Rightarrow> None | Some j \<Rightarrow> get_inode j st)"
    using assms(1,2,5) by (intro path_walk_tree) (auto simp: list_all_iff)
  ultimately show ?thesis by (simp add: get_inode_by_path_def j)
qed

theorem get_inode_by_path_walks_witness:
  "get_inode_by_path ''/../.'' demo_disk = Some (get_inode 1 demo_disk)"
  using get_inode_by_path_walks [OF abyss_wf_dirs_ok [OF demo_disk_wf], of "[''..'', ''.'']" "Some 1"] by simp

section \<open>Creating and removing\<close>



text \<open>C13: unlinking a name removes it: the first record with that name leaves the root directory and the others stay, the
  inode is marked free and its block is given back. This holds for every name, \<open>.\<close> and \<open>..\<close> included, for which it frees the root itself; the disk stays
  well formed when the inode is not the root's, its block is not the root's and an entry is left. A name that is not there gives -1 and changes nothing.\<close>

theorem abyssfs_unlink_removes:
  assumes "abyss_wf st es" "NUL \<notin> set s" "CHR ''/'' \<notin> set s" "\<forall>(t, n) \<in> set es. unat n < 512"
  shows "case map_of es s of
      None \<Rightarrow> abyssfs_unlink (''/'' @ s) st = Some (-1, st)
    | Some n \<Rightarrow> (\<exists>us vs st'. es = us @ (s, n) # vs \<and> s \<notin> fst ` set us \<and> abyssfs_unlink (''/'' @ s) st = Some (0, st')
          \<and> root_dir st' (us @ vs) \<and> i_mode st' (inode_addr n) = 0
          \<and> used_blocks st' = used_blocks st - (let b = i_blocks st (inode_addr n) in if b \<noteq> 0 \<and> unat b < 64 then {unat b} else {})
          \<and> (n \<noteq> 1 \<and> i_blocks st (inode_addr n) \<noteq> 9 \<and> us @ vs \<noteq> [] \<longrightarrow> abyss_wf st' (us @ vs)))"
proof (cases "map_of es s")
  case None
  then have "abyssfs_unlink (''/'' @ s) st = Some (-1, st)"
    using assms by (intro unlink_missing) (auto simp: map_of_eq_None_iff)
  with None show ?thesis by simp
next
  case (Some n)
  from map_of_split [OF Some] obtain us vs where es: "es = us @ (s, n) # vs" "s \<notin> fst ` set us" by blast
  have n: "unat n < 512" using assms(4) es(1) by auto
  have d: "dir_at (blocks st) 36864 40960 (us @ (s, n) # vs)" using assms(1) es(1) by (simp add: abyss_wf_def root_dir_def)
  have p: "skip_slash (''/'' @ s) = s" by simp
  obtain st' where st': "abyssfs_unlink (''/'' @ s) st = Some (0, st')" "root_dir st' (us @ vs)" "i_mode st' (inode_addr n) = 0"
    "used_blocks st' = used_blocks st
      - (if i_blocks st (inode_addr n) \<noteq> 0 \<and> unat (i_blocks st (inode_addr n)) < 64 then {unat (i_blocks st (inode_addr n))} else {})"
    by (rule unlink_at [OF abyss_wf_sb [OF assms(1)] d es(2) assms(2) p n]) (rule that; simp add: root_dir_def)
  have "abyss_wf st' (us @ vs)" if "n \<noteq> 1" "i_blocks st (inode_addr n) \<noteq> 9" "us @ vs \<noteq> []"
    using unlink_root [OF assms(1) [unfolded es(1)] es(2) assms(2) p n that] st'(1) by auto
  with es st' show ?thesis unfolding Some option.case Let_def by (intro exI [of _ us] exI [of _ vs] exI [of _ st']) blast
qed

theorem abyssfs_unlink_removes_witness:
  "\<exists>st st'. abyss_wf st [(''.'', 1), (''..'', 1), (''f'', 2)] \<and> abyssfs_unlink ''/f'' st = Some (0, st') \<and> abyss_wf st' [(''.'', 1), (''..'', 1)]
    \<and> i_mode st' (inode_addr 2) = 0"
proof -
  obtain st1 where n: "alloc_inode demo_disk = (2, st1)" using demo_disk_inode_2 by (cases "alloc_inode demo_disk") auto
  note ai = alloc_inode_wf [OF demo_disk_wf n]
  obtain st where st: "abyss_wf st ([(''.'', 1), (''..'', 1)] @ [(''f'', 2)])" "\<And>a. a < 36864 \<or> 40960 \<le> a \<Longrightarrow> blocks st a = blocks st1 a"
    by (rule create_file_root [OF ai(1), of "''f''" 2]) (simp_all add: name_ok_def esize_def esize_dots)
  have "i_blocks st (inode_addr 2) = i_blocks st1 (inode_addr 2)"
    by (rule inode_fields_cong) (use st(2) inode_addr_bounds [of 2] in auto)
  then have b: "i_blocks st (inode_addr 2) = 0" using ai(5) by simp
  have e: "us = [(''.'', 1), (''..'', 1)] \<and> vs = []" if "[(''.'', 1), (''..'', 1), (''f'', 2 :: u32)] = us @ (''f'', 2) # vs" for us vs
    using that by (cases us; cases "tl us"; cases "tl (tl us)") auto
  show ?thesis using abyssfs_unlink_removes [OF st(1), of "''f''"] st(1) b by (auto dest!: e)
qed

text \<open>nothing protects the root directory: unlinking \<open>.\<close> succeeds, marks the root inode free and gives back the
  root block, so that the next file created or written can take them.\<close>

theorem abyssfs_unlink_dot_frees_root:
  assumes "abyss_wf st ((''.'', 1) # es)"
  shows "\<exists>st'. abyssfs_unlink ''/.'' st = Some (0, st') \<and> i_mode st' (inode_addr 1) = 0 \<and> 9 \<notin> used_blocks st'"
proof -
  have d: "dir_at (blocks st) 36864 40960 ([] @ (''.'', 1) # es)" and b: "i_blocks st (inode_addr 1) = 9"
    using assms by (simp_all add: abyss_wf_def root_dir_def)
  obtain st' where "abyssfs_unlink ''/.'' st = Some (0, st')" "i_mode st' (inode_addr 1) = 0"
    "used_blocks st' = used_blocks st - (if i_blocks st (inode_addr 1) \<noteq> 0 \<and> unat (i_blocks st (inode_addr 1)) < 64
      then {unat (i_blocks st (inode_addr 1))} else {})"
    by (rule unlink_at [OF abyss_wf_sb [OF assms] d, of "''/.''"]) auto
  then show ?thesis by (auto simp: b)
qed

theorem abyssfs_unlink_dot_frees_root_witness:
  "\<exists>st'. abyssfs_unlink ''/.'' demo_disk = Some (0, st') \<and> 9 \<notin> used_blocks st'"
  using abyssfs_unlink_dot_frees_root [OF demo_disk_wf] by auto

text \<open>C18: a listing of the root directory gives its names and inode numbers in order, as many as the caller has room for.\<close>

theorem abyssfs_read_dir_lists:
  assumes "abyss_wf st es"
  shows "abyssfs_read_dir ''/'' max_entries st = Some (Some (take max_entries (map (\<lambda>(s, n). \<lparr>d_inode = ucast n, d_name = s\<rparr>) es)))"
  using read_dir_root [OF assms, of "''/''" max_entries]
  by (simp add: as_dirent_def [abs_def] case_prod_unfold)

theorem abyssfs_read_dir_lists_witness:
  "abyssfs_read_dir ''/'' 32 demo_disk = Some (Some [\<lparr>d_inode = 1, d_name = ''.''\<rparr>, \<lparr>d_inode = 1, d_name = ''..''\<rparr>])"
  using abyssfs_read_dir_lists [OF demo_disk_wf, of 32] by simp


section \<open>File contents\<close>

lemma abyssfs_write_block:
  assumes sbk: "sb_ok st" and f: "file_inode file = Some n" and n: "unat n < 512"
    and b: "i_blocks st (inode_addr n) = b" "9 \<le> unat b" "unat b < 64" and buf: "length buf \<le> 4096" "buf \<noteq> []"
  obtains st' where "abyssfs_write file buf (of_nat (length buf)) st = Some (int (length buf), file, st')"
    "mread (blocks st') (unat b * 4096) 4096 = buf @ drop (length buf) (mread (blocks st) (unat b * 4096) 4096)"
    "i_size st' (inode_addr n) = i_size st (inode_addr n) + of_nat (length buf)" "i_blocks st' (inode_addr n) = b" "sb_ok st'"
proof -
  let ?p = "inode_addr n" and ?d = "unat b * 4096"
  let ?st1 = "st\<lparr>blocks := mwrite (blocks st) ?d buf\<rparr>"
  let ?st2 = "set_i_size ?p (i_size ?st1 ?p + of_nat (length buf)) ?st1"
  have bnd: "?p + 64 \<le> ?d" using inode_addr_bounds [OF n] b(2) by simp
  have len: "unat (of_nat (length buf) :: u64) = length buf" using buf(1) by (simp add: unat_of_nat)
  have pos: "(of_nat (length buf) :: u64) > 0" using len buf(2) by (simp add: word_less_nat_alt)
  have si: "sint (of_nat (length buf) :: u64) = int (length buf)"
    using sint_small [of "of_nat (length buf)"] buf(1) len by simp
  have b0: "b \<noteq> 0" using b(2) by auto
  have low: "blocks ?st1 a = blocks st a" if "a < ?d" for a using that by (simp add: mwrite_out)
  have i1: "i_size ?st1 ?p = i_size st ?p" "i_blocks ?st1 ?p = i_blocks st ?p"
    by (rule inode_fields_cong; use low bnd in simp)+
  have uc: "ucast (of_nat (length buf) :: u64) = (of_nat (length buf) :: u32)" 
    using buf(1) by (simp add: word_unat_eq_iff unsigned_ucast_eq unsigned_of_nat take_bit_nat_eq_self)
  have w: "abyssfs_write file buf (of_nat (length buf)) st = Some (int (length buf), file, ?st2)"
    unfolding abyssfs_write_def f bind.bind_lunit
    using n pos by (simp add: get_inode_ok [OF sbk] write_to_blocks_at [OF b(1) b0 b(3) buf(1)] si uc)
  have "mread (blocks ?st2) ?d 4096 = buf @ drop (length buf) (mread (blocks st) ?d 4096)"
  proof (rule nth_equalityI)
    fix k assume k: "k < length (mread (blocks ?st2) ?d 4096)"
    have "blocks ?st2 (?d + k) = blocks ?st1 (?d + k)"
      by (rule inode_frame) (use bnd in simp)
    with k show "mread (blocks ?st2) ?d 4096 ! k = (buf @ drop (length buf) (mread (blocks st) ?d 4096)) ! k"
      by (auto simp: mwrite_def mcopy_def nth_append)
  qed (use buf in simp)
  then show thesis using w i1 b(1) sbk by (intro that [of ?st2]) (simp_all add: sb_ok_def)
qed

text \<open>C17: data written to a new file comes back: the first write of up to 4096 bytes takes a free block, and a read from the
  start returns the bytes written.\<close>

theorem abyssfs_write_read:
  assumes "sb_ok st" "file_inode file = Some n" "f_pos file = 0" "unat n < 512"
    and "i_blocks st (inode_addr n) = 0" "i_size st (inode_addr n) = 0" "alloc_block st = (b, st1)" "b \<noteq> 0"
    and "length buf \<le> 4096" "buf \<noteq> []"
  shows "\<exists>st'. abyssfs_write file buf (of_nat (length buf)) st = Some (int (length buf), file, st')
    \<and> abyssfs_read file (of_nat (length buf)) st' = Some (int (length buf), buf, file\<lparr>f_pos := of_nat (length buf)\<rparr>)"
proof -
  let ?p = "inode_addr n" and ?len = "of_nat (length buf) :: u64"
  have ab: "9 \<le> unat b" "unat b < 64" "sb_ok st1"
    using disk_pool.alloc_Some [OF assms(1,7,8)] by auto
  have blk1: "blocks st1 = blocks st" by (rule alloc_block_cases [OF assms(1)]) (use assms(7,8) in auto)
  define st2 where "st2 = set_i_blocks ?p b st1"
  have st2: "sb_ok st2" "i_blocks st2 ?p = b" "i_size st2 ?p = 0"
    using ab assms(6) inode_fields_cong(2) [of ?p st1 st] blk1 by (simp_all add: st2_def sb_ok_def)
  have g: "get_inode n st = Some ?p" "get_inode n st2 = Some ?p"
    using assms(4) by (simp_all add: get_inode_ok [OF assms(1)] get_inode_ok [OF st2(1)])
  have wb: "write_to_blocks ?p buf ?len st = write_to_blocks ?p buf ?len st2"
    unfolding write_to_blocks_def Let_def assms(5,7) st2(2) using assms(8) by (simp add: st2_def)
  have same: "abyssfs_write file buf ?len st = abyssfs_write file buf ?len st2"
    unfolding abyssfs_write_def assms(2) bind.bind_lunit g option.case wb ..
  obtain st' where st': "abyssfs_write file buf ?len st2 = Some (int (length buf), file, st')"
    "mread (blocks st') (unat b * 4096) 4096 = buf @ drop (length buf) (mread (blocks st2) (unat b * 4096) 4096)"
    "i_size st' ?p = 0 + of_nat (length buf)" "i_blocks st' ?p = b" "sb_ok st'"
    by (rule abyssfs_write_block [OF st2(1) assms(2,4) st2(2) ab(1,2) assms(9,10)]) (use st2(3) in auto)
  have sz: "unat (i_size st' ?p) = length buf" using st'(3) assms(9) by (simp add: unat_of_nat)
  have len: "unat ?len = length buf" using assms(9) by (simp add: unat_of_nat)
  have "mread (blocks st') (unat b * 4096) (length buf) = take (length buf) (mread (blocks st') (unat b * 4096) 4096)"
    using assms(9) by (intro nth_equalityI) simp_all
  then have rd: "mread (blocks st') (unat b * 4096) (length buf) = buf" by (simp add: st'(2))
  have "abyssfs_read file ?len st' = Some (int (length buf), buf, file\<lparr>f_pos := of_nat (length buf)\<rparr>)"
    using abyssfs_read_at [OF st'(5) assms(2,3,4), of ?len] ab(2) assms(9) by (simp add: st'(4) sz len rd)
  with st'(1) same show ?thesis by auto
qed

theorem abyssfs_write_read_witness:
  "\<exists>st'. abyssfs_write zero_file ''hello'' 5 demo_disk = Some (5, zero_file, st')
    \<and> abyssfs_read zero_file 5 st' = Some (5, ''hello'', zero_file\<lparr>f_pos := 5\<rparr>)"
proof -
  obtain b st1 where b: "alloc_block demo_disk = (b, st1)" "b \<noteq> 0"
    by (rule fresh_block [OF demo_disk_sb]) (simp add: demo_disk_def abyss_format_wf(2))
  have "i_blocks demo_disk (inode_addr 0) = 0" "i_size demo_disk (inode_addr 0) = 0"
    by (simp_all add: i_blocks_def i_size_def inode_addr_def ld32_def demo_disk_zero DISK_SIZE_def)
  from abyssfs_write_read [OF demo_disk_sb _ _ _ this b, of zero_file "''hello''"] show ?thesis
    by (simp add: file_inode_def zero_file_def)
qed

text \<open>writes do not append. A second write puts its data at the start of the block, over the first, yet adds its length to
  the file size: the file then holds the new data, the tail of the old, and a size that is the sum of both.\<close>

theorem abyssfs_second_write_overwrites:
  assumes "sb_ok st" "file_inode file = Some n" "unat n < 512"
    and "9 \<le> unat (i_blocks st (inode_addr n))" "unat (i_blocks st (inode_addr n)) < 64" "length buf \<le> 4096" "buf \<noteq> []"
  shows "\<exists>st'. abyssfs_write file buf (of_nat (length buf)) st = Some (int (length buf), file, st')
    \<and> i_size st' (inode_addr n) = i_size st (inode_addr n) + of_nat (length buf)
    \<and> mread (blocks st') (unat (i_blocks st (inode_addr n)) * 4096) 4096
      = buf @ drop (length buf) (mread (blocks st) (unat (i_blocks st (inode_addr n)) * 4096) 4096)"
  by (rule abyssfs_write_block [OF assms(1-3) refl assms(4-7)]) blast

theorem abyssfs_second_write_overwrites_witness:
  "\<exists>st'. abyssfs_write (zero_file\<lparr>private_data := Num 1\<rparr>) ''hello'' 5 demo_disk = Some (5, zero_file\<lparr>private_data := Num 1\<rparr>, st')"
  using abyssfs_second_write_overwrites [OF demo_disk_sb, of "zero_file\<lparr>private_data := Num 1\<rparr>" 1 "''hello''"] demo_disk_wf
  by (auto simp: file_inode_def abyss_wf_def)

section \<open>Helpers without a caller\<close>

lemma strip_common_append: "strip_common d (d @ r) = ([], r)" "strip_common d d = ([], [])"
  by (induction d) auto

lemma strip_common_sub: "strip_common d f = (a, b) \<Longrightarrow> set a \<subseteq> set d \<and> set b \<subseteq> set f"
  by (induction d f rule: strip_common.induct) (auto split: if_splits)

lemma strip_common_Nil: "strip_common d f = ([], r) \<Longrightarrow> f = d @ r"
  by (induction d f rule: strip_common.induct) (auto split: if_splits)

text \<open>\<open>is_file_in_dir\<close> holds exactly when the path is the directory or lies below it at a component boundary, at any depth.\<close>

lemma abyss_is_file_in_dir_iff:
  assumes "NUL \<notin> set d" "NUL \<notin> set f"
  shows "abyss_is_file_in_dir f d \<longleftrightarrow> (\<exists>r. skip_slash f = skip_slash d @ r \<and> (r = [] \<or> hd r = CHR ''/''))"
proof
  assume "abyss_is_file_in_dir f d"
  moreover obtain a b where ab: "strip_common (skip_slash d) (skip_slash f) = (a, b)" by fastforce
  moreover have "set a \<subseteq> set (skip_slash d)" "set b \<subseteq> set (skip_slash f)" using strip_common_sub [OF ab] by simp_all
  moreover have "set (skip_slash d) \<subseteq> set d" "set (skip_slash f) \<subseteq> set f" by (auto simp: skip_slash_def split: list.splits if_splits)
  ultimately have "a = []" "b = [] \<or> hd b = CHR ''/''"
    using assms by (cases a; cases b; force simp: abyss_is_file_in_dir_def cs_nth_def)+
  with strip_common_Nil [of "skip_slash d" "skip_slash f" b] ab
  show "\<exists>r. skip_slash f = skip_slash d @ r \<and> (r = [] \<or> hd r = CHR ''/'')" by blast
next
  assume "\<exists>r. skip_slash f = skip_slash d @ r \<and> (r = [] \<or> hd r = CHR ''/'')"
  then obtain r where r: "skip_slash f = skip_slash d @ r" "r = [] \<or> hd r = CHR ''/''" by blast
  then show "abyss_is_file_in_dir f d" by (cases r) (auto simp: abyss_is_file_in_dir_def strip_common_append cs_nth_def)
qed

text \<open>The disk is allocated once: a second call after a successful one changes nothing.\<close>

lemma allocate_blocks_once:
  assumes "allocate_blocks fresh st h = (0, st', h')"
  shows "allocate_blocks fresh' st' h' = (0, st', h')"
  using assms by (auto simp: allocate_blocks_def split: if_splits prod.splits option.splits)

end
