(* ===== verification/Vfs_Inv.thy ===== *)
theory Vfs_Inv
  imports Vfs Ramfs_Props Abyss_Props
begin

text \<open>
  Facts about the virtual file system: what each operation leaves alone, and the descriptor table under every
  sequence of operations (\<open>vfs_step\<close>).
\<close>

section \<open>What the file system calls leave alone\<close>

definition vfs_frame :: "kernel \<Rightarrow> kernel \<Rightarrow> bool" where
  "vfs_frame k k' \<longleftrightarrow> fd_table k' = fd_table k \<and> next_fd k' = next_fd k \<and> mount_points k' = mount_points k \<and> pt k' = pt k"

lemma vfs_frame_refl [simp]: "vfs_frame k k"
  by (simp add: vfs_frame_def)

lemma vfs_frame_trans: "vfs_frame k k1 \<Longrightarrow> vfs_frame k1 k2 \<Longrightarrow> vfs_frame k k2"
  by (simp add: vfs_frame_def)

lemma vfs_frame_upd [simp]:
  "vfs_frame k (k1\<lparr>km := m\<rparr>) \<longleftrightarrow> vfs_frame k k1"
  "vfs_frame k (k1\<lparr>ram := r\<rparr>) \<longleftrightarrow> vfs_frame k k1"
  "vfs_frame k (k1\<lparr>disk := d\<rparr>) \<longleftrightarrow> vfs_frame k k1"
  by (simp_all add: vfs_frame_def)

lemma fs_open_frame [frame_simps]: "fs_open fs p k = (a, k') \<Longrightarrow> vfs_frame k k'"
  by (auto simp: fs_open_eq split: fs_kind.splits prod.splits)

lemma fs_create_frame [frame_simps]: "fs_create fs p k = Some (a, k') \<Longrightarrow> vfs_frame k k'"
  by (auto simp: fs_create_eq split: fs_kind.splits prod.splits)

lemma fs_unlink_frame [frame_simps]: "fs_unlink fs p k = Some (a, k') \<Longrightarrow> vfs_frame k k'"
  by (auto simp: fs_unlink_eq split: fs_kind.splits prod.splits)

lemma fs_mkdir_frame [frame_simps]: "fs_mkdir fs p k = Some (a, k') \<Longrightarrow> vfs_frame k k'"
  by (auto simp: fs_mkdir_eq split: fs_kind.splits prod.splits)

lemma fs_remove_frame [frame_simps]: "fs_remove_recursive fs = Some f \<Longrightarrow> f p k = Some (a, k') \<Longrightarrow> vfs_frame k k'"
  by (auto simp: fs_remove_recursive_eq split: fs_kind.splits)

lemma fop_read_frame [frame_simps]: "fop_read fs a n k = Some (r, bs, k') \<Longrightarrow> vfs_frame k k'"
  by (auto simp: fop_read_eq split: fs_kind.splits)

lemma fop_write_frame [frame_simps]: "fop_write fs a b n k = Some (r, k') \<Longrightarrow> vfs_frame k k'"
  by (auto simp: fop_write_eq split: fs_kind.splits)

lemma resolve_namespace_frame [frame_simps]: "resolve_namespace_path p k = Some (r, k') \<Longrightarrow> vfs_frame k k'"
  by (auto simp: resolve_namespace_path_def split: option.splits)

lemma vfs_read_frame [frame_simps]: "vfs_read d n k = Some (r, bs, k') \<Longrightarrow> vfs_frame k k'"
  unfolding vfs_read_def by (auto split: option.splits if_splits dest: fop_read_frame)

lemma vfs_write_frame [frame_simps]: "vfs_write d b n k = Some (r, k') \<Longrightarrow> vfs_frame k k'"
  by (auto simp: vfs_write_def split: option.splits dest: fop_write_frame)

lemma vfs_read_dir_frame [frame_simps]: "vfs_read_dir p n k = Some (r, k') \<Longrightarrow> vfs_frame k k'"
  by (auto simp: vfs_read_dir_def split: option.splits dest: resolve_namespace_frame)

lemma vfs_unlink_frame [frame_simps]: "vfs_unlink p k = Some (r, k') \<Longrightarrow> vfs_frame k k'"
  by (auto simp: vfs_unlink_def split: option.splits dest: fs_unlink_frame)

lemma vfs_mkdir_frame [frame_simps]: "vfs_mkdir p k = Some (r, k') \<Longrightarrow> vfs_frame k k'"
  by (auto simp: vfs_mkdir_def split: option.splits dest: fs_mkdir_frame)

lemma vfs_remove_recursive_frame [frame_simps]: "vfs_remove_recursive p k = Some (r, k') \<Longrightarrow> vfs_frame k k'"
  by (auto simp: vfs_remove_recursive_def split: option.splits dest: fs_remove_frame)

section \<open>The descriptor table\<close>

text \<open>The table has its 32 places, and none at or after \<open>next_fd\<close> is in use.\<close>

definition fd_inv :: "kernel \<Rightarrow> bool" where
  "fd_inv k \<longleftrightarrow> length (fd_table k) = MAX_FD \<and> next_fd k \<le> MAX_FD \<and> (\<forall>i < MAX_FD. next_fd k \<le> i \<longrightarrow> fd_table k ! i = None)"

text \<open>What every operation does to the table: places in use so far may be cleared, new ones come at \<open>next_fd\<close>.\<close>

definition fd_grows :: "kernel \<Rightarrow> kernel \<Rightarrow> bool" where
  "fd_grows k k' \<longleftrightarrow> next_fd k \<le> next_fd k' \<and>
     (\<forall>i < next_fd k. fd_table k' ! i = fd_table k ! i \<or> fd_table k' ! i = None)"

lemma fd_grows_trans:
  assumes "fd_grows k k1" "fd_grows k1 k2"
  shows "fd_grows k k2"
  unfolding fd_grows_def
proof (intro conjI allI impI)
  show "next_fd k \<le> next_fd k2" using assms by (auto simp: fd_grows_def)
  fix i assume i: "i < next_fd k"
  then have "i < next_fd k1" using assms(1) by (auto simp: fd_grows_def)
  then have "fd_table k2 ! i = fd_table k1 ! i \<or> fd_table k2 ! i = None" using assms(2) by (auto simp: fd_grows_def)
  moreover have "fd_table k1 ! i = fd_table k ! i \<or> fd_table k1 ! i = None" using i assms(1) by (auto simp: fd_grows_def)
  ultimately show "fd_table k2 ! i = fd_table k ! i \<or> fd_table k2 ! i = None" by metis
qed

lemma vfs_frame_grows: "vfs_frame k k' \<Longrightarrow> fd_grows k k' \<and> (fd_inv k \<longrightarrow> fd_inv k')"
  by (simp add: vfs_frame_def fd_grows_def fd_inv_def)

lemma alloc_fd_cases:
  obtains (full) "next_fd k \<ge> MAX_FD" "alloc_fd a k = (-1, k)"
  | (ok) "next_fd k < MAX_FD"
      "alloc_fd a k = (int (next_fd k), k\<lparr>fd_table := (fd_table k)[next_fd k := Some a], next_fd := next_fd k + 1\<rparr>)"
  by (cases "next_fd k \<ge> MAX_FD") (auto simp: alloc_fd_def)

lemma alloc_fd_grows:
  assumes "alloc_fd a k = (d, k')"
  shows "fd_grows k k'" "fd_inv k \<Longrightarrow> fd_inv k'"
    and "d \<noteq> -1 \<Longrightarrow> d = int (next_fd k) \<and> next_fd k' = next_fd k + 1 \<and> next_fd k < MAX_FD" "d = -1 \<Longrightarrow> k' = k"
  using assms by (cases a k rule: alloc_fd_cases; auto simp: fd_grows_def fd_inv_def)+

lemma clear_nth: "xs[j := None] ! i = xs ! i \<or> xs[j := None] ! i = None"
  by (cases "i = j"; cases "i < length xs") (simp_all add: list_update_beyond)

lemma vfs_close_grows:
  assumes "vfs_close d k = (r, k')"
  shows "fd_grows k k' \<and> (fd_inv k \<longrightarrow> fd_inv k')"
proof -
  have "k' = k \<or> k' = k\<lparr>fd_table := (fd_table k)[nat d := None]\<rparr>"
    using assms by (auto simp: vfs_close_def split: if_splits)
  then show ?thesis
  proof
    assume k': "k' = k\<lparr>fd_table := (fd_table k)[nat d := None]\<rparr>"
    have "fd_inv k'" if "fd_inv k" using that clear_nth [of "fd_table k" "nat d"] unfolding fd_inv_def k' by simp metis
    then show ?thesis unfolding fd_grows_def k' using clear_nth [of "fd_table k" "nat d"] by simp
  qed (simp add: fd_grows_def)
qed

text \<open>Opening and creating end in the same way.\<close>

lemma vfs_open_alloc:
  assumes "vfs_open p k = Some (d, k')"
  obtains (fail) k1 where "vfs_frame k k1" "d = -1" "k' = k1"
  | (ok) a k1 where "vfs_frame k k1" "alloc_fd a k1 = (d, k')"
proof -
  from assms obtain q where q: "resolve_path p k = Some q" unfolding vfs_open_def by (cases "resolve_path p k") auto
  obtain a k1 where o: "fs_open (if take 5 q = ''/tmp/'' then RamFs else AbyssFs) q k = (a, k1)" by (metis surj_pair)
  note f = fs_open_frame [OF o]
  show thesis using assms f fail ok unfolding vfs_open_def q bind.bind_lunit Let_def o by (cases a) auto
qed

lemma vfs_create_alloc:
  assumes "vfs_create p k = Some (d, k')"
  obtains (fail) k1 where "vfs_frame k k1" "d = -1" "k' = k1"
  | (ok) a k1 where "vfs_frame k k1" "alloc_fd a k1 = (d, k')"
proof -
  from assms obtain q where q: "make_full_path p k = Some q" unfolding vfs_create_def by (cases "make_full_path p k") auto
  have new: thesis
    if "Option.bind (fs_create fs q k) (\<lambda>(file, k1). case file of None \<Rightarrow> Some (-1, k1) | Some f \<Rightarrow> Some (alloc_fd f k1)) = Some (d, k')"
    for fs
  proof -
    from that obtain fl k1 where c: "fs_create fs q k = Some (fl, k1)" by (cases "fs_create fs q k") auto
    show thesis using that fs_create_frame [OF c] fail ok unfolding c by (cases fl) auto
  qed
  show thesis
  proof (cases "take 5 q = ''/tmp/'' \<or> q = ''/tmp''")
    case True
    from assms [unfolded vfs_create_def q bind.bind_lunit if_P [OF True]] show thesis by (rule new)
  next
    case False
    note a = assms [unfolded vfs_create_def q bind.bind_lunit if_not_P [OF False]]
    show thesis
    proof (cases "find_mount q k")
      case None
      with a show thesis by (intro fail [of k]) simp_all
    next
      case (Some mp)
      from a [unfolded Some option.case] show thesis by (rule new)
    qed
  qed
qed

lemma vfs_new_fd:
  assumes "vfs_open p k = Some (d, k') \<or> vfs_create p k = Some (d, k')"
  shows "fd_grows k k'" "fd_inv k \<Longrightarrow> fd_inv k'"
    and "0 \<le> d \<Longrightarrow> d = int (next_fd k) \<and> next_fd k' = next_fd k + 1 \<and> next_fd k < MAX_FD"
proof -
  consider k1 where "vfs_frame k k1" "d = -1" "k' = k1" | a k1 where "vfs_frame k k1" "alloc_fd a k1 = (d, k')"
    using assms by (metis vfs_open_alloc vfs_create_alloc)
  then have "fd_grows k k' \<and> (fd_inv k \<longrightarrow> fd_inv k')
      \<and> (0 \<le> d \<longrightarrow> d = int (next_fd k) \<and> next_fd k' = next_fd k + 1 \<and> next_fd k < MAX_FD)"
  proof cases
    case 1
    then show ?thesis using vfs_frame_grows by auto
  next
    case 2
    have n: "next_fd k1 = next_fd k" using 2(1) by (simp add: vfs_frame_def)
    have "0 \<le> d \<Longrightarrow> d = int (next_fd k) \<and> next_fd k' = next_fd k + 1 \<and> next_fd k < MAX_FD"
      using alloc_fd_grows(3) [OF 2(2)] n by simp
    then show ?thesis using vfs_frame_grows [OF 2(1)] alloc_fd_grows(1,2) [OF 2(2)] by (meson fd_grows_trans)
  qed
  then show "fd_grows k k'" "fd_inv k \<Longrightarrow> fd_inv k'"
    and "0 \<le> d \<Longrightarrow> d = int (next_fd k) \<and> next_fd k' = next_fd k + 1 \<and> next_fd k < MAX_FD" by auto
qed

section \<open>Sequences of operations\<close>

inductive vfs_step :: "kernel \<Rightarrow> kernel \<Rightarrow> bool" where
  open_step: "vfs_open p k = Some (d, k') \<Longrightarrow> vfs_step k k'"
| create_step: "vfs_create p k = Some (d, k') \<Longrightarrow> vfs_step k k'"
| close_step: "vfs_close d k = (r, k') \<Longrightarrow> vfs_step k k'"
| read_step: "vfs_read d n k = Some (r, bs, k') \<Longrightarrow> vfs_step k k'"
| write_step: "vfs_write d b n k = Some (r, k') \<Longrightarrow> vfs_step k k'"
| unlink_step: "vfs_unlink p k = Some (r, k') \<Longrightarrow> vfs_step k k'"
| mkdir_step: "vfs_mkdir p k = Some (r, k') \<Longrightarrow> vfs_step k k'"
| remove_step: "vfs_remove_recursive q k = Some (r, k') \<Longrightarrow> vfs_step k k'"
| read_dir_step: "vfs_read_dir p m k = Some (ds, k') \<Longrightarrow> vfs_step k k'"
| bind_step: "bind_ns old new fl k = Some (r, k') \<Longrightarrow> vfs_step k k'"
| unbind_step: "unbind p k = (r, k') \<Longrightarrow> vfs_step k k'"

inductive_cases vfs_stepE: "vfs_step k k'"

definition tables_frame :: "kernel \<Rightarrow> kernel \<Rightarrow> bool" where
  "tables_frame k k' \<longleftrightarrow> fd_table k' = fd_table k \<and> next_fd k' = next_fd k"

lemma tables_frame_grows: "tables_frame k k' \<Longrightarrow> fd_grows k k' \<and> (fd_inv k \<longrightarrow> fd_inv k')"
  by (simp add: tables_frame_def fd_grows_def fd_inv_def)

lemma upd_cur_frame [simp]: "fd_table (upd_cur f k) = fd_table k" "next_fd (upd_cur f k) = next_fd k"
  by (simp_all add: upd_cur_def split: option.splits)

lemma bind_ns_frame: "bind_ns old new fl k = Some (r, k') \<Longrightarrow> tables_frame k k'"
proof -
  assume b: "bind_ns old new fl k = Some (r, k')"
  then obtain r1 k1 where r1: "vfs_read_dir old 1 k = Some (r1, k1)"
    unfolding bind_ns_def by (cases "vfs_read_dir old 1 k") auto
  show ?thesis
  proof (cases "r1 = None")
    case True
    then show ?thesis using b vfs_read_dir_frame [OF r1] unfolding bind_ns_def r1 by (auto simp: tables_frame_def vfs_frame_def)
  next
    case False
    with b obtain r2 k2 where r2: "vfs_read_dir new 1 k1 = Some (r2, k2)"
      unfolding bind_ns_def r1 by (cases "vfs_read_dir new 1 k1") auto
    obtain e m where e: "create_namespace old new fl (km k2) = (e, m)" by force
    show ?thesis
      using b False vfs_read_dir_frame [OF r1] vfs_read_dir_frame [OF r2]
      unfolding bind_ns_def r1 bind.bind_lunit prod.case r2 e
      by (cases e) (auto simp: tables_frame_def vfs_frame_def split: if_splits)
  qed
qed

lemma unbind_frame: "unbind p k = (r, k') \<Longrightarrow> tables_frame k k'"
  by (auto simp: unbind_def tables_frame_def split: option.splits)

lemma vfs_step_grows: "vfs_step k k' \<Longrightarrow> fd_grows k k' \<and> (fd_inv k \<longrightarrow> fd_inv k')"
proof (induction rule: vfs_step.induct)
  case (open_step p k d k')
  then show ?case using vfs_new_fd by blast
next
  case (create_step p k d k')
  then show ?case using vfs_new_fd by blast
qed (meson frame_simps vfs_frame_grows tables_frame_grows vfs_close_grows bind_ns_frame unbind_frame)+

lemma vfs_steps_grow:
  assumes "vfs_step\<^sup>*\<^sup>* k k'"
  shows "fd_grows k k' \<and> (fd_inv k \<longrightarrow> fd_inv k')"
  using assms
proof (induction rule: rtranclp_induct)
  case base
  then show ?case by (simp add: fd_grows_def)
next
  case (step k1 k2)
  then show ?case using vfs_step_grows fd_grows_trans by blast
qed

end
