(* ===== verification/Vfs_Ram.thy ===== *)
theory Vfs_Ram
  imports Vfs_Inv
begin

text \<open>
  Files of the RAM disk through descriptors: opening, creating, reading and writing them with the calls of
  the virtual file system.
\<close>

section \<open>A new file object under a new descriptor\<close>

definition install :: "vfs_file \<Rightarrow> kernel \<Rightarrow> kernel" where
  "install f k = k\<lparr>km := (km k)\<lparr>heap_pos := heap_pos (km k) + sizeof_vfs_file, fobjs := (fobjs (km k))(heap_pos (km k) := f)\<rparr>,
     fd_table := (fd_table k)[next_fd k := Some (heap_pos (km k))], next_fd := next_fd k + 1\<rparr>"

text \<open>Room for \<open>n\<close> more file objects and descriptors.\<close>

definition vfs_room :: "nat \<Rightarrow> kernel \<Rightarrow> bool" where
  "vfs_room n k \<longleftrightarrow> fd_inv k \<and> next_fd k + n \<le> MAX_FD \<and> unat (heap_pos (km k)) + n * 304 \<le> 1048576"

lemma vfs_room_less: "vfs_room n k \<Longrightarrow> m \<le> n \<Longrightarrow> vfs_room m k"
  using mult_le_mono1 [of m n 304] by (simp add: vfs_room_def)

lemma new_file_room:
  assumes "vfs_room 1 k"
  shows "new_file f (km k) = (Some (heap_pos (km k)),
      (km k)\<lparr>heap_pos := heap_pos (km k) + sizeof_vfs_file, fobjs := (fobjs (km k))(heap_pos (km k) := f)\<rparr>)"
    and "unat (heap_pos (km k) + sizeof_vfs_file) = unat (heap_pos (km k)) + 304"
proof -
  show u: "unat (heap_pos (km k) + sizeof_vfs_file) = unat (heap_pos (km k)) + 304"
    using assms by (subst unat_add_small) (simp_all add: vfs_room_def sizeof_vfs_file_def)
  then have "\<not> heap_pos (km k) + sizeof_vfs_file > HEAP_SIZE"
    using assms by (simp add: word_less_nat_alt vfs_room_def HEAP_SIZE_def)
  then show "new_file f (km k) = (Some (heap_pos (km k)),
      (km k)\<lparr>heap_pos := heap_pos (km k) + sizeof_vfs_file, fobjs := (fobjs (km k))(heap_pos (km k) := f)\<rparr>)"
    by (simp add: new_file_def kalloc_def)
qed

lemma install_facts [simp]:
  "pt (install f k) = pt k" "ram (install f k) = ram k" "disk (install f k) = disk k" "mount_points (install f k) = mount_points k"
  "next_fd (install f k) = next_fd k + 1" "fobjs (km (install f k)) = (fobjs (km k))(heap_pos (km k) := f)"
  "cur_proc (install f k) = cur_proc k" "heap_pos (km (install f k)) = heap_pos (km k) + sizeof_vfs_file"
  by (simp_all add: install_def cur_proc_def)

lemma install_room: "vfs_room (Suc n) k \<Longrightarrow> vfs_room n (install f k)"
  using new_file_room(2) [of k] vfs_room_less [of "Suc n" k 1]
  by (auto simp: vfs_room_def install_def fd_inv_def)

lemma install_file:
  assumes "vfs_room 1 k"
  shows "get_file (int (next_fd k)) (install f k) = Some (heap_pos (km k))"
    and "d \<noteq> int (next_fd k) \<Longrightarrow> get_file d (install f k) = get_file d k"
  using assms by (auto simp: get_file_def install_def vfs_room_def fd_inv_def)

lemma install_fresh: "vfs_room 1 k \<Longrightarrow> heap_pos (km (install f k)) \<noteq> heap_pos (km k)"
  using new_file_room(2) [of k] by (metis install_facts(8) add_cancel_right_right zero_neq_numeral)

section \<open>Opening and creating\<close>

definition ram_object :: "nat \<Rightarrow> vfs_file \<Rightarrow> bool" where
  "ram_object i f \<longleftrightarrow> f_ops f = Some RamFs \<and> private_data f = Ram i \<and> f_pos f = 0"

lemma vfs_open_ram:
  assumes "cur_proc k = Some pr" "ns pr = []" "take 5 p = ''/tmp/''" "length p < VFS_MAX_PATH"
    and "ram_find p (ram k) = Some i" "vfs_room 1 k"
  obtains f where "vfs_open p k = Some (int (next_fd k), install f k)" "ram_object i f"
proof -
  define f where "f = zero_file\<lparr>f_ops := Some RamFs, private_data := Ram i, f_pos := 0, f_path := take (VFS_MAX_PATH - 1) p\<rparr>"
  have "resolve_path p k = Some p" using assms(1,2,4) by (simp add: resolve_path_def)
  moreover have "next_fd k < MAX_FD" using assms(6) by (simp add: vfs_room_def)
  ultimately have "vfs_open p k = Some (int (next_fd k), install f k)"
    using assms(3,5) new_file_room(1) [OF assms(6), of f]
    by (simp add: vfs_open_def fs_open_eq ramfs_open_def ram_find_def f_def alloc_fd_def install_def)
  then show thesis by (rule that) (simp add: ram_object_def f_def)
qed

lemma make_full_path_abs: "cs_nth p 0 = CHR ''/'' \<Longrightarrow> length p < VFS_MAX_PATH \<Longrightarrow> make_full_path p k = Some p"
  by (simp add: make_full_path_def)

lemma tmp_abs: "take 5 p = ''/tmp/'' \<Longrightarrow> cs_nth p 0 = CHR ''/''"
  by (cases p) auto

lemma vfs_create_ram:
  assumes "take 5 p = ''/tmp/''" "length p < MAX_PATH"
    and "first_idx (\<lambda>rf. \<not> used rf) (ram k) = Some j" "vfs_room 1 k"
  obtains f rf where "vfs_create p k = Some (int (next_fd k), install f (k\<lparr>ram := (ram k)[j := rf]\<rparr>))" "ram_object j f"
    "used rf" "rf_path rf = p" "rf_size rf = 0"
proof -
  define f where "f = zero_file\<lparr>f_ops := Some RamFs, private_data := Ram j, f_pos := 0\<rparr>"
  define rf where "rf = (ram k ! j)\<lparr>used := True, rf_path := p, rf_size := 0, content := (content (ram k ! j))(0 := NUL)\<rparr>"
  have l: "length p < VFS_MAX_PATH" using assms(2) by (simp add: MAX_PATH_def VFS_MAX_PATH_def)
  have full: "make_full_path p k = Some p" using l tmp_abs [OF assms(1)] by (simp add: make_full_path_abs)
  have "ramfs_create p (ram k) (km k) = Some (Some (heap_pos (km k)), (ram k)[j := rf],
      (km k)\<lparr>heap_pos := heap_pos (km k) + sizeof_vfs_file, fobjs := (fobjs (km k))(heap_pos (km k) := f)\<rparr>)"
    using assms(1-3) new_file_room(1) [OF assms(4), of f] by (simp add: ramfs_create_def f_def rf_def Let_def)
  moreover have "next_fd k < MAX_FD" using assms(4) by (simp add: vfs_room_def)
  ultimately have "vfs_create p k = Some (int (next_fd k), install f (k\<lparr>ram := (ram k)[j := rf]\<rparr>))"
    using assms(1) by (simp add: vfs_create_def full fs_create_eq alloc_fd_def install_def)
  then show thesis by (rule that) (simp_all add: ram_object_def f_def rf_def)
qed

section \<open>Reading and writing\<close>

text \<open>A descriptor of the file in slot \<open>i\<close>, whose object is at heap address \<open>a\<close>.\<close>

definition ram_fd :: "int \<Rightarrow> u64 \<Rightarrow> nat \<Rightarrow> kernel \<Rightarrow> bool" where
  "ram_fd d a i k \<longleftrightarrow> get_file d k = Some a \<and> f_ops (fobjs (km k) a) = Some RamFs \<and> ram_file_ok (ram k) (fobjs (km k) a) i"

definition move_pos :: "u64 \<Rightarrow> nat \<Rightarrow> kernel \<Rightarrow> kernel" where
  "move_pos a n k = k\<lparr>km := (km k)\<lparr>fobjs := (fobjs (km k))(a := (fobjs (km k) a)\<lparr>f_pos := f_pos (fobjs (km k) a) + of_nat n\<rparr>)\<rparr>\<rparr>"

lemma move_pos_facts [simp]:
  "pt (move_pos a n k) = pt k" "ram (move_pos a n k) = ram k" "disk (move_pos a n k) = disk k" "fd_table (move_pos a n k) = fd_table k"
  "mount_points (move_pos a n k) = mount_points k" "next_fd (move_pos a n k) = next_fd k"
  "heap_pos (km (move_pos a n k)) = heap_pos (km k)" "get_file d (move_pos a n k) = get_file d k"
  "fobjs (km (move_pos a n k)) a = (fobjs (km k) a)\<lparr>f_pos := f_pos (fobjs (km k) a) + of_nat n\<rparr>"
  "b \<noteq> a \<Longrightarrow> fobjs (km (move_pos a n k)) b = fobjs (km k) b"
  by (simp_all add: move_pos_def get_file_def)

lemma get_file_upd [simp]: "get_file d (k\<lparr>ram := r\<rparr>) = get_file d k" "get_file d (k\<lparr>km := m\<rparr>) = get_file d k" "get_file d (k\<lparr>disk := x\<rparr>) = get_file d k"
  by (simp_all add: get_file_def)

lemma c_int_small: "0 \<le> n \<Longrightarrow> n \<le> 4096 \<Longrightarrow> c_int n = n"
  by (simp add: c_int_def signed_take_bit_int_eq_self)

lemma vfs_read_ram:
  assumes "ramfs_inv (ram k)" "ram_fd d a i k" "unat count \<le> 2 ^ 63"
  defines "bs \<equiv> take (unat count) (drop (unat (f_pos (fobjs (km k) a))) (rf_bytes (ram k ! i)))"
  shows "vfs_read d count k = Some (int (length bs), bs, move_pos a (length bs) k)"
proof -
  have g: "(if d < 0 \<or> int MAX_FD \<le> d then None else fd_table k ! nat d) = Some a"
    using assms(2) by (simp add: ram_fd_def get_file_def)
  from ramfs_read_spec [OF assms(1) _ assms(3), of "fobjs (km k) a" i] assms(2)
  show ?thesis unfolding vfs_read_def g bs_def by (simp add: ram_fd_def fop_read_eq move_pos_def)
qed

lemma vfs_write_ram:
  assumes "ramfs_inv (ram k)" "ram_fd d a i k" "unat (f_pos (fobjs (km k) a)) \<le> unat (rf_size (ram k ! i))"
    and "unat (f_pos (fobjs (km k) a)) + length buf \<le> MAX_CONTENT"
  obtains rf where "vfs_write d buf (of_nat (length buf)) k = Some (int (length buf), (move_pos a (length buf) k)\<lparr>ram := (ram k)[i := rf]\<rparr>)"
    "ramfs_inv ((ram k)[i := rf])" "rf_path rf = rf_path (ram k ! i)" "used rf = used (ram k ! i)"
    "rf_bytes rf = take (unat (f_pos (fobjs (km k) a))) (rf_bytes (ram k ! i)) @ buf
       @ drop (unat (f_pos (fobjs (km k) a)) + length buf) (rf_bytes (ram k ! i))"
proof -
  let ?f = "fobjs (km k) a"
  have ok: "ram_file_ok (ram k) ?f i" "get_file d k = Some a" "f_ops ?f = Some RamFs" using assms(2) by (auto simp: ram_fd_def)
  have n: "length buf \<le> 4096" using assms(4) by (simp add: MAX_CONTENT_def)
  have len: "unat (of_nat (length buf) :: u64) = length buf" using n by (simp add: unat_of_nat)
  have t: "take (min (length buf) (MAX_CONTENT - unat (f_pos ?f))) buf = buf" using assms(4) by simp
  obtain rf where w: "ramfs_write ?f buf (of_nat (length buf)) (ram k)
      = Some (int (length buf), ?f\<lparr>f_pos := f_pos ?f + of_nat (length buf)\<rparr>, (ram k)[i := rf])"
    and rf: "ramfs_inv ((ram k)[i := rf])" "rf_path rf = rf_path (ram k ! i)" "used rf = used (ram k ! i)"
      "rf_bytes rf = take (unat (f_pos ?f)) (rf_bytes (ram k ! i)) @ buf @ drop (unat (f_pos ?f) + length buf) (rf_bytes (ram k ! i))"
    using ramfs_write_spec [OF assms(1) ok(1) assms(3), of "of_nat (length buf)" buf] unfolding len t using n by auto
  have "vfs_write d buf (of_nat (length buf)) k = Some (int (length buf), (move_pos a (length buf) k)\<lparr>ram := (ram k)[i := rf]\<rparr>)"
    using ok n by (simp add: vfs_write_def fop_write_eq w c_int_small move_pos_def)
  then show thesis using rf by (rule that)
qed

lemma ram_fd_install:
  assumes "vfs_room 1 k" "ram_object i f" "i < length (ram k)"
  shows "ram_fd (int (next_fd k)) (heap_pos (km k)) i (install f k)"
  using assms install_file(1) [OF assms(1), of f] by (simp add: ram_fd_def ram_object_def ram_file_ok_def)

section \<open>Whole files\<close>

text \<open>Creating a file and writing it once.\<close>

lemma vfs_create_write:
  assumes "ramfs_inv (ram k)" "take 5 p = ''/tmp/''" "length p < MAX_PATH" "first_idx (\<lambda>rf. \<not> used rf) (ram k) = Some j"
    and "vfs_room (Suc n) k" "length buf \<le> MAX_CONTENT"
  obtains k1 k2 rf where "vfs_create p k = Some (int (next_fd k), k1)"
    "vfs_write (int (next_fd k)) buf (of_nat (length buf)) k1 = Some (int (length buf), k2)"
    "get_file (int (next_fd k)) k2 \<noteq> None" "vfs_room n k2" "ram k2 = (ram k)[j := rf]" "ramfs_inv (ram k2)" "cur_proc k2 = cur_proc k"
    "used rf" "rf_path rf = p" "rf_bytes rf = buf"
proof -
  let ?d = "int (next_fd k)" and ?h = "heap_pos (km k)"
  note j = first_idx_SomeD [OF assms(4)]
  have r1: "vfs_room 1 k" using assms(5) by (rule vfs_room_less) simp
  obtain f rf where c: "vfs_create p k = Some (?d, install f (k\<lparr>ram := (ram k)[j := rf]\<rparr>))" and f: "ram_object j f"
    and rf: "used rf" "rf_path rf = p" "rf_size rf = 0"
    using vfs_create_ram [OF assms(2-4) r1] by blast
  define k0 where "k0 = k\<lparr>ram := (ram k)[j := rf]\<rparr>"
  define k1 where "k1 = install f k0"
  have k0: "vfs_room (Suc n) k0" "vfs_room 1 k0" "next_fd k0 = next_fd k" "heap_pos (km k0) = ?h" "cur_proc k0 = cur_proc k"
    using assms(5) r1 by (auto simp: k0_def vfs_room_def fd_inv_def cur_proc_def)
  have inv1: "ramfs_inv (ram k1)" unfolding k1_def k0_def using assms(1,3) rf by (auto intro: ramfs_inv_update)
  have n1: "ram k1 ! j = rf" "(ram k1)[j := x] = (ram k)[j := x]" for x using j(1) by (simp_all add: k1_def k0_def)
  have fd1: "ram_fd ?d ?h j k1"
    using ram_fd_install [OF k0(2) f] j k0 by (simp add: k1_def) (simp add: k0_def)
  have pos: "f_pos (fobjs (km k1) ?h) = 0" using f k0(4) by (simp add: k1_def ram_object_def)
  obtain rf2 where w: "vfs_write ?d buf (of_nat (length buf)) k1 = Some (int (length buf), (move_pos ?h (length buf) k1)\<lparr>ram := (ram k1)[j := rf2]\<rparr>)"
    and rf2: "ramfs_inv ((ram k1)[j := rf2])" "rf_path rf2 = rf_path (ram k1 ! j)" "used rf2 = used (ram k1 ! j)"
      "rf_bytes rf2 = buf @ drop (length buf) (rf_bytes (ram k1 ! j))"
    using vfs_write_ram [OF inv1 fd1] pos assms(6) by auto
  define k2 where "k2 = (move_pos ?h (length buf) k1)\<lparr>ram := (ram k1)[j := rf2]\<rparr>"
  have "rf_bytes rf2 = buf" using rf2(4) rf(3) n1(1) by (simp add: rf_bytes_def)
  moreover have "get_file ?d k2 = Some ?h" using fd1 by (simp add: k2_def ram_fd_def)
  moreover have "vfs_room n k2" using install_room [OF k0(1), of f] by (simp add: k2_def k1_def vfs_room_def fd_inv_def)
  moreover have "cur_proc k2 = cur_proc k" using k0(5) by (simp add: k2_def cur_proc_def k1_def)
  ultimately show thesis using c w rf rf2 n1
    by (intro that [of k1 k2 rf2]) (simp_all add: k0_def [symmetric] k1_def [symmetric] k2_def [symmetric], simp_all add: k2_def n1)
qed

lemma vfs_close_room:
  assumes "get_file d k \<noteq> None" "vfs_room n k"
  obtains k' where "vfs_close d k = (0, k')" "vfs_room n k'" "ram k' = ram k" "disk k' = disk k" "cur_proc k' = cur_proc k"
    "mount_points k' = mount_points k"
proof -
  define k' where "k' = k\<lparr>fd_table := (fd_table k)[nat d := None]\<rparr>"
  have "vfs_close d k = (0, k')" using assms(1) by (auto simp: vfs_close_def get_file_def k'_def split: if_splits)
  moreover have "vfs_room n k'"
    using assms(2) clear_nth [of "fd_table k" "nat d"] unfolding vfs_room_def fd_inv_def k'_def by simp metis
  ultimately show thesis by (rule that) (simp_all add: k'_def cur_proc_def)
qed

text \<open>Opening a file and reading from its start.\<close>

lemma vfs_open_read:
  assumes "ramfs_inv (ram k)" "cur_proc k = Some pr" "ns pr = []" "take 5 p = ''/tmp/''" "length p < VFS_MAX_PATH"
    and "ram_find p (ram k) = Some i" "vfs_room 1 k" "unat count \<le> 2 ^ 63"
  obtains e k1 k2 where "vfs_open p k = Some (e, k1)"
    "vfs_read e count k1 = Some (int (length (take (unat count) (rf_bytes (ram k ! i)))), take (unat count) (rf_bytes (ram k ! i)), k2)"
proof -
  obtain g where op: "vfs_open p k = Some (int (next_fd k), install g k)" and g: "ram_object i g"
    using vfs_open_ram [OF assms(2-7)] by blast
  have "i < length (ram k)" using assms(6) unfolding ram_find_def by (rule first_idx_lt)
  then have "ram_fd (int (next_fd k)) (heap_pos (km k)) i (install g k)" using ram_fd_install [OF assms(7) g] by simp
  from vfs_read_ram [OF _ this assms(8)] assms(1) g op show thesis by (intro that) (simp_all add: ram_object_def)
qed

end
