(* ===== verification/Vfs_Props.thy ===== *)
theory Vfs_Props
  imports Vfs_Ram
begin

text \<open>
  What the virtual file system and the name spaces guarantee: the choice of the mount, the life of a
  descriptor, files written and read back through descriptors, and bindings.
\<close>

section \<open>A kernel for the witnesses\<close>

definition demo_process :: process where
  "demo_process = zero_process\<lparr>pid := 1, pstate := PROC_RUNNING, cwd := ''/tmp''\<rparr>"

definition demo_mounts :: "mount_pt list" where
  "demo_mounts = [\<lparr>mp_path = ''/'', mp_fs = AbyssFs, mp_sb = \<lparr>s_magic = ABYSSFS_MAGIC, s_type = ''abyssfs''\<rparr>\<rparr>,
     \<lparr>mp_path = ''/tmp'', mp_fs = RamFs, mp_sb = \<lparr>s_magic = RAMFS_MAGIC, s_type = ''ramfs''\<rparr>\<rparr>]"

definition demo_kernel :: kernel where
  "demo_kernel = (kernel0 0)\<lparr>pt := ptable0\<lparr>procs := (\<lambda>_. demo_process), current_process := Some (Slot 0), process_list := Some (Slot 0)\<rparr>,
     ram := demo_ram, disk := demo_disk, mount_points := demo_mounts\<rparr>"

lemma demo_kernel_simps [simp]:
  "cur_proc demo_kernel = Some demo_process" "ram demo_kernel = demo_ram" "disk demo_kernel = demo_disk"
  "mount_points demo_kernel = demo_mounts" "next_fd demo_kernel = 0" "heap_pos (km demo_kernel) = 0"
  "current_process (pt demo_kernel) = Some (Slot 0)" "ns demo_process = []" "cwd demo_process = ''/tmp''"
  by (simp_all add: demo_kernel_def kernel0_def cur_proc_def demo_process_def zero_process_def)

lemma demo_kernel_room: "vfs_room 3 demo_kernel"
  by (simp add: vfs_room_def fd_inv_def demo_kernel_def kernel0_def MAX_FD_def)

lemma demo_kernel_fd: "fd_inv demo_kernel"
  using demo_kernel_room by (simp add: vfs_room_def)

section \<open>Mounts\<close>

text \<open>A mount that the scan may return: its path is a non-empty prefix.\<close>

definition mount_fits :: "string \<Rightarrow> mount_pt \<Rightarrow> bool" where
  "mount_fits p m \<longleftrightarrow> mp_path m \<noteq> [] \<and> take (length (mp_path m)) p = mp_path m"

lemma mount_scan_longest:
  assumes "\<forall>m. best = Some m \<longrightarrow> length (mp_path m) = n" "best = None \<longrightarrow> n = 0"
  shows "case mount_scan p n best ms of
      None \<Rightarrow> best = None \<and> (\<forall>m \<in> set ms. \<not> mount_fits p m)
    | Some m \<Rightarrow> (best = Some m \<or> m \<in> set ms \<and> mount_fits p m) \<and> n \<le> length (mp_path m)
        \<and> (\<forall>m' \<in> set ms. mount_fits p m' \<longrightarrow> length (mp_path m') \<le> length (mp_path m))"
  using assms
proof (induction ms arbitrary: n best)
  case Nil
  then show ?case by (auto split: option.splits)
next
  case (Cons m ms)
  show ?case
  proof (cases "take (length (mp_path m)) p = mp_path m \<and> length (mp_path m) > n")
    case True
    then have "mount_fits p m" by (auto simp: mount_fits_def)
    with True Cons.IH [of "Some m" "length (mp_path m)"] show ?thesis by (auto simp: Let_def split: option.splits)
  next
    case False
    then have le: "length (mp_path m) \<le> n" if "mount_fits p m" using that by (auto simp: mount_fits_def)
    have nf: "\<not> mount_fits p m" if "n = 0" using le that by (auto simp: mount_fits_def)
    have "mount_scan p n best (m # ms) = mount_scan p n best ms" using False by (auto simp: Let_def)
    moreover have "best = None \<Longrightarrow> \<not> mount_fits p m" using nf Cons.prems(2) by blast
    ultimately show ?thesis using Cons.IH [OF Cons.prems] le by (auto split: option.splits)
  qed
qed

text \<open>C31: \<open>find_mount\<close> chooses the mount whose path is the longest prefix of the path; the root and the empty path belong to
  the first mount. It fails only when no mounted path is a prefix.\<close>

theorem find_mount_longest_prefix:
  "case find_mount p k of
     None \<Rightarrow> mount_points k = [] \<or> (p \<noteq> [] \<and> p \<noteq> ''/'' \<and> (\<forall>m \<in> set (mount_points k). \<not> mount_fits p m))
   | Some m \<Rightarrow> m \<in> set (mount_points k)
       \<and> (if p = [] \<or> p = ''/'' then m = hd (mount_points k)
          else mount_fits p m \<and> (\<forall>m' \<in> set (mount_points k). mount_fits p m' \<longrightarrow> length (mp_path m') \<le> length (mp_path m)))"
proof (cases "p = [] \<or> p = ''/''")
  case True
  then show ?thesis by (cases "mount_points k") (auto simp: find_mount_def)
next
  case False
  then have "find_mount p k = mount_scan p 0 None (mount_points k)" by (simp add: find_mount_def)
  with False mount_scan_longest [of None 0 "mount_points k" p] show ?thesis by (auto split: option.splits)
qed

theorem find_mount_longest_prefix_witness: "\<exists>m. find_mount ''/tmp/a'' demo_kernel = Some m \<and> mp_fs m = RamFs"
  using find_mount_longest_prefix [where p = "''/tmp/a''" and k = demo_kernel]
  by (auto simp: demo_mounts_def mount_fits_def split: option.splits)

text \<open>The prefix test has no component boundary: a name that begins with \<open>tmp\<close> in the root is on the RAM disk.\<close>

lemma find_mount_no_boundary:
  "mount_points k = demo_mounts \<Longrightarrow> map_option mp_fs (find_mount ''/tmpfile'' k) = Some RamFs"
  by (simp add: find_mount_def demo_mounts_def Let_def)

section \<open>Descriptors\<close>

text \<open>C29: descriptor numbers are never reused. A descriptor opened or created later is larger, all are below 32, and once a
  descriptor is closed, reading, writing and closing it fail for ever after, whatever calls are made in between.\<close>

theorem descriptors_never_reused:
  assumes "fd_inv k" "vfs_open p k = Some (d, k1) \<or> vfs_create p k = Some (d, k1)" "0 \<le> d" "vfs_step\<^sup>*\<^sup>* k1 k2"
  shows "(vfs_open q k2 = Some (e, k3) \<or> vfs_create q k2 = Some (e, k3) \<longrightarrow> 0 \<le> e \<longrightarrow> d < e \<and> e < 32)
    \<and> (vfs_close d k2 = (0, k3) \<and> vfs_step\<^sup>*\<^sup>* k3 k4 \<longrightarrow>
         vfs_read d n k4 = Some (-1, [], k4) \<and> vfs_write d b n k4 = Some (-1, k4) \<and> vfs_close d k4 = (-1, k4))"
proof -
  note n1 = vfs_new_fd [OF assms(2)]
  have d: "d = int (next_fd k)" "next_fd k1 = next_fd k + 1" "next_fd k < MAX_FD" using n1(3) assms(3) by auto
  note g2 = vfs_steps_grow [OF assms(4)]
  have n2: "next_fd k1 \<le> next_fd k2" "fd_inv k2" using g2 n1(2) assms(1) by (auto simp: fd_grows_def)
  have first: "d < e \<and> e < 32" if "vfs_open q k2 = Some (e, k3) \<or> vfs_create q k2 = Some (e, k3)" "0 \<le> e"
    using vfs_new_fd(3) [OF that] d n2 by (simp add: MAX_FD_def)
  have second: "vfs_read d n k4 = Some (-1, [], k4) \<and> vfs_write d b n k4 = Some (-1, k4) \<and> vfs_close d k4 = (-1, k4)"
    if "vfs_close d k2 = (0, k3)" "vfs_step\<^sup>*\<^sup>* k3 k4"
  proof -
    have k3: "k3 = k2\<lparr>fd_table := (fd_table k2)[nat d := None]\<rparr>" using that(1) by (auto simp: vfs_close_def split: if_splits)
    have "next_fd k < next_fd k3" "fd_table k3 ! next_fd k = None"
      using d n2 by (simp_all add: k3 fd_inv_def)
    with vfs_steps_grow [OF that(2)] have "fd_table k4 ! nat d = None" using d(1) by (auto simp: fd_grows_def)
    then show ?thesis by (simp add: vfs_read_def vfs_write_def vfs_close_def get_file_def)
  qed
  show ?thesis using first second by blast
qed

theorem descriptors_never_reused_witness:
  "\<exists>k1 k2. vfs_open ''/tmp/a'' demo_kernel = Some (0, k1) \<and> vfs_close 0 k1 = (0, k2) \<and> vfs_read 0 4 k2 = Some (-1, [], k2)"
proof -
  have r: "vfs_room 1 demo_kernel" using demo_kernel_room by (rule vfs_room_less) simp
  obtain f where o: "vfs_open ''/tmp/a'' demo_kernel = Some (0, install f demo_kernel)"
    using vfs_open_ram [of demo_kernel demo_process "''/tmp/a''" 0] r demo_ram_lookup(2) by (auto simp: VFS_MAX_PATH_def)
  have "get_file 0 (install f demo_kernel) \<noteq> None" using install_file(1) [OF r, of f] by simp
  then obtain k2 where c: "vfs_close 0 (install f demo_kernel) = (0, k2)"
    using vfs_close_room [of 0 "install f demo_kernel" 0] install_room [of 0 demo_kernel f] r by auto
  from descriptors_never_reused [OF demo_kernel_fd, of "''/tmp/a''" 0 "install f demo_kernel" "install f demo_kernel" "[]" 0 k2 k2 4 "[]"] o c
  show ?thesis by auto
qed

section \<open>Files through descriptors\<close>

text \<open>C30: for a process without bindings, data written to a new file under \<open>/tmp\<close> through one descriptor is read back through another, opened after the first was
  closed; every call on the way succeeds when there is a free slot, room on the heap and two descriptors left.\<close>

theorem vfs_create_write_open_read:
  assumes "ramfs_inv (ram k)" "cur_proc k = Some pr" "ns pr = []" "take 5 p = ''/tmp/''" "length p < MAX_PATH"
    and "ram_find p (ram k) = None" "first_idx (\<lambda>rf. \<not> used rf) (ram k) = Some j" "vfs_room 2 k" "length buf \<le> MAX_CONTENT"
  shows "\<exists>d e k1 k2 k3 k4 k5. vfs_create p k = Some (d, k1) \<and> vfs_write d buf (of_nat (length buf)) k1 = Some (int (length buf), k2)
    \<and> vfs_close d k2 = (0, k3) \<and> vfs_open p k3 = Some (e, k4) \<and> vfs_read e (of_nat (length buf)) k4 = Some (int (length buf), buf, k5)"
proof -
  note j = first_idx_SomeD [OF assms(7)]
  obtain k1 k2 rf where c: "vfs_create p k = Some (int (next_fd k), k1)"
    and w: "vfs_write (int (next_fd k)) buf (of_nat (length buf)) k1 = Some (int (length buf), k2)"
    and k2: "get_file (int (next_fd k)) k2 \<noteq> None" "vfs_room 1 k2" "ram k2 = (ram k)[j := rf]" "ramfs_inv (ram k2)" "cur_proc k2 = cur_proc k"
    and rf: "used rf" "rf_path rf = p" "rf_bytes rf = buf"
    using vfs_create_write [OF assms(1,4,5,7) assms(8) [unfolded Suc_1 [symmetric]] assms(9)] by blast
  obtain k3 where cl: "vfs_close (int (next_fd k)) k2 = (0, k3)" and k3: "vfs_room 1 k3" "ram k3 = ram k2" "cur_proc k3 = cur_proc k2"
    using vfs_close_room [OF k2(1,2)] by blast
  have fnd: "ram_find p (ram k3) = Some j"
    unfolding ram_find_def first_idx_Some_iff using j(1) rf(1,2) assms(6) k2(3) k3(2)
    by (auto simp: nth_list_update ram_find_None_iff)
  have n: "length p < VFS_MAX_PATH" "cur_proc k3 = Some pr" "rf_bytes (ram k3 ! j) = buf"
    using assms(2,5) j(1) rf(3) k2(3,5) k3 by (simp_all add: MAX_PATH_def VFS_MAX_PATH_def)
  have len: "unat (of_nat (length buf) :: u64) = length buf" "length buf \<le> 2 ^ 63"
    using assms(9) by (simp_all add: unat_of_nat MAX_CONTENT_def)
  obtain e k4 k5 where "vfs_open p k3 = Some (e, k4)" "vfs_read e (of_nat (length buf)) k4 = Some (int (length buf), buf, k5)"
    by (rule vfs_open_read [OF k2(4) [folded k3(2)] n(2) assms(3,4) n(1) fnd k3(1), of "of_nat (length buf)"])
       (simp_all only: n(3) len take_all order_refl)
  with c w cl show ?thesis by blast
qed

theorem vfs_create_write_open_read_witness:
  "\<exists>d e k1 k2 k3 k4 k5. vfs_create ''/tmp/b'' demo_kernel = Some (d, k1) \<and> vfs_write d ''hello'' 5 k1 = Some (5, k2)
    \<and> vfs_close d k2 = (0, k3) \<and> vfs_open ''/tmp/b'' k3 = Some (e, k4) \<and> vfs_read e 5 k4 = Some (5, ''hello'', k5)"
  using vfs_create_write_open_read [of demo_kernel demo_process "''/tmp/b''" 1 "''hello''"] demo_ram_inv(1) demo_ram_free
    demo_ram_lookup(1) vfs_room_less [OF demo_kernel_room, of 2]
  by (simp add: MAX_PATH_def MAX_CONTENT_def ram_lookup_def)

text \<open>A file of the RAM disk is opened by its path alone, a file outside \<open>/tmp\<close> is always inode 0: a read through the new
  descriptor gives nothing while inode 0 is empty.\<close>

definition abyss_object :: "string \<Rightarrow> vfs_file" where
  "abyss_object p = zero_file\<lparr>f_ops := Some AbyssFs, private_data := Num 0, f_path := take (VFS_MAX_PATH - 1) p\<rparr>"

lemma vfs_open_abyss_at:
  assumes "resolve_path p k = Some q" "take 5 q \<noteq> ''/tmp/''" "vfs_room 1 k"
  shows "vfs_open p k = Some (int (next_fd k), install (abyss_object q) k)"
proof -
  have n: "next_fd k < MAX_FD" using assms(3) by (simp add: vfs_room_def)
  then show ?thesis
    using assms(1,2) new_file_room(1) [OF assms(3), of "abyss_object q"]
    by (simp add: vfs_open_def fs_open_eq abyssfs_open_def abyss_object_def alloc_fd_def install_def)
qed

lemma vfs_open_abyss:
  assumes "cur_proc k = Some pr" "ns pr = []" "take 5 p \<noteq> ''/tmp/''" "length p < VFS_MAX_PATH" "vfs_room 1 k"
  shows "vfs_open p k = Some (int (next_fd k), install (abyss_object p) k)"
  using assms(1,2,4) by (intro vfs_open_abyss_at [OF _ assms(3,5)]) (simp add: resolve_path_def)

text \<open>The object it installs refers to inode 0, from which nothing is read.\<close>

lemma vfs_read_abyss_object:
  assumes "vfs_room 1 k" "sb_ok (disk k)" "i_size (disk k) (inode_addr 0) = 0"
  shows "vfs_read (int (next_fd k)) count (install (abyss_object p) k) = Some (0, [], install (abyss_object p) k)"
proof -
  let ?f = "abyss_object p"
  have n: "next_fd k < MAX_FD" using assms(1) by (simp add: vfs_room_def)
  have "abyssfs_read ?f count (disk k) = Some (0, [], ?f)"
    using assms(3) by (simp add: abyssfs_read_def file_inode_def abyss_object_def zero_file_def get_inode_ok [OF assms(2)])
  then show ?thesis
    using install_file(1) [OF assms(1), of ?f] n by (auto simp: vfs_read_def get_file_def fop_read_eq abyss_object_def split: if_splits)
qed

text \<open>opening any path outside \<open>/tmp\<close>, whether a file of that name exists or not, gives a descriptor for inode 0, so that reading
  it back gives no data.\<close>

theorem vfs_open_outside_tmp_reads_nothing:
  assumes "cur_proc k = Some pr" "ns pr = []" "take 5 p \<noteq> ''/tmp/''" "length p < VFS_MAX_PATH" "vfs_room 1 k"
    and "sb_ok (disk k)" "i_size (disk k) (inode_addr 0) = 0"
  shows "\<exists>d k1. vfs_open p k = Some (d, k1) \<and> 0 \<le> d \<and> (\<exists>k2. vfs_read d count k1 = Some (0, [], k2))"
  using vfs_open_abyss [OF assms(1-5)] vfs_read_abyss_object [OF assms(5-7)] by auto

theorem vfs_open_outside_tmp_reads_nothing_witness:
  "\<exists>d k1. vfs_open ''/no/such/file'' demo_kernel = Some (d, k1) \<and> 0 \<le> d \<and> (\<exists>k2. vfs_read d 64 k1 = Some (0, [], k2))"
proof -
  have "i_size demo_disk (inode_addr 0) = 0"
    by (simp add: i_size_def inode_addr_def ld32_def demo_disk_zero DISK_SIZE_def)
  then show ?thesis
    using vfs_open_outside_tmp_reads_nothing [of demo_kernel demo_process "''/no/such/file''" 64]
      demo_disk_sb vfs_room_less [OF demo_kernel_room, of 1] by (simp add: VFS_MAX_PATH_def)
qed

text \<open>\<open>vfs_unlink\<close> finds the file system with the full path and then passes on the path it was given: a relative path
  removes nothing from the RAM disk, whose files are all named by absolute paths.\<close>

lemma vfs_unlink_relative_fails:
  assumes "make_full_path p k = Some q" "find_mount q k = Some mp" "mp_fs mp = RamFs" "cs_nth p 0 \<noteq> CHR ''/''"
    and "\<forall>rf \<in> set (ram k). used rf \<longrightarrow> cs_nth (rf_path rf) 0 = CHR ''/''"
  shows "vfs_unlink p k = Some (-1, k)"
proof -
  have "first_idx (\<lambda>rf. used rf \<and> rf_path rf = p) (ram k) = None"
    unfolding first_idx_None_iff using assms(4,5) by blast
  then show ?thesis using assms(1-3) by (simp add: vfs_unlink_def fs_unlink_eq ramfs_unlink_def)
qed

section \<open>Bindings\<close>

lemma upd_cur_proc [simp]: "cur_proc (upd_cur f k) = map_option f (cur_proc k)"
  by (cases "current_process (pt k)") (simp_all add: upd_cur_def cur_proc_def pupd_def)

lemma cur_proc_km [simp]: "cur_proc (k\<lparr>km := m\<rparr>) = cur_proc k"
  by (simp add: cur_proc_def)

lemma vfs_frame_cur: "vfs_frame k k' \<Longrightarrow> cur_proc k' = cur_proc k"
  by (simp add: vfs_frame_def cur_proc_def)

lemma bind_ns_Some:
  assumes "bind_ns old new fl k = Some (0, k')" "cur_proc k = Some pr"
  shows "cur_proc k' = Some (pr\<lparr>ns := \<lparr>old_path = old, new_path = new, ns_flags = fl\<rparr> # ns pr\<rparr>)"
proof -
  from assms(1) obtain r1 k1 where r1: "vfs_read_dir old 1 k = Some (r1, k1)" "r1 \<noteq> None"
    unfolding bind_ns_def by (cases "vfs_read_dir old 1 k") (auto split: if_splits)
  with assms(1) obtain r2 k2 where r2: "vfs_read_dir new 1 k1 = Some (r2, k2)" "r2 \<noteq> None"
    unfolding bind_ns_def r1 by (cases "vfs_read_dir new 1 k1") (auto split: if_splits)
  have c: "cur_proc k2 = Some pr" using assms(2) vfs_read_dir_frame [OF r1(1)] vfs_read_dir_frame [OF r2(1)] by (simp add: vfs_frame_cur)
  obtain e m where e: "create_namespace old new fl (km k2) = (e, m)" by force
  from assms(1) obtain x where x: "e = Some x" "k' = upd_cur (\<lambda>p. p\<lparr>ns := x # ns p\<rparr>) (k2\<lparr>km := m\<rparr>)"
    unfolding bind_ns_def r1(1) bind.bind_lunit prod.case r2(1) e using r1(2) r2(2) by (cases e) auto
  have "x = \<lparr>old_path = old, new_path = new, ns_flags = fl\<rparr>"
    using e x(1) by (auto simp: create_namespace_def split: option.splits prod.splits if_splits)
  then show ?thesis using c by (simp add: x(2))
qed

text \<open>C32: after \<open>bind(old, new)\<close> a listing of \<open>new\<close> or of a path below it is the listing of the corresponding path below \<open>old\<close>,
  and \<open>unbind(new)\<close> gives the process its earlier name space back.\<close>

theorem bind_redirects_listings:
  assumes "bind_ns old new fl k = Some (0, k')" "cur_proc k = Some pr" "rest = [] \<or> hd rest = CHR ''/''"
    and "length (old @ rest) < VFS_MAX_PATH" "unat (heap_pos (km k')) + 256 \<le> 1048576"
  shows "(\<exists>k1. resolve_namespace_path (new @ rest) k' = Some (old @ rest, k1)
      \<and> vfs_read_dir (new @ rest) n k' =
          (case find_mount (old @ rest) k' of None \<Rightarrow> Some (None, k1)
           | Some mp \<Rightarrow> map_option (\<lambda>r. (r, k1)) (fs_read_dir (mp_fs mp) (old @ rest) n k1)))
    \<and> (\<exists>k2. unbind new k' = (0, k2) \<and> cur_proc k2 = Some pr)"
proof -
  note c = bind_ns_Some [OF assms(1,2)]
  define k1 where "k1 = k'\<lparr>km := (km k')\<lparr>heap_pos := heap_pos (km k') + 256\<rparr>\<rparr>"
  have "unat (heap_pos (km k') + 256) = unat (heap_pos (km k')) + 256"
    using assms(5) unat_add_small [of "heap_pos (km k')" 256] by simp
  then have "kalloc (heap_pos (km k')) 256 = (Some (heap_pos (km k')), heap_pos (km k') + 256)"
    using assms(5) by (simp add: kalloc_def HEAP_SIZE_def word_less_nat_alt)
  then have r: "resolve_namespace_path (new @ rest) k' = Some (old @ rest, k1)"
    using c assms(3,4) by (auto simp: resolve_namespace_path_def VFS_MAX_PATH_def k1_def Let_def)
  have f: "find_mount (old @ rest) k1 = find_mount (old @ rest) k'" by (simp add: find_mount_def k1_def)
  have "vfs_read_dir (new @ rest) n k' =
          (case find_mount (old @ rest) k' of None \<Rightarrow> Some (None, k1)
           | Some mp \<Rightarrow> map_option (\<lambda>r. (r, k1)) (fs_read_dir (mp_fs mp) (old @ rest) n k1))"
    unfolding vfs_read_dir_def r bind.bind_lunit prod.case f
    by (auto split: option.splits simp: bind_None_iff map_option_case)
  moreover have "\<exists>k2. unbind new k' = (0, k2) \<and> cur_proc k2 = Some pr"
    using c by (simp add: unbind_def)
  ultimately show ?thesis using r by blast
qed

text \<open>the two look-ups of a binding go in opposite directions: after \<open>bind(old, new)\<close> listings take \<open>new\<close> to \<open>old\<close>, while
  opening a file takes \<open>old\<close> to \<open>new\<close> and leaves paths below \<open>new\<close> alone.\<close>

theorem bind_redirects_opens_backwards:
  assumes "bind_ns old new fl k = Some (0, k')" "cur_proc k = Some pr" "ns pr = []"
  shows "resolve_path (old @ rest) k' = into_buf VFS_MAX_PATH (new @ rest)
    \<and> (take (length old) (new @ rest) \<noteq> old \<longrightarrow> resolve_path (new @ rest) k' = into_buf VFS_MAX_PATH (new @ rest))"
  using bind_ns_Some [OF assms(1,2)] assms(3) by (auto simp: resolve_path_def)

text \<open>A binding of \<open>/tmp\<close> at \<open>/\<close> in the sample kernel, for the witnesses.\<close>

lemma demo_bind:
  obtains k' where "bind_ns ''/tmp'' ''/'' 16 demo_kernel = Some (0, k')" "unat (heap_pos (km k')) + 256 \<le> 1048576"
proof -
  have r1: "vfs_read_dir ''/tmp'' 1 demo_kernel = Some (Some (ramfs_read_dir ''/tmp'' 1 demo_ram), demo_kernel)"
    by (simp add: vfs_read_dir_def resolve_namespace_path_def find_mount_def demo_mounts_def Let_def fs_read_dir_eq del: One_nat_def)
  obtain ds where r2: "vfs_read_dir ''/'' 1 demo_kernel = Some (Some ds, demo_kernel)"
    using read_dir_root [OF demo_disk_wf, of "''/''" 1]
    by (auto simp: vfs_read_dir_def resolve_namespace_path_def find_mount_def demo_mounts_def fs_read_dir_eq simp del: One_nat_def)
  have "bind_ns ''/tmp'' ''/'' 16 demo_kernel = Some (0, upd_cur (\<lambda>p. p\<lparr>ns := \<lparr>old_path = ''/tmp'', new_path = ''/'', ns_flags = 16\<rparr> # ns p\<rparr>)
      (demo_kernel\<lparr>km := (km demo_kernel)\<lparr>heap_pos := 39\<rparr>\<rparr>))"
    unfolding bind_ns_def r1 r2 bind.bind_lunit prod.case
    by (simp add: create_namespace_def kalloc_def sizeof_namespace_def HEAP_SIZE_def)
  then show thesis by (rule that) (simp add: upd_cur_def)
qed

theorem bind_redirects_listings_witness: "\<exists>k' k1. resolve_namespace_path ''//x'' k' = Some (''/tmp/x'', k1)"
proof (rule demo_bind)
  fix k' assume "bind_ns ''/tmp'' ''/'' 16 demo_kernel = Some (0, k')" "unat (heap_pos (km k')) + 256 \<le> 1048576"
  from bind_redirects_listings [OF this(1) demo_kernel_simps(1) _ _ this(2), of "''/x''" 1] show ?thesis
    by (auto simp: VFS_MAX_PATH_def)
qed

theorem bind_redirects_opens_backwards_witness: "\<exists>k'. resolve_path ''/tmp/x'' k' = Some ''//x''"
proof (rule demo_bind)
  fix k' assume "bind_ns ''/tmp'' ''/'' 16 demo_kernel = Some (0, k')"
  from bind_redirects_opens_backwards [OF this demo_kernel_simps(1), of "''/x''"] show ?thesis
    by (auto simp: VFS_MAX_PATH_def into_buf_def)
qed

end
