(* ===== verification/Message_Copy.thy ===== *)
theory Message_Copy
  imports Message Vfs_Props
begin

text \<open>
  Copying a file: the loop of \<open>MSG_COPY\<close> and \<open>MSG_MOVE\<close> in \<open>src/src/kernel/message.c\<close>.

  The locale \<open>stream_pair\<close> is the contract between a copying loop and the files: a read takes a non-empty piece off the
  rest of the source, or finds it empty, and a write appends the piece to the destination. The locale \<open>stream_copy\<close> adds
  a loop that reads and writes in turn; its client lemma is that the loop ends and has moved the whole rest. Two files of
  the RAM disk are such a pair, and the model's loop on them is an instance; the \<open>cp\<close> command of the shell has a loop of its
  own, which is another one.
\<close>

section \<open>The interfaces\<close>

locale stream_pair =
  fixes rd :: "'s \<Rightarrow> (byte list \<times> 's) option"
    and wr :: "byte list \<Rightarrow> 's \<Rightarrow> 's option"
    and rest :: "'s \<Rightarrow> byte list"
    and out :: "'s \<Rightarrow> byte list"
    and ok :: "'s \<Rightarrow> bool"
    and ready :: "byte list \<Rightarrow> 's \<Rightarrow> bool"
  assumes rd_some: "ok s \<Longrightarrow> rest s \<noteq> [] \<Longrightarrow>
      \<exists>c s1. rd s = Some (c, s1) \<and> c \<noteq> [] \<and> rest s = c @ rest s1 \<and> out s1 = out s \<and> ready c s1"
    and rd_end: "ok s \<Longrightarrow> rest s = [] \<Longrightarrow> \<exists>s1. rd s = Some ([], s1) \<and> ok s1 \<and> rest s1 = [] \<and> out s1 = out s"
    and wr_ok: "ready c s \<Longrightarrow> \<exists>s1. wr c s = Some s1 \<and> ok s1 \<and> rest s1 = rest s \<and> out s1 = out s @ c"

text \<open>\<open>t\<close> is what the loop counts, \<open>res t\<close> its result at the end.\<close>

locale stream_copy = stream_pair +
  fixes loop :: "'c \<Rightarrow> 's \<Rightarrow> ('r \<times> 's) option"
    and res :: "'c \<Rightarrow> 'r"
    and add :: "'c \<Rightarrow> nat \<Rightarrow> 'c"
  assumes loop_end: "ok s \<Longrightarrow> rd s = Some ([], s1) \<Longrightarrow> loop t s = Some (res t, s1)"
    and loop_more: "ok s \<Longrightarrow> rd s = Some (c, s1) \<Longrightarrow> c \<noteq> [] \<Longrightarrow> wr c s1 = Some s2 \<Longrightarrow> loop t s = loop (add t (length c)) s2"
    and add_add: "add (add t m) n = add t (m + n)"
    and add_zero: "add t 0 = t"
begin

lemma loop_copies:
  "ok s \<Longrightarrow> \<exists>s'. loop t s = Some (res (add t (length (rest s))), s') \<and> ok s' \<and> rest s' = [] \<and> out s' = out s @ rest s"
proof (induction "length (rest s)" arbitrary: s t rule: less_induct)
  case less
  show ?case
  proof (cases "rest s = []")
    case True
    then obtain s1 where "rd s = Some ([], s1)" "ok s1" "rest s1 = []" "out s1 = out s" using rd_end [OF less.prems] by blast
    with loop_end [OF less.prems] True show ?thesis by (simp add: add_zero)
  next
    case False
    then obtain c s1 where c: "rd s = Some (c, s1)" "c \<noteq> []" "rest s = c @ rest s1" "out s1 = out s" "ready c s1"
      using rd_some [OF less.prems] by blast
    obtain s2 where s2: "wr c s1 = Some s2" "ok s2" "rest s2 = rest s1" "out s2 = out s1 @ c"
      using wr_ok [OF c(5)] by blast
    have "length (rest s2) < length (rest s)" using c s2 by simp
    from less.hyps [OF this s2(2), of "add t (length c)"] loop_more [OF less.prems c(1,2) s2(1), of t] c s2
    show ?thesis by (auto simp: add_add)
  qed
qed

end

section \<open>Two files of the RAM disk\<close>

definition rc_read :: "int \<Rightarrow> kernel \<Rightarrow> (byte list \<times> kernel) option" where
  "rc_read src k = map_option snd (vfs_read src 1024 k)"

definition rc_write :: "int \<Rightarrow> byte list \<Rightarrow> kernel \<Rightarrow> kernel option" where
  "rc_write dst c k = (case vfs_write dst c (of_nat (length c)) k of
     None \<Rightarrow> None | Some (w, k1) \<Rightarrow> if w = int (length c) then Some k1 else None)"

definition rc_rest :: "u64 \<Rightarrow> nat \<Rightarrow> kernel \<Rightarrow> byte list" where
  "rc_rest a i k = drop (unat (f_pos (fobjs (km k) a))) (rf_bytes (ram k ! i))"

definition rc_out :: "nat \<Rightarrow> kernel \<Rightarrow> byte list" where
  "rc_out j k = rf_bytes (ram k ! j)"

text \<open>
  Source \<open>src\<close> (object \<open>a\<close>, slot \<open>i\<close>) and destination \<open>dst\<close> (object \<open>b\<close>, slot \<open>j\<close>), the destination at its end, room for \<open>n\<close>
  more bytes there, and nothing but the contents of slot \<open>j\<close> changed since \<open>k0\<close>.
\<close>

definition rc_ok :: "int \<Rightarrow> u64 \<Rightarrow> nat \<Rightarrow> int \<Rightarrow> u64 \<Rightarrow> nat \<Rightarrow> kernel \<Rightarrow> nat \<Rightarrow> kernel \<Rightarrow> bool" where
  "rc_ok src a i dst b j k0 n k \<longleftrightarrow> a \<noteq> b \<and> i \<noteq> j \<and> ramfs_inv (ram k) \<and> ram_fd src a i k \<and> ram_fd dst b j k
     \<and> unat (f_pos (fobjs (km k) b)) = unat (rf_size (ram k ! j)) \<and> length (rc_out j k) + n \<le> MAX_CONTENT
     \<and> fd_table k = fd_table k0 \<and> next_fd k = next_fd k0 \<and> mount_points k = mount_points k0 \<and> pt k = pt k0 \<and> disk k = disk k0
     \<and> heap_pos (km k) = heap_pos (km k0)
     \<and> length (ram k) = length (ram k0) \<and> (\<forall>l. l \<noteq> j \<longrightarrow> ram k ! l = ram k0 ! l)
     \<and> used (ram k ! j) = used (ram k0 ! j) \<and> rf_path (ram k ! j) = rf_path (ram k0 ! j)"

lemma ram_fd_move_pos:
  assumes "ram_fd d a i k" "unat (f_pos (fobjs (km k) a)) + n \<le> MAX_CONTENT"
  shows "ram_fd d a i (move_pos a n k)" "unat (f_pos (fobjs (km (move_pos a n k)) a)) = unat (f_pos (fobjs (km k) a)) + n"
proof -
  have "unat (of_nat n :: u64) = n" using assms(2) by (simp add: unat_of_nat MAX_CONTENT_def)
  then show u: "unat (f_pos (fobjs (km (move_pos a n k)) a)) = unat (f_pos (fobjs (km k) a)) + n"
    using assms(2) by (simp add: unat_add_small MAX_CONTENT_def)
  show "ram_fd d a i (move_pos a n k)" using assms u by (simp add: ram_fd_def ram_file_ok_def)
qed

lemma ram_fd_other: "ram_fd e b j k \<Longrightarrow> b \<noteq> a \<Longrightarrow> ram_fd e b j (move_pos a n k)"
  by (simp add: ram_fd_def)

lemma ram_fd_ram: "ram_fd e b j k \<Longrightarrow> length r = length (ram k) \<Longrightarrow> ram_fd e b j (k\<lparr>ram := r\<rparr>)"
  by (simp add: ram_fd_def ram_file_ok_def)

lemma rc_read_eq:
  assumes "ramfs_inv (ram k)" "ram_fd src a i k"
  shows "vfs_read src 1024 k = Some (int (length (take 1024 (rc_rest a i k))), take 1024 (rc_rest a i k),
      move_pos a (length (take 1024 (rc_rest a i k))) k)"
  using vfs_read_ram [OF assms, of 1024] by (simp only: rc_rest_def unat_numeral) simp

lemma rc_read_step:
  assumes ok: "rc_ok src a i dst b j k0 (length (rc_rest a i k)) k"
  defines "c \<equiv> take 1024 (rc_rest a i k)"
  defines "k1 \<equiv> move_pos a (length c) k"
  shows "rc_read src k = Some (c, k1)" "rc_rest a i k = c @ rc_rest a i k1" "rc_out j k1 = rc_out j k"
    and "rc_ok src a i dst b j k0 (length c + length (rc_rest a i k1)) k1"
proof -
  have r: "ramfs_inv (ram k)" "ram_fd src a i k" "ram_fd dst b j k" "a \<noteq> b" using ok by (simp_all add: rc_ok_def)
  have sz: "length (rf_bytes (ram k ! i)) \<le> MAX_CONTENT"
    using ramfs_inv_nth [OF r(1)] r(2) by (simp add: ram_fd_def ram_file_ok_def)
  have p: "unat (f_pos (fobjs (km k) a)) \<le> MAX_CONTENT" using r(2) by (simp add: ram_fd_def ram_file_ok_def)
  have l: "unat (f_pos (fobjs (km k) a)) + length c \<le> MAX_CONTENT"
    using sz p by (auto simp: c_def rc_rest_def)
  note mv = ram_fd_move_pos [OF r(2) l]
  show "rc_read src k = Some (c, k1)" using rc_read_eq [OF r(1,2)] by (simp add: rc_read_def c_def k1_def)
  have "rc_rest a i k1 = drop (length c) (rc_rest a i k)"
    using mv(2) by (simp add: rc_rest_def k1_def add.commute)
  then show rest: "rc_rest a i k = c @ rc_rest a i k1"
    by (cases "length (rc_rest a i k) \<le> 1024") (simp_all add: c_def)
  show "rc_out j k1 = rc_out j k" by (simp add: rc_out_def k1_def)
  have "length (rc_rest a i k) = length c + length (rc_rest a i k1)" by (subst rest) simp
  moreover have "ram_fd src a i k1" "ram_fd dst b j k1"
    using mv(1) ram_fd_other [OF r(3)] r(4) by (auto simp: k1_def)
  ultimately show "rc_ok src a i dst b j k0 (length c + length (rc_rest a i k1)) k1"
    using ok r(4) [symmetric] by (simp add: rc_ok_def k1_def rc_out_def)
qed

lemma rc_write_step:
  assumes ok: "rc_ok src a i dst b j k0 (length c + length (rc_rest a i k)) k"
  obtains k1 where "vfs_write dst c (of_nat (length c)) k = Some (int (length c), k1)" "rc_out j k1 = rc_out j k @ c"
    "rc_rest a i k1 = rc_rest a i k" "rc_ok src a i dst b j k0 (length (rc_rest a i k1)) k1"
proof -
  let ?p = "unat (f_pos (fobjs (km k) b))"
  have r: "ramfs_inv (ram k)" "ram_fd src a i k" "ram_fd dst b j k" "a \<noteq> b" "i \<noteq> j" "?p = unat (rf_size (ram k ! j))"
    "?p + length c + length (rc_rest a i k) \<le> MAX_CONTENT"
    using ok by (simp_all add: rc_ok_def rc_out_def)
  have j: "j < length (ram k)" using r(3) by (simp add: ram_fd_def ram_file_ok_def)
  have l: "?p + length c \<le> MAX_CONTENT" using r(7) by simp
  obtain rf where w: "vfs_write dst c (of_nat (length c)) k = Some (int (length c), (move_pos b (length c) k)\<lparr>ram := (ram k)[j := rf]\<rparr>)"
    and rf: "ramfs_inv ((ram k)[j := rf])" "rf_path rf = rf_path (ram k ! j)" "used rf = used (ram k ! j)"
      "rf_bytes rf = take ?p (rf_bytes (ram k ! j)) @ c @ drop (?p + length c) (rf_bytes (ram k ! j))"
    using vfs_write_ram [OF r(1,3) _ l] r(6) by auto
  define k1 where "k1 = (move_pos b (length c) k)\<lparr>ram := (ram k)[j := rf]\<rparr>"
  have b: "rf_bytes rf = rf_bytes (ram k ! j) @ c" using rf(4) r(6) by simp
  have sz: "unat (rf_size rf) = unat (rf_size (ram k ! j)) + length c" using arg_cong [OF b, of length] by simp
  note mv = ram_fd_move_pos [OF r(3) l]
  have fds: "ram_fd dst b j k1" "ram_fd src a i k1"
    unfolding k1_def using mv(1) ram_fd_other [OF r(2,4)] by (auto intro!: ram_fd_ram)
  have out: "rc_out j k1 = rc_out j k @ c" using b j by (simp add: rc_out_def k1_def)
  have rest: "rc_rest a i k1 = rc_rest a i k" using r(4,5) by (simp add: rc_rest_def k1_def)
  have "rc_ok src a i dst b j k0 (length (rc_rest a i k1)) k1"
    using ok fds rf j mv(2) sz out rest by (auto simp: rc_ok_def k1_def)
  with w out rest show thesis by (intro that [of k1]) (simp_all add: k1_def)
qed

interpretation ram_pair: stream_pair "rc_read src" "rc_write dst" "rc_rest a i" "rc_out j"
    "\<lambda>k. rc_ok src a i dst b j k0 (length (rc_rest a i k)) k" "\<lambda>c k. rc_ok src a i dst b j k0 (length c + length (rc_rest a i k)) k \<and> length c \<le> 1024"
  for src dst :: int and a b :: u64 and i j :: nat and k0 :: kernel
proof (unfold_locales, goal_cases)
  case (1 k)
  with rc_read_step [OF 1(1)] show ?case by fastforce
next
  case (2 k)
  note r = rc_read_step [OF 2(1)]
  have c: "take 1024 (rc_rest a i k) = []" using 2(2) by simp
  with r 2(2) show ?case by (metis append_Nil list.size(3) add_0)
next
  case (3 c k)
  then obtain k1 where "vfs_write dst c (of_nat (length c)) k = Some (int (length c), k1)" "rc_out j k1 = rc_out j k @ c"
    "rc_rest a i k1 = rc_rest a i k" "rc_ok src a i dst b j k0 (length (rc_rest a i k1)) k1"
    using rc_write_step [of src a i dst b j k0 c k] by blast
  then show ?case by (auto simp: rc_write_def)
qed

text \<open>The calls of the virtual file system behind one round of a loop.\<close>

lemma rc_read_call:
  assumes "rc_ok src a i dst b j k0 n k" "rc_read src k = Some (c, k1)"
  shows "vfs_read src 1024 k = Some (int (length c), c, k1)" "length c \<le> 1024"
proof -
  have "ramfs_inv (ram k)" "ram_fd src a i k" using assms(1) by (simp_all add: rc_ok_def)
  from rc_read_eq [OF this] assms(2) show "vfs_read src 1024 k = Some (int (length c), c, k1)" "length c \<le> 1024"
    by (auto simp: rc_read_def)
qed

lemma rc_write_call: "rc_write dst c k = Some k1 \<Longrightarrow> vfs_write dst c (of_nat (length c)) k = Some (int (length c), k1)"
  by (auto simp: rc_write_def split: option.splits if_splits)

definition copy_loop' :: "int \<Rightarrow> int \<Rightarrow> int \<Rightarrow> kernel \<Rightarrow> ((bool \<times> int) \<times> kernel) option" where
  "copy_loop' src dst t k = map_option (\<lambda>(r, n, k'). ((r, n), k')) (copy_loop src dst t k)"

interpretation ram_copy: stream_copy "rc_read src" "rc_write dst" "rc_rest a i" "rc_out j"
    "\<lambda>k. rc_ok src a i dst b j k0 (length (rc_rest a i k)) k" "\<lambda>c k. rc_ok src a i dst b j k0 (length c + length (rc_rest a i k)) k \<and> length c \<le> 1024"
    "copy_loop' src dst" "Pair True" "\<lambda>t n. t + int n"
  for src dst :: int and a b :: u64 and i j :: nat and k0 :: kernel
proof (unfold_locales, goal_cases)
  case (1 k k1 t)
  from rc_read_call [OF this] show ?case by (subst copy_loop'_def, subst copy_loop.simps) (simp add: c_int_small)
next
  case (2 k c k1 k2 t)
  note r = rc_read_call [OF 2(1,2)]
  have n: "c_int (int (length c)) = int (length c)" using r(2) by (simp add: c_int_small)
  show ?case
    using 2(3) rc_write_call [OF 2(4)] by (subst (1 2) copy_loop'_def, subst copy_loop.simps) (simp add: r(1) n Let_def)
qed simp_all

section \<open>The whole copy\<close>

text \<open>After opening the source and creating the destination the loop's contract holds.\<close>

lemma copy_start:
  assumes "ramfs_inv (ram k)" "cur_proc k = Some pr" "ns pr = []" "take 5 src = ''/tmp/''" "length src < VFS_MAX_PATH"
    and "take 5 dst = ''/tmp/''" "length dst < MAX_PATH" "ram_find src (ram k) = Some i"
    and "first_idx (\<lambda>rf. \<not> used rf) (ram k) = Some j" "vfs_room 2 k"
  obtains k1 k2 rf a b where "vfs_open src k = Some (int (next_fd k), k1)" "vfs_create dst k1 = Some (int (next_fd k + 1), k2)"
    "ram k2 = (ram k)[j := rf]" "used rf" "rf_path rf = dst" "rf_size rf = 0" "vfs_room 0 k2" "pt k2 = pt k" "mount_points k2 = mount_points k"
    "rc_ok (int (next_fd k)) a i (int (next_fd k + 1)) b j k2 (length (rc_rest a i k2)) k2" "rc_rest a i k2 = rf_bytes (ram k ! i)"
proof -
  let ?a = "heap_pos (km k)"
  have i: "i < length (ram k)" "used (ram k ! i)" using first_idx_SomeD [OF assms(8) [unfolded ram_find_def]] by auto
  have j: "j < length (ram k)" "\<not> used (ram k ! j)" using first_idx_SomeD [OF assms(9)] by auto
  have ij: "i \<noteq> j" using i(2) j(2) by auto
  have room: "vfs_room (Suc 1) k" "vfs_room 1 k" using assms(10) vfs_room_less [OF assms(10), of 1] by (simp_all add: numeral_2_eq_2)
  obtain f where o: "vfs_open src k = Some (int (next_fd k), install f k)" and f: "ram_object i f"
    using vfs_open_ram [OF assms(2-5,8) room(2)] by blast
  define k1 where "k1 = install f k"
  have k1: "vfs_room 1 k1" "ram k1 = ram k" "next_fd k1 = next_fd k + 1" "heap_pos (km k1) \<noteq> ?a"
    using install_room [OF room(1), of f] install_fresh [OF room(2), of f] by (simp_all add: k1_def del: install_facts(8))
  obtain g rf where c: "vfs_create dst k1 = Some (int (next_fd k1), install g (k1\<lparr>ram := (ram k)[j := rf]\<rparr>))" and g: "ram_object j g"
    and rf: "used rf" "rf_path rf = dst" "rf_size rf = 0"
    using vfs_create_ram [OF assms(6,7), of k1 j] assms(9) k1(1,2) by auto
  define k1' where "k1' = k1\<lparr>ram := (ram k)[j := rf]\<rparr>"
  define k2 where "k2 = install g k1'"
  have k1': "vfs_room 1 k1'" "vfs_room (Suc 0) k1'" "next_fd k1' = next_fd k1" "heap_pos (km k1') = heap_pos (km k1)"
    using k1(1) by (auto simp: k1'_def vfs_room_def fd_inv_def)
  have inv: "ramfs_inv (ram k2)" using assms(1,7) rf by (auto simp: k2_def k1'_def intro: ramfs_inv_update)
  have fds: "ram_fd (int (next_fd k)) ?a i k2"
    using install_file(2) [OF k1'(1), of "int (next_fd k)" g] ram_fd_install [OF room(2) f i(1)] k1 k1'
    by (simp add: ram_fd_def ram_file_ok_def k2_def) (simp add: k1'_def k1_def)
  have fdd: "ram_fd (int (next_fd k + 1)) (heap_pos (km k1)) j k2"
    using ram_fd_install [OF k1'(1) g] j(1) k1(3) k1'(3,4) by (simp add: k2_def k1'_def)
  have objs: "f_pos (fobjs (km k2) ?a) = 0" "f_pos (fobjs (km k2) (heap_pos (km k1))) = 0"
    using f g k1(4) k1'(4) by (simp_all add: k2_def k1'_def k1_def ram_object_def)
  have ram2: "ram k2 = (ram k)[j := rf]" by (simp add: k2_def k1'_def)
  have rest: "rc_rest ?a i k2 = rf_bytes (ram k ! i)" using objs(1) ij by (simp add: rc_rest_def ram2)
  have "length (rf_bytes (ram k ! i)) \<le> MAX_CONTENT" using ramfs_inv_nth [OF assms(1) i(1)] by simp
  then have "rc_ok (int (next_fd k)) ?a i (int (next_fd k + 1)) (heap_pos (km k1)) j k2 (length (rc_rest ?a i k2)) k2"
    unfolding rc_ok_def using inv fds fdd objs(2) k1(4) [symmetric] ij rf(3) j(1) rest by (simp add: ram2 rc_out_def)
  moreover have "vfs_room 0 k2" using install_room [OF k1'(2), of g] by (simp add: k2_def)
  moreover have "pt k2 = pt k" "mount_points k2 = mount_points k" by (simp_all add: k2_def k1'_def k1_def)
  ultimately show thesis
    using o c rf rest ram2 k1(3) unfolding k1_def [symmetric] k1'_def [symmetric] k2_def [symmetric] by (intro that) simp_all
qed

lemma copy_files_ram:
  assumes "ramfs_inv (ram k)" "cur_proc k = Some pr" "ns pr = []" "take 5 src = ''/tmp/''" "length src < VFS_MAX_PATH"
    and "take 5 dst = ''/tmp/''" "length dst < MAX_PATH" "ram_find src (ram k) = Some i"
    and "first_idx (\<lambda>rf. \<not> used rf) (ram k) = Some j" "vfs_room 2 k"
  obtains k' rf where "copy_files src dst k = Some (Some True, k')" "ram k' = (ram k)[j := rf]" "used rf" "rf_path rf = dst"
    "rf_bytes rf = rf_bytes (ram k ! i)" "ramfs_inv (ram k')" "pt k' = pt k" "mount_points k' = mount_points k"
proof (rule copy_start [OF assms])
  fix k1 k2 rf a b
  let ?s = "int (next_fd k)" and ?d = "int (next_fd k + 1)"
  assume o: "vfs_open src k = Some (?s, k1)" and c: "vfs_create dst k1 = Some (?d, k2)"
    and r2: "ram k2 = (ram k)[j := rf]" and rf: "used rf" "rf_path rf = dst" "rf_size rf = 0" and room: "vfs_room 0 k2"
    and k2: "pt k2 = pt k" "mount_points k2 = mount_points k"
    and ok: "rc_ok ?s a i ?d b j k2 (length (rc_rest a i k2)) k2" and rest: "rc_rest a i k2 = rf_bytes (ram k ! i)"
  have j: "j < length (ram k)" using first_idx_lt [OF assms(9)] .
  obtain k3 where l: "copy_loop ?s ?d 0 k2 = Some (True, int (length (rc_rest a i k2)), k3)"
    and k3: "rc_ok ?s a i ?d b j k2 (length (rc_rest a i k3)) k3" "rc_out j k3 = rc_out j k2 @ rc_rest a i k2"
    using ram_copy.loop_copies [OF ok, of 0] by (auto simp: copy_loop'_def)
  define k4 where "k4 = snd (vfs_close ?s k3)"
  define k5 where "k5 = snd (vfs_close ?d k4)"
  have cl: "ram k5 = ram k3" "pt k5 = pt k3" "mount_points k5 = mount_points k3"
    by (simp_all add: k5_def k4_def vfs_close_def)
  have "ram k3 = (ram k)[j := ram k3 ! j]"
    using k3(1) j r2 by (intro nth_equalityI) (auto simp: rc_ok_def nth_list_update)
  moreover have "rf_bytes (ram k3 ! j) = rf_bytes (ram k ! i)"
    using k3(2) rest j rf(3) by (simp add: rc_out_def r2 rf_bytes_def)
  moreover have "used (ram k3 ! j)" "rf_path (ram k3 ! j) = dst" "ramfs_inv (ram k3)" "pt k3 = pt k2" "mount_points k3 = mount_points k2"
    using k3(1) j rf by (simp_all add: rc_ok_def r2)
  moreover have "copy_files src dst k = Some (Some True, k5)"
    using o c l by (simp add: copy_files_def k5_def k4_def)
  ultimately show thesis using k2 cl by (intro that [of k5 "ram k3 ! j"]) simp_all
qed

lemma ram_lookup_new:
  assumes "ram_uniq fs" "ram_find p fs = None" "first_idx (\<lambda>rf. \<not> used rf) fs = Some j" "used rf" "rf_path rf = p"
  shows "ram_uniq (fs[j := rf])" "ram_lookup (fs[j := rf]) = (ram_lookup fs)(p := Some (rf_bytes rf))"
proof -
  have j: "j < length fs" "\<not> used (fs ! j)" using first_idx_SomeD [OF assms(3)] by auto
  show u: "ram_uniq (fs[j := rf])" by (rule ram_uniq_update) (use assms in auto)
  have "ram_lookup (fs[j := rf]) = (ram_lookup fs)(p := if used (fs[j := rf] ! j) then Some (rf_bytes (fs[j := rf] ! j)) else None)"
    using assms(1) u by (rule ram_lookup_update) (use j assms(4,5) in auto)
  then show "ram_lookup (fs[j := rf]) = (ram_lookup fs)(p := Some (rf_bytes rf))" using j assms(4) by simp
qed

end
