(* ===== verification/Message_Props.thy ===== *)
theory Message_Props
  imports Message_Copy
begin

text \<open>
  What the message interface guarantees: copying and moving files, changing the directory, reading, and the
  handling of null pointers.
\<close>

section \<open>Using the console\<close>

text \<open>Between \<open>m\<close> and \<open>m'\<close> the console has read \<open>ins\<close> and sent \<open>outs\<close>, and nothing else has happened.\<close>

definition talks :: "machine \<Rightarrow> byte list \<Rightarrow> byte list \<Rightarrow> machine \<Rightarrow> bool" where
  "talks m ins outs m' \<longleftrightarrow> kern m' = kern m \<and> dirents_out m' = dirents_out m \<and> uart_fair (con m')
     \<and> rx (con m) = ins @ rx (con m') \<and> tx (con m') = tx (con m) @ outs"

lemma talks_refl: "uart_fair (con m) \<Longrightarrow> talks m [] [] m"
  by (simp add: talks_def)

lemma talks_trans: "talks m a b m1 \<Longrightarrow> talks m1 c d m2 \<Longrightarrow> talks m (a @ c) (b @ d) m2"
  by (simp add: talks_def)

lemma say_ok:
  assumes "uart_fair (con m)"
  obtains m' where "say adr s m = Some m'" "talks m [] (crlf s) m'"
proof -
  obtain u where "uart_puts (adr (fr_pos (con m))) s (con m) = Some u" "uart_fair u" "tx u = tx (con m) @ crlf s" "rx u = rx (con m)"
    using uart_puts_ok [OF assms] by blast
  then show thesis by (intro that [of "m\<lparr>con := u\<rparr>"]) (simp_all add: say_def talks_def)
qed

lemma say_all_ok:
  assumes "uart_fair (con m)"
  obtains m' where "say_all adr ss m = Some m'" "talks m [] (concat (map crlf ss)) m'"
  using assms
proof (induction ss arbitrary: m thesis)
  case Nil
  then show ?case by (auto intro: talks_refl)
next
  case (Cons s ss)
  obtain m1 where m1: "say adr s m = Some m1" "talks m [] (crlf s) m1" using say_ok [OF Cons.prems(2)] by blast
  then have "uart_fair (con m1)" by (simp add: talks_def)
  from Cons.IH [OF _ this] obtain m2 where "say_all adr ss m1 = Some m2" "talks m1 [] (concat (map crlf ss)) m2" by blast
  with m1 talks_trans [OF m1(2)] show ?case by (intro Cons.prems(1) [of m2]) auto
qed

lemma say_hex_ok:
  assumes "uart_fair (con m)"
  obtains m' where "say_hex adr n m = Some m'" "talks m [] (''0x'' @ hex_digits n) m'"
proof -
  obtain u where "uart_hex (adr (fr_pos (con m))) n (con m) = Some u" "uart_fair u" "tx u = tx (con m) @ ''0x'' @ hex_digits n" "rx u = rx (con m)"
    using uart_hex_ok [OF assms] by blast
  then show thesis by (intro that [of "m\<lparr>con := u\<rparr>"]) (simp_all add: say_hex_def talks_def)
qed

text \<open>What a sequence of calls sends.\<close>

definition item_out :: "string + u64 \<Rightarrow> byte list" where
  "item_out x = (case x of Inl s \<Rightarrow> crlf s | Inr n \<Rightarrow> ''0x'' @ hex_digits n)"

lemma say_items_ok:
  assumes "uart_fair (con m)"
  obtains m' where "say_items adr xs m = Some m'" "talks m [] (concat (map item_out xs)) m'"
  using assms
proof (induction xs arbitrary: m thesis)
  case Nil
  then show ?case by (auto intro: talks_refl)
next
  case (Cons x xs)
  obtain m1 where m1: "(case x of Inl s \<Rightarrow> say adr s m | Inr n \<Rightarrow> say_hex adr n m) = Some m1" "talks m [] (item_out x) m1"
  proof (cases x)
    case (Inl t)
    show thesis by (rule say_ok [OF Cons.prems(2), of adr t]) (rule that; simp add: Inl item_out_def)
  next
    case (Inr n)
    show thesis by (rule say_hex_ok [OF Cons.prems(2), of adr n]) (rule that; simp add: Inr item_out_def)
  qed
  then have "uart_fair (con m1)" by (simp add: talks_def)
  from Cons.IH [OF _ this] obtain m2 where "say_items adr xs m1 = Some m2" "talks m1 [] (concat (map item_out xs)) m2" by blast
  with m1 talks_trans [OF m1(2)] show ?case by (intro Cons.prems(1) [of m2]) auto
qed

lemma say_items_kern: "say_items adr xs m = Some m' \<Longrightarrow> kern m' = kern m"
  by (induction xs arbitrary: m) (auto simp: say_def say_hex_def split: sum.splits Option.bind_splits)

section \<open>Copy and move\<close>

lemma find_mount_cong: "mount_points k' = mount_points k \<Longrightarrow> find_mount p k' = find_mount p k"
  by (simp add: find_mount_def)

text \<open>C22: \<open>MSG_COPY\<close> of a file under \<open>/tmp\<close> to a new name there returns 0, the loop ends, and the RAM disk as a map from paths to contents
  has gained exactly the new name, with the contents of the source.\<close>

theorem send_copy_copies:
  assumes "msg_type msg = msg_code MSG_COPY" "path msg = Some src" "Option.bind (data msg) cstr_of = Some dst"
    and "ramfs_inv (ram (kern m))" "ram_uniq (ram (kern m))" "cur_proc (kern m) = Some pr" "ns pr = []"
    and "take 5 src = ''/tmp/''" "length src < VFS_MAX_PATH" "take 5 dst = ''/tmp/''" "length dst < MAX_PATH"
    and "ram_find src (ram (kern m)) = Some i" "ram_find dst (ram (kern m)) = None"
    and "first_idx (\<lambda>rf. \<not> used rf) (ram (kern m)) = Some j" "vfs_room 2 (kern m)"
  shows "\<exists>m'. send_message e msg m = Some (Return 0, msg, m')
    \<and> ram_lookup (ram (kern m')) = (ram_lookup (ram (kern m)))(dst := ram_lookup (ram (kern m)) src)"
proof -
  obtain k' rf where c: "copy_files src dst (kern m) = Some (Some True, k')" "ram k' = (ram (kern m))[j := rf]" "used rf" "rf_path rf = dst"
    "rf_bytes rf = rf_bytes (ram (kern m) ! i)"
    by (rule copy_files_ram [OF assms(4,6-12,14,15)])
  have "ram_lookup (ram k') = (ram_lookup (ram (kern m)))(dst := Some (rf_bytes rf))"
    using ram_lookup_new(2) [OF assms(5,13,14) c(3,4)] c(2) by simp
  moreover have "ram_lookup (ram (kern m)) src = Some (rf_bytes rf)" using assms(12) c(5) by (simp add: ram_lookup_def)
  moreover have "send_message e msg m = Some (Return 0, msg, m\<lparr>kern := k'\<rparr>)"
    using assms(1-3) c(1) by (auto simp: send_message_def msg_copy_def)
  ultimately show ?thesis by auto
qed

text \<open>C23: \<open>MSG_MOVE\<close> between two paths under \<open>/tmp\<close>, for a process without bindings, does the same as \<open>MSG_COPY\<close> and removes the source: the contents are now under the new name only.
  Outside \<open>/tmp\<close> it does not: opening a path there refers to inode 0.\<close>

theorem send_move_moves:
  assumes "msg_type msg = msg_code MSG_MOVE" "path msg = Some src" "Option.bind (data msg) cstr_of = Some dst"
    and "ramfs_inv (ram (kern m))" "ram_uniq (ram (kern m))" "cur_proc (kern m) = Some pr" "ns pr = []"
    and "take 5 src = ''/tmp/''" "length src < VFS_MAX_PATH" "take 5 dst = ''/tmp/''" "length dst < MAX_PATH"
    and "ram_find src (ram (kern m)) = Some i" "ram_find dst (ram (kern m)) = None"
    and "first_idx (\<lambda>rf. \<not> used rf) (ram (kern m)) = Some j" "vfs_room 2 (kern m)"
    and "find_mount src (kern m) = Some mp" "mp_fs mp = RamFs"
  shows "\<exists>m'. send_message e msg m = Some (Return 0, msg, m')
    \<and> ram_lookup (ram (kern m')) = (ram_lookup (ram (kern m)))(dst := ram_lookup (ram (kern m)) src, src := None)"
proof -
  obtain k' rf where c: "copy_files src dst (kern m) = Some (Some True, k')" "ram k' = (ram (kern m))[j := rf]" "used rf" "rf_path rf = dst"
    "rf_bytes rf = rf_bytes (ram (kern m) ! i)" "ramfs_inv (ram k')" "pt k' = pt (kern m)" "mount_points k' = mount_points (kern m)"
    by (rule copy_files_ram [OF assms(4,6-12,14,15)])
  note new = ram_lookup_new [OF assms(5,13,14) c(3,4), folded c(2)]
  have l: "ram_lookup (ram (kern m)) src = Some (rf_bytes rf)" using assms(12) c(5) by (simp add: ram_lookup_def)
  have "src \<noteq> dst" using assms(12,13) by auto
  then have "ram_lookup (ram k') src \<noteq> None" using new(2) l by simp
  from ram_unlink_lookup [OF c(6) new(1) this] obtain fs where fs: "ramfs_unlink src (ram k') = (0, fs)"
    "ram_lookup fs = (ram_lookup (ram k'))(src := None)" by blast
  have "find_mount src k' = Some mp" using assms(16) find_mount_cong [OF c(8)] by simp
  then have "vfs_unlink src k' = Some (0, k'\<lparr>ram := fs\<rparr>)"
    using assms(9,17) tmp_abs [OF assms(8)] fs(1) by (simp add: vfs_unlink_def make_full_path_abs fs_unlink_eq)
  then have "send_message e msg m = Some (Return 0, msg, m\<lparr>kern := k'\<lparr>ram := fs\<rparr>\<rparr>)"
    using assms(1-3) c(1) by (auto simp: send_message_def msg_move_def)
  then show ?thesis using fs(2) new(2) l by auto
qed

text \<open>A message and a machine for the witnesses.\<close>

definition demo_machine :: machine where
  "demo_machine = \<lparr>kern = demo_kernel, con = idle_uart, dirents_out = []\<rparr>"

definition demo_env :: env where
  "demo_env = \<lparr>env_lm = \<lparr>process_stacks = 0, process3 = 0\<rparr>, env_argv = 0, env_str = 0, env_adr = id, env_elr = 0, env_far = 0\<rparr>"

lemma demo_machine_simps [simp]: "kern demo_machine = demo_kernel" "con demo_machine = idle_uart"
  by (simp_all add: demo_machine_def)

lemma demo_copy_facts:
  "ram_find ''/tmp/b'' demo_ram = None" "ram_lookup demo_ram ''/tmp/a'' = Some ''hi''" "cstr_of (''/tmp/b'' @ [NUL]) = Some ''/tmp/b''"
  using demo_ram_lookup demo_ram_simps(5) by (simp_all add: ram_lookup_def cstr_of_def)

definition demo_msg :: "msg_kind \<Rightarrow> string \<Rightarrow> Message" where
  "demo_msg t p = (blank_message (msg_code t))\<lparr>path := Some p, data := Some (''/tmp/b'' @ [NUL])\<rparr>"

lemma demo_msg_simps [simp]:
  "msg_type (demo_msg t p) = msg_code t" "path (demo_msg t p) = Some p" "Option.bind (data (demo_msg t p)) cstr_of = Some ''/tmp/b''"
  using demo_copy_facts(3) by (simp_all add: demo_msg_def blank_message_def)

theorem send_copy_copies_witness:
  "\<exists>m'. send_message demo_env (demo_msg MSG_COPY ''/tmp/a'') demo_machine = Some (Return 0, demo_msg MSG_COPY ''/tmp/a'', m')
    \<and> ram_lookup (ram (kern m')) ''/tmp/b'' = Some ''hi''"
  using send_copy_copies [of "demo_msg MSG_COPY ''/tmp/a''" "''/tmp/a''" "''/tmp/b''" demo_machine demo_process 0 1 demo_env]
    demo_ram_inv demo_ram_free demo_ram_lookup(2) demo_copy_facts vfs_room_less [OF demo_kernel_room, of 2]
  by (auto simp: VFS_MAX_PATH_def MAX_PATH_def)

theorem send_move_moves_witness:
  "\<exists>m'. send_message demo_env (demo_msg MSG_MOVE ''/tmp/a'') demo_machine = Some (Return 0, demo_msg MSG_MOVE ''/tmp/a'', m')
    \<and> ram_lookup (ram (kern m')) ''/tmp/b'' = Some ''hi'' \<and> ram_lookup (ram (kern m')) ''/tmp/a'' = None"
  using send_move_moves [of "demo_msg MSG_MOVE ''/tmp/a''" "''/tmp/a''" "''/tmp/b''" demo_machine demo_process 0 1 "demo_mounts ! 1" demo_env]
    demo_ram_inv demo_ram_free demo_ram_lookup(2) demo_copy_facts vfs_room_less [OF demo_kernel_room, of 2]
  by (auto simp: VFS_MAX_PATH_def MAX_PATH_def find_mount_def demo_mounts_def Let_def)

section \<open>Changing the directory\<close>

lemma chdir_path_join:
  assumes "cwd p = show_comps st" "list_all plain_name st" "cs \<noteq> []" "list_all path_comp cs" "hd cs \<noteq> []"
    and "length (join_path (st @ cs)) < 256"
  shows "chdir_path (drop 1 (join_path cs)) p = Some (join_path (st @ cs))"
proof -
  obtain c ds where cs: "cs = c # ds" "c \<noteq> []" "path_comp c" using assms(3-5) by (cases cs) auto
  have "CHR ''/'' \<notin> set c" using cs(3) by (auto simp: path_comp_def plain_name_def)
  then have "hd c \<noteq> CHR ''/''" using hd_in_set [OF cs(2)] by metis
  then have rel: "cs_nth (drop 1 (join_path cs)) 0 \<noteq> CHR ''/''" using cs(2) by (cases c) (simp_all add: cs(1))
  have start: "''/'' @ drop 1 (join_path cs) = join_path cs" by (simp add: cs(1))
  show ?thesis
  proof (cases "st = []")
    case True
    then have c: "cwd p = ''/''" using assms(1) by (simp add: show_comps_def)
    have "into_buf 256 (''/'' @ drop 1 (join_path cs)) = Some (join_path (st @ cs))"
      unfolding start using assms(6) True by simp
    then show ?thesis unfolding chdir_path_def if_not_P [OF rel] c by simp
  next
    case False
    with join_path_last [OF assms(2)] have l: "last (join_path st) \<noteq> CHR ''/''" "join_path st \<noteq> []" by auto
    have c: "cwd p = join_path st" using assms(1) False by (simp add: show_comps_def)
    have e: "(join_path st @ ''/'') @ drop 1 (join_path cs) = join_path (st @ cs)" using start by simp
    show ?thesis unfolding chdir_path_def if_not_P [OF rel] c if_not_P [OF l(2)] if_P [OF l(1)] e using assms(6) by simp
  qed
qed

text \<open>C33: \<open>MSG_CHDIR\<close> with a path, absolute or relative to the working directory, whose names do not end in a dot: when the directory it reduces to can be listed, the working directory becomes that
  reduction, an absolute path without \<open>.\<close>, \<open>..\<close> and empty components, and the answer is 0; when it cannot be listed, the answer and the status are -1 and the working
  directory stays.\<close>

theorem send_chdir_follows_path:
  assumes "msg_type msg = msg_code MSG_CHDIR" "path msg = Some (if absolute then join_path cs else drop 1 (join_path cs))" "cur_proc (kern m) = Some pr"
    and "cwd pr = show_comps st" "list_all plain_name st" "cs \<noteq> []" "list_all path_comp cs" "absolute \<or> hd cs \<noteq> []"
    and "full = (if absolute then cs else st @ cs)" "length (join_path full) < 256"
    and "vfs_read_dir (show_comps (norm_comps full)) 1 (kern m) = Some (r, k1)"
  shows "(if r \<noteq> None
      then \<exists>m'. send_message e msg m = Some (Return 0, msg\<lparr>status := 0\<rparr>, m') \<and> cur_proc (kern m') = Some (pr\<lparr>cwd := show_comps (norm_comps full)\<rparr>)
      else \<exists>m'. send_message e msg m = Some (Return (- 1), msg\<lparr>status := - 1\<rparr>, m') \<and> cur_proc (kern m') = Some pr)
    \<and> list_all plain_name (norm_comps full)"
proof -
  let ?c = "norm_comps full"
  have pc: "list_all path_comp full" "full \<noteq> []" using plain_path_comps [OF assms(5)] assms(6,7,9) by auto
  have n: "vfs_normalize_path (join_path full) = Some (show_comps ?c)"
    using assms(10) pc by (intro normalize_comps) (simp_all add: VFS_MAX_PATH_def)
  have q: "list_all plain_name ?c" "length (join_path ?c) < 256"
    using norm_loop_comps [of full "[]"] pc assms(10) by (simp_all add: norm_comps_def VFS_MAX_PATH_def)
  have t: "take 255 (show_comps ?c) = show_comps ?c" using q(2) by (simp add: show_comps_def)
  have k1: "cur_proc k1 = Some pr" using assms(3) vfs_frame_cur [OF vfs_read_dir_frame [OF assms(11)]] by simp
  have p: "chdir_path (if absolute then join_path cs else drop 1 (join_path cs)) pr = Some (join_path full)"
  proof (cases absolute)
    case True
    then have "cs_nth (join_path cs) 0 = CHR ''/''" using assms(6) by (cases cs) auto
    then show ?thesis using True assms(9,10) by (simp add: chdir_path_def)
  next
    case False
    then show ?thesis using chdir_path_join [OF assms(4-7)] assms(8-10) by simp
  qed
  have "send_message e msg m = (if r \<noteq> None then Some (Return 0, msg\<lparr>status := 0\<rparr>, m\<lparr>kern := upd_cur (\<lambda>q. q\<lparr>cwd := show_comps ?c\<rparr>) k1\<rparr>)
      else Some (Return (- 1), msg\<lparr>status := - 1\<rparr>, m\<lparr>kern := k1\<rparr>))"
    using assms(1) by (simp add: send_message_def msg_chdir_def assms(3) assms(2) p n assms(11) [unfolded One_nat_def] t)
  then show ?thesis using k1 q(1) by auto
qed

theorem send_chdir_follows_path_witness:
  "(\<exists>m'. send_message demo_env (demo_msg MSG_CHDIR ''../tmp/.'') demo_machine = Some (Return 0, (demo_msg MSG_CHDIR ''../tmp/.'')\<lparr>status := 0\<rparr>, m')
      \<and> cur_proc (kern m') = Some (demo_process\<lparr>cwd := ''/tmp''\<rparr>))
    \<and> (\<exists>m'. send_message demo_env (demo_msg MSG_CHDIR ''//tmp'') demo_machine = Some (Return 0, (demo_msg MSG_CHDIR ''//tmp'')\<lparr>status := 0\<rparr>, m')
      \<and> cur_proc (kern m') = Some (demo_process\<lparr>cwd := ''/tmp''\<rparr>))"
proof
  have r: "vfs_read_dir ''/tmp'' 1 demo_kernel = Some (Some (ramfs_read_dir ''/tmp'' 1 demo_ram), demo_kernel)"
    by (simp add: vfs_read_dir_def resolve_namespace_path_def find_mount_def demo_mounts_def Let_def fs_read_dir_eq del: One_nat_def)
  have n: "show_comps (norm_comps ([''tmp''] @ [''..'', ''tmp'', ''.''])) = ''/tmp''" "show_comps (norm_comps [[], ''tmp'']) = ''/tmp''"
    by (simp_all add: show_comps_def norm_comps_def norm_comp_def)
  show "\<exists>m'. send_message demo_env (demo_msg MSG_CHDIR ''../tmp/.'') demo_machine = Some (Return 0, (demo_msg MSG_CHDIR ''../tmp/.'')\<lparr>status := 0\<rparr>, m')
      \<and> cur_proc (kern m') = Some (demo_process\<lparr>cwd := ''/tmp''\<rparr>)"
    using send_chdir_follows_path [of "demo_msg MSG_CHDIR ''../tmp/.''" False "[''..'', ''tmp'', ''.'']" demo_machine demo_process "[''tmp'']"
        "[''tmp''] @ [''..'', ''tmp'', ''.'']" "Some (ramfs_read_dir ''/tmp'' 1 demo_ram)" demo_kernel demo_env, unfolded n] r [unfolded One_nat_def]
    by (simp add: path_comp_def plain_name_def show_comps_def)
  show "\<exists>m'. send_message demo_env (demo_msg MSG_CHDIR ''//tmp'') demo_machine = Some (Return 0, (demo_msg MSG_CHDIR ''//tmp'')\<lparr>status := 0\<rparr>, m')
      \<and> cur_proc (kern m') = Some (demo_process\<lparr>cwd := ''/tmp''\<rparr>)"
    using send_chdir_follows_path [of "demo_msg MSG_CHDIR ''//tmp''" True "[[], ''tmp'']" demo_machine demo_process "[''tmp'']"
        "[[], ''tmp'']" "Some (ramfs_read_dir ''/tmp'' 1 demo_ram)" demo_kernel demo_env, unfolded n] r [unfolded One_nat_def]
    by (simp add: path_comp_def plain_name_def show_comps_def)
qed

section \<open>Reading\<close>

text \<open>\<open>MSG_READ\<close> copies up to 256 bytes to the caller whatever size the message gives: it returns the next bytes of the file when the
  caller's buffer has room for them, and otherwise writes beyond the buffer.\<close>

theorem send_read_ignores_size:
  assumes "msg_type msg = msg_code MSG_READ" "ramfs_inv (ram (kern m))" "ram_fd (fd msg) a i (kern m)" "data msg = Some buf"
  defines "bs \<equiv> take 256 (rc_rest a i (kern m))"
  shows "send_message e msg m =
    (if bs = [] then Some (Return 0, msg, m)
     else if length bs \<le> length buf
     then Some (Return (int (length bs)), msg\<lparr>data := Some (bs @ drop (length bs) buf), msg_size := of_nat (length bs)\<rparr>,
            m\<lparr>kern := move_pos a (length bs) (kern m)\<rparr>)
     else None)"
proof -
  have r: "vfs_read (fd msg) 256 (kern m) = Some (int (length bs), bs, move_pos a (length bs) (kern m))"
    using vfs_read_ram [OF assms(2,3), of 256] unfolding bs_def rc_rest_def by (simp only: unat_numeral) simp
  have "length bs \<le> 256" by (simp add: bs_def)
  then have n: "c_int (int (length bs)) = int (length bs)" "c_int 0 = 0" by (simp_all add: c_int_small)
  have z: "move_pos a 0 (kern m) = kern m" by (simp add: move_pos_def)
  show ?thesis
    using assms(1,4) by (simp add: send_message_def msg_read_def r n Let_def copy_to_user_def z)
qed

theorem send_read_ignores_size_witness:
  "\<exists>m msg m'. send_message demo_env ((demo_msg MSG_READ [])\<lparr>fd := 0, data := Some ''abc'', msg_size := 1\<rparr>) m = Some (Return 2, msg, m')
    \<and> data msg = Some ''hic''"
proof -
  have r: "vfs_room 1 demo_kernel" using demo_kernel_room by (rule vfs_room_less) simp
  define f where "f = zero_file\<lparr>f_ops := Some RamFs, private_data := Ram 0\<rparr>"
  have f: "ram_object 0 f" by (simp add: ram_object_def f_def zero_file_def)
  have fd: "ram_fd 0 0 0 (install f demo_kernel)"
    using ram_fd_install [OF r f] by (simp add: demo_ram_simps)
  have "rc_rest 0 0 (install f demo_kernel) = ''hi''" using f demo_ram_simps(5) by (simp add: rc_rest_def ram_object_def)
  then show ?thesis
    using send_read_ignores_size [of "(demo_msg MSG_READ [])\<lparr>fd := 0, data := Some ''abc'', msg_size := 1\<rparr>" "demo_machine\<lparr>kern := install f demo_kernel\<rparr>" 0 0 "''abc''" demo_env]
      fd demo_ram_inv(1) by (auto simp: demo_msg_def blank_message_def intro!: exI [of _ "demo_machine\<lparr>kern := install f demo_kernel\<rparr>"])
qed

section \<open>Null pointers\<close>

text \<open>a message without a path is refused with -1 by six of the handlers, while three others follow the null pointer, and two do so when there
  is a current process.\<close>

theorem send_null_path:
  assumes "path msg = None" "msg_type_of (msg_type msg) = Some t"
  shows "(t \<in> {MSG_READ_DIR, MSG_COPY, MSG_REMOVE, MSG_MOVE, MSG_BIND, MSG_EXEC} \<longrightarrow>
      (\<exists>m'. send_message e msg m = Some (Return (-1), msg, m') \<and> kern m' = kern m))
    \<and> (t \<in> {MSG_OPEN, MSG_CREATE, MSG_MKDIR} \<longrightarrow> send_message e msg m = None)
    \<and> (t \<in> {MSG_CHDIR, MSG_UNBIND} \<longrightarrow> (send_message e msg m = None \<longleftrightarrow> cur_proc (kern m) \<noteq> None))"
  using assms
  by (auto simp: send_message_def msg_read_dir_def handle_read_dir_message_def msg_copy_def msg_remove_def msg_move_def msg_bind_def
      msg_exec_def handle_exec_message_def msg_open_def msg_create_def msg_mkdir_def msg_chdir_def msg_unbind_def split: option.splits)

theorem send_null_path_witness: "send_message demo_env (blank_message (msg_code MSG_OPEN)) demo_machine = None"
  using send_null_path [of "blank_message (msg_code MSG_OPEN)" MSG_OPEN demo_env demo_machine] by (simp add: blank_message_def)

section \<open>Waiting\<close>

text \<open>A zombie child found by \<open>MSG_WAIT\<close> is left a zombie, unlike in \<open>handle_wait_message\<close>: every further wait finds the same child again.\<close>

lemma send_wait_never_reaps:
  assumes "msg_type msg = msg_code MSG_WAIT" "current_process (pt (kern m)) = Some cur"
    and "wait_scan (pt (kern m)) (pid (procs (pt (kern m)) cur)) (process_list (pt (kern m))) = Some (Some p)"
  shows "send_message e msg m = Some (Return 0, msg\<lparr>status := exit_status (procs (pt (kern m)) p)\<rparr>, m)"
  using assms by (simp add: send_message_def msg_wait_def get_current_process_def Let_def)

section \<open>Loading programs\<close>

text \<open>\<open>load_program\<close> takes the descriptor to read from the field \<open>status\<close>, which \<open>MSG_OPEN\<close> does not set: it always reads descriptor 0.\<close>

lemma load_program_reads_fd_0:
  assumes "vfs_open p (kern m) = Some (d, k1)" "0 \<le> d" "vfs_read 0 256 k1 = Some (-1, bs, k2)"
  shows "load_program e p img m = Some (-1, img, m\<lparr>kern := k2\<rparr>)"
  using assms by (simp add: c_int_def load_program_def send_message_def msg_open_def msg_read_def on_kern_def blank_message_def Let_def)

end
