(* ===== verification/Syscall.thy ===== *)
theory Syscall
  imports Message_Props
begin

text \<open>
  System calls: \<open>handle_sync_exception\<close> of \<open>src/src/arch/exceptions.c\<close> and the code of \<open>sync_handler\<close> in
  \<open>src/src/arch/exceptions.S\<close> that acts on its result.

  The exception syndrome and the user's registers are arguments. The memory of the user program is given by two
  functions: the message at an address and the string at an address, \<open>None\<close> where the access faults. The messages the
  handler builds on its stack for the console calls have every other field cleared, as in the source. What the error paths print is on the console.
\<close>

section \<open>The handler\<close>

definition SYS_PUTC :: u64 where "SYS_PUTC = 1"
definition SYS_GETC :: u64 where "SYS_GETC = 2"
definition SYS_PUTS :: u64 where "SYS_PUTS = 3"
definition SYS_SEND_MESSAGE :: u64 where "SYS_SEND_MESSAGE = 4"

text \<open>The statics of the file.\<close>

record exn_state =
  saved_x0 :: u64
  saved_x1 :: u64
  saved_x2 :: u64
  saved_x8 :: u64
  exception_count :: int

record user_mem =
  message_at :: "u64 \<Rightarrow> Message option"
  string_at :: "u64 \<Rightarrow> string option"

text \<open>A returned value with the message as the handler left it, or a caller that was suspended inside \<open>send_message\<close>.\<close>

datatype sys_outcome = SysReturn u64 Message machine | SysSuspend sched_outcome Message machine

definition sys_reply :: "(int \<Rightarrow> Message \<Rightarrow> u64) \<Rightarrow> msg_result \<Rightarrow> sys_outcome option" where
  "sys_reply f r =
     do { (rep, msg, m) \<leftarrow> r;
          Some (case rep of Return n \<Rightarrow> SysReturn (f n msg) msg m | Suspend out \<Rightarrow> SysSuspend out msg m) }"

text \<open>What is printed of the exception class, \<open>None\<close> for the default of the switch.\<close>

definition exception_name :: "u64 \<Rightarrow> string option" where
  "exception_name ec =
     (if ec = 0x08 then Some ''Instruction Abort from lower EL''
      else if ec = 0x09 then Some ''Instruction Abort from same EL''
      else if ec = 0x0C then Some ''Data Abort from lower EL''
      else if ec = 0x0D then Some ''Data Abort from same EL''
      else if ec = 0x15 then Some ''SVC instruction''
      else if ec = 0x20 then Some ''Data Abort from lower EL''
      else if ec = 0x21 then Some ''Data Abort from same EL''
      else if ec = 0x22 then Some ''PC alignment fault''
      else None)"

definition report_exception :: "env \<Rightarrow> u64 \<Rightarrow> u64 \<Rightarrow> machine \<Rightarrow> machine option" where
  "report_exception e esr ec m =
     say_items (env_adr e)
       ([Inl (newline @ ''*** SYNC EXCEPTION CAUGHT! ***'' @ newline), Inl ''ESR_EL1: '', Inr esr, Inl newline, Inl ''EC: '', Inr ec, Inl newline,
         Inl ''ELR_EL1: '', Inr (env_elr e), Inl newline, Inl ''FAR_EL1: '', Inr (env_far e), Inl newline]
        @ (case exception_name ec of
             Some s \<Rightarrow> [Inl (''Exception: '' @ s @ newline)]
           | None \<Rightarrow> [Inl ''Exception: Unknown class '', Inr ec, Inl newline])
        @ [Inl (''System halted due to unhandled exception.'' @ newline)]) m"

text \<open>The switch on the system call number.\<close>

definition syscall :: "env \<Rightarrow> user_mem \<Rightarrow> exn_state \<Rightarrow> machine \<Rightarrow> sys_outcome option" where
  "syscall e um x m =
     (if saved_x8 x = SYS_PUTC then
        sys_reply (\<lambda>n msg. 0) (send_message e ((blank_message (msg_code MSG_PUTC))\<lparr>character := of_u8 (ucast (saved_x0 x))\<rparr>) m)
      else if saved_x8 x = SYS_GETC then
        sys_reply (\<lambda>n msg. if n \<ge> 0 then of_nat (of_char (character msg)) else -1)
          (send_message e ((blank_message (msg_code MSG_GETC))\<lparr>character := NUL\<rparr>) m)
      else if saved_x8 x = SYS_PUTS then
        sys_reply (\<lambda>n msg. 0)
          (send_message e ((blank_message (msg_code MSG_PUTS))\<lparr>character := NUL, msg_string := string_at um (saved_x0 x)\<rparr>) m)
      else if saved_x8 x = SYS_SEND_MESSAGE then
        do { user_msg \<leftarrow> message_at um (saved_x0 x);
             sys_reply (\<lambda>n msg. of_int n) (send_message e user_msg m) }
      else do { m1 \<leftarrow> say_items (env_adr e) [Inl ''Unknown syscall: '', Inr (saved_x8 x), Inl newline] m;
                Some (SysReturn (-1) (blank_message 0) m1) })"

definition handle_sync_exception ::
  "env \<Rightarrow> user_mem \<Rightarrow> u64 \<Rightarrow> u64 \<Rightarrow> u64 \<Rightarrow> u64 \<Rightarrow> u64 \<Rightarrow> exn_state \<Rightarrow> machine \<Rightarrow> (sys_outcome \<times> exn_state) option" where
  "handle_sync_exception e um esr user_x0 user_x1 user_x2 user_x8 x m =
     (let ec = drop_bit 26 esr AND 0x3F;
          x1 = (if exception_count x = 0 then x\<lparr>exception_count := exception_count x + 1\<rparr> else x)
      in if ec = 0x15
         then (let x2 = x1\<lparr>saved_x0 := user_x0, saved_x1 := user_x1, saved_x2 := user_x2, saved_x8 := user_x8\<rparr>
               in do { r \<leftarrow> syscall e um x2 m; Some (r, x2) })
         else do { m1 \<leftarrow> report_exception e esr ec m; Some (SysReturn 0x100000000 (blank_message 0) m1, x1) })"

section \<open>Return to the user\<close>

text \<open>The upper half of the result decides: zero resumes the user with the result in \<open>x0\<close>, anything else stops the machine.\<close>

datatype resume = Resume u64 | Halt

definition sync_handler :: "u64 \<Rightarrow> resume" where
  "sync_handler x0 = (let x2 = drop_bit 32 x0 in if x2 \<noteq> 0 then Halt else Resume x0)"

section \<open>Properties\<close>

lemma of_char_int_nonneg [simp]: "0 \<le> (of_char c :: int)"
  by (metis of_nat_of_char of_nat_0_le_iff)

lemma unat_upper: "unat (drop_bit 32 (w :: u64)) = unat w div 2 ^ 32"
proof -
  have "take_bit 64 (unat w) = unat w" using unsigned_less [where 'a = nat, of w] by (intro take_bit_nat_eq_self) simp
  then show ?thesis by (simp only: unsigned_drop_bit_eq) (simp add: drop_bit_eq_div)
qed

lemma sync_handler_small: "unat w < 2 ^ 32 \<Longrightarrow> sync_handler w = Resume w"
  using unat_upper [of w] by (simp add: sync_handler_def unat_eq_0)










lemma SYS_distinct [simp]:
  "SYS_PUTS \<noteq> SYS_PUTC" "SYS_PUTS \<noteq> SYS_GETC" "SYS_GETC \<noteq> SYS_PUTC" "SYS_GETC \<noteq> SYS_PUTS" "SYS_PUTC \<noteq> SYS_GETC" "SYS_PUTC \<noteq> SYS_PUTS"
  by (simp_all add: SYS_PUTC_def SYS_GETC_def SYS_PUTS_def)

lemmas console_call_defs = handle_sync_exception_def syscall_def sys_reply_def Let_def send_message_def msg_putc_def msg_getc_def msg_puts_def blank_message_def

lemma sys_putc_ok:
  assumes "drop_bit 26 esr AND 0x3F = 0x15" "uart_fair (con m)"
  shows "\<exists>w msg m' x'. handle_sync_exception e um esr x0 x1 x2 SYS_PUTC x m = Some (SysReturn w msg m', x')
    \<and> sync_handler w = Resume 0 \<and> kern m' = kern m \<and> uart_fair (con m') \<and> tx (con m') = tx (con m) @ [of_u8 (ucast x0)] \<and> rx (con m') = rx (con m)"
proof -
  obtain u where "uart_putc (of_u8 (ucast x0)) (con m) = Some u" "uart_fair u" "tx u = tx (con m) @ [of_u8 (ucast x0)]" "rx u = rx (con m)"
    using uart_putc_ok [OF assms(2)] by blast
  then show ?thesis using assms(1) by (simp add: console_call_defs sync_handler_def)
qed

lemma sys_puts_ok:
  assumes "drop_bit 26 esr AND 0x3F = 0x15" "uart_fair (con m)" "string_at um x0 = Some s"
  shows "\<exists>w msg m' x'. handle_sync_exception e um esr x0 x1 x2 SYS_PUTS x m = Some (SysReturn w msg m', x')
    \<and> sync_handler w = Resume 0 \<and> kern m' = kern m \<and> uart_fair (con m') \<and> tx (con m') = tx (con m) @ crlf s \<and> rx (con m') = rx (con m)"
proof -
  obtain u where "uart_puts (env_str e) s (con m) = Some u" "uart_fair u" "tx u = tx (con m) @ crlf s" "rx u = rx (con m)"
    using uart_puts_ok [OF assms(2)] by blast
  then show ?thesis using assms(1,3) by (simp add: console_call_defs sync_handler_def)
qed

lemma sys_getc_ok:
  assumes "drop_bit 26 esr AND 0x3F = 0x15" "uart_fair (con m)" "rx (con m) = c # cs"
  shows "\<exists>w msg m' x'. handle_sync_exception e um esr x0 x1 x2 SYS_GETC x m = Some (SysReturn w msg m', x')
    \<and> sync_handler w = Resume (of_nat (of_char c)) \<and> kern m' = kern m \<and> uart_fair (con m') \<and> tx (con m') = tx (con m) \<and> rx (con m') = cs"
proof -
  have "(of_char c :: nat) < 256" by simp
  then have "unat (of_nat (of_char c) :: u64) = of_char c" by (simp add: unat_of_nat del: of_char_lt_256)
  then have "unat (of_nat (of_char c) :: u64) < 256" by simp
  then have "unat (of_nat (of_char c) :: u64) < 2 ^ 32" by (rule less_trans) simp
  then have w: "sync_handler (of_nat (of_char c)) = Resume (of_nat (of_char c))" by (rule sync_handler_small)
  obtain u where "uart_getc (con m) = Some (c, u)" "uart_fair u" "tx u = tx (con m)" "rx u = cs"
    using uart_getc_ok [OF assms(2,3)] by blast
  then show ?thesis using assms(1) w by (simp add: console_call_defs)
qed

text \<open>the console calls work for a program on a live console: \<open>SYS_PUTC\<close> sends the character and resumes with 0, \<open>SYS_PUTS\<close> sends the
  string with its line ends, and \<open>SYS_GETC\<close> resumes with the next character typed.\<close>

theorem console_syscalls:
  assumes "drop_bit 26 esr AND 0x3F = 0x15" "uart_fair (con m)"
  shows "(\<exists>w msg m' x'. handle_sync_exception e um esr x0 x1 x2 SYS_PUTC x m = Some (SysReturn w msg m', x')
      \<and> sync_handler w = Resume 0 \<and> kern m' = kern m \<and> tx (con m') = tx (con m) @ [of_u8 (ucast x0)])
    \<and> (string_at um x0 = Some s \<longrightarrow> (\<exists>w msg m' x'. handle_sync_exception e um esr x0 x1 x2 SYS_PUTS x m = Some (SysReturn w msg m', x')
      \<and> sync_handler w = Resume 0 \<and> kern m' = kern m \<and> tx (con m') = tx (con m) @ crlf s))
    \<and> (rx (con m) = c # cs \<longrightarrow> (\<exists>w msg m' x'. handle_sync_exception e um esr x0 x1 x2 SYS_GETC x m = Some (SysReturn w msg m', x')
      \<and> sync_handler w = Resume (of_nat (of_char c)) \<and> kern m' = kern m \<and> rx (con m') = cs \<and> tx (con m') = tx (con m)))"
proof (intro conjI impI)
  show "\<exists>w msg m' x'. handle_sync_exception e um esr x0 x1 x2 SYS_PUTC x m = Some (SysReturn w msg m', x')
      \<and> sync_handler w = Resume 0 \<and> kern m' = kern m \<and> tx (con m') = tx (con m) @ [of_u8 (ucast x0)]"
    using sys_putc_ok [OF assms, of e um x0 x1 x2 x] by fast
next
  assume "string_at um x0 = Some s"
  from sys_puts_ok [OF assms this, of e x1 x2 x]
  show "\<exists>w msg m' x'. handle_sync_exception e um esr x0 x1 x2 SYS_PUTS x m = Some (SysReturn w msg m', x')
      \<and> sync_handler w = Resume 0 \<and> kern m' = kern m \<and> tx (con m') = tx (con m) @ crlf s" by fast
next
  assume "rx (con m) = c # cs"
  from sys_getc_ok [OF assms this, of e um x0 x1 x2 x]
  show "\<exists>w msg m' x'. handle_sync_exception e um esr x0 x1 x2 SYS_GETC x m = Some (SysReturn w msg m', x')
      \<and> sync_handler w = Resume (of_nat (of_char c)) \<and> kern m' = kern m \<and> rx (con m') = cs \<and> tx (con m') = tx (con m)" by fast
qed

text \<open>The exception syndrome of a system call, and cleared statics, for the witnesses.\<close>

definition demo_exn :: exn_state where
  "demo_exn = \<lparr>saved_x0 = 0, saved_x1 = 0, saved_x2 = 0, saved_x8 = 0, exception_count = 0\<rparr>"

definition demo_user :: user_mem where
  "demo_user = \<lparr>message_at = (\<lambda>_. Some (blank_message (msg_code MSG_WRITE))), string_at = (\<lambda>_. Some ''hi'')\<rparr>"


theorem console_syscalls_witness:
  "\<exists>w msg m' x'. handle_sync_exception demo_env demo_user 0x54000000 65 0 0 SYS_PUTC demo_exn demo_machine = Some (SysReturn w msg m', x')
    \<and> sync_handler w = Resume 0 \<and> tx (con m') = ''A''"
proof -
  have a: "of_u8 (ucast (65 :: u64)) = CHR ''A''" by code_simp
  from console_syscalls [of "0x54000000" demo_machine demo_env demo_user 65 0 0 demo_exn "''hi''" NUL "[]", unfolded a] idle_uart_fair
  show ?thesis by (auto simp: idle_uart_def)
qed

end
