(* ===== verification/Shell.thy ===== *)
theory Shell
  imports Message
begin

text \<open>
  The interactive shell of the kernel, \<open>src/src/user/shell.c\<close>: the line editor, the commands and the main loop.

  A command is a function on the machine of \<open>Message\<close>; the console holds what the shell prints and reads. Arguments are
  C strings, \<open>None\<close> for \<open>NULL\<close>. \<open>None\<close> as a result is undefined behaviour (a null or uninitialised pointer, a string
  that does not fit its buffer, a line that is not terminated) or a loop that does not end.
\<close>

abbreviation quote :: string where
  "quote \<equiv> [CHR 0x27]"

definition MAX_INPUT :: nat where
  "MAX_INPUT = 256"

definition PROMPT :: string where
  "PROMPT = ''$ ''"

section \<open>Directories\<close>

definition cmd_echo :: "(nat \<Rightarrow> nat) \<Rightarrow> string option \<Rightarrow> machine \<Rightarrow> machine option" where
  "cmd_echo adr args m =
     do { m1 \<leftarrow> (case args of Some a \<Rightarrow> say adr a m | None \<Rightarrow> Some m); say adr newline m1 }"

definition cmd_pwd :: "(nat \<Rightarrow> nat) \<Rightarrow> string option \<Rightarrow> machine \<Rightarrow> machine option" where
  "cmd_pwd adr args m =
     do { p \<leftarrow> cur_proc (kern m);
          if cwd p = [] then say adr (''/'' @ newline) m else say_all adr [cwd p, newline] m }"

text \<open>\<open>while (len > 0 && path[len-1] != '/') len--;\<close>\<close>

fun parent_len :: "string \<Rightarrow> nat \<Rightarrow> nat" where
  "parent_len path0 0 = 0"
| "parent_len path0 (Suc n) = (if path0 ! n \<noteq> CHR ''/'' then parent_len path0 n else Suc n)"

definition get_parent_dir :: "string \<Rightarrow> string" where
  "get_parent_dir path0 =
     (if path0 = ''/'' then path0
      else let p1 = (if length path0 > 1 \<and> last path0 = CHR ''/'' then butlast path0 else path0);
               len = parent_len p1 (length p1);
               p2 = (if len > 0 then if len = 1 then take 1 p1 else take (len - 1) p1 else p1)
           in if p2 = [] then ''/'' else p2)"

fun squeeze_slashes :: "string \<Rightarrow> string" where
  "squeeze_slashes [] = []"
| "squeeze_slashes (c # cs) =
     (if c = CHR ''/'' \<and> cs_nth cs 0 = CHR ''/'' then squeeze_slashes cs else c # squeeze_slashes cs)"

text \<open>The function is not called.\<close>

definition normalize_path :: "string \<Rightarrow> string" where
  "normalize_path path0 =
     (if cs_nth path0 0 = CHR ''/'' then CHR ''/'' # squeeze_slashes (drop 1 path0) else squeeze_slashes path0)"

text \<open>The loop over the components; \<open>strcat\<close> must stay inside \<open>temp_path\<close>.\<close>

fun cd_walk :: "string \<Rightarrow> string list \<Rightarrow> string option" where
  "cd_walk temp_path [] = Some temp_path"
| "cd_walk temp_path (component # cs) =
     (if component = ''.'' then cd_walk temp_path cs
      else if component = ''..'' then cd_walk (get_parent_dir temp_path) cs
      else do { t \<leftarrow> into_buf VFS_MAX_PATH ((if temp_path \<noteq> ''/'' then temp_path @ ''/'' else temp_path) @ component);
                cd_walk t cs })"

definition cmd_cd :: "(nat \<Rightarrow> nat) \<Rightarrow> string option \<Rightarrow> machine \<Rightarrow> machine option" where
  "cmd_cd adr args m =
     do { p \<leftarrow> cur_proc (kern m);
          case args of
            None \<Rightarrow> Some (m\<lparr>kern := upd_cur (\<lambda>q. q\<lparr>cwd := ''/''\<rparr>) (kern m)\<rparr>)
          | Some path0 \<Rightarrow>
              if path0 = [] then Some (m\<lparr>kern := upd_cur (\<lambda>q. q\<lparr>cwd := ''/''\<rparr>) (kern m)\<rparr>)
              else if path0 = ''.'' then Some m
              else if path0 = ''..'' then Some (m\<lparr>kern := upd_cur (\<lambda>q. q\<lparr>cwd := get_parent_dir (cwd q)\<rparr>) (kern m)\<rparr>)
              else do { let abs = (cs_nth path0 0 = CHR ''/'');
                        path_copy \<leftarrow> into_buf VFS_MAX_PATH (if abs then drop 1 path0 else path0);
                        temp_path \<leftarrow> cd_walk (if abs then ''/'' else cwd p) (tokens ''/'' path_copy);
                        (d, k) \<leftarrow> vfs_open temp_path (kern m);
                        if d < 0 then say_all adr [''cd: no such directory: '', temp_path, newline] (m\<lparr>kern := k\<rparr>)
                        else Some (m\<lparr>kern := upd_cur (\<lambda>q. q\<lparr>cwd := temp_path\<rparr>) k\<rparr>) } }"

text \<open>No code sets \<open>msg.dirents\<close>: with a count above zero the loop follows a null pointer.\<close>

definition cmd_ls :: "(nat \<Rightarrow> nat) \<Rightarrow> env \<Rightarrow> string option \<Rightarrow> machine \<Rightarrow> machine option" where
  "cmd_ls adr e args m =
     do { path0 \<leftarrow> (if args = None \<or> args = Some [] then map_option cwd (cur_proc (kern m)) else args);
          (r, msg, m1) \<leftarrow> send_message e ((blank_message (msg_code MSG_READ_DIR))\<lparr>path := Some path0\<rparr>) m;
          case r of
            Suspend out \<Rightarrow> None
          | Return n \<Rightarrow>
              if n \<ge> 0 then if dirent_count msg > 0 then None else Some m1
              else say_all adr [''ls: cannot access '' @ quote, path0, quote @ newline] m1 }"

section \<open>Files\<close>

text \<open>The first two words of \<open>args\<close>. \<open>NULL\<close> makes \<open>strtok_r\<close> follow the uninitialised \<open>saveptr\<close>.\<close>

definition two_words :: "string option \<Rightarrow> (string option \<times> string option) option" where
  "two_words args =
     do { a \<leftarrow> args;
          Some (case strtok_s '' '' a of None \<Rightarrow> (None, None) | Some (t, rest) \<Rightarrow> (Some t, map_option fst (strtok_s '' '' rest))) }"

text \<open>Whether the loop was left by a failed write, and the last value of \<open>n\<close>.\<close>

partial_function (option) cp_loop :: "int \<Rightarrow> int \<Rightarrow> kernel \<Rightarrow> ((bool \<times> int) \<times> kernel) option" where
  "cp_loop src_fd dst_fd k =
     do { (n, buf, k1) \<leftarrow> vfs_read src_fd 1024 k;
          if n > 0
          then do { (written, k2) \<leftarrow> vfs_write dst_fd buf (of_int n) k1;
                    if written < 0 \<or> written \<noteq> n then Some ((True, n), k2) else cp_loop src_fd dst_fd k2 }
          else Some ((False, n), k1) }"

text \<open>Neither descriptor is closed.\<close>

definition cmd_cp :: "(nat \<Rightarrow> nat) \<Rightarrow> string option \<Rightarrow> machine \<Rightarrow> machine option" where
  "cmd_cp adr args m =
     do { (src_arg, dst_arg) \<leftarrow> two_words args;
          if src_arg = None \<or> dst_arg = None then say adr (''Usage: cp source dest'' @ newline) m
          else do { src \<leftarrow> Option.bind src_arg (into_buf VFS_MAX_PATH);
                    dst \<leftarrow> Option.bind dst_arg (into_buf VFS_MAX_PATH);
                    (src_fd, k1) \<leftarrow> vfs_open src (kern m);
                    if src_fd < 0 then say_all adr [''cp: cannot open source file: '', src, newline] (m\<lparr>kern := k1\<rparr>)
                    else do { (dst_fd, k2) \<leftarrow> vfs_create dst k1;
                              if dst_fd < 0 then say_all adr [''cp: cannot create destination file: '', dst, newline] (m\<lparr>kern := k2\<rparr>)
                              else do { ((failed, n), k3) \<leftarrow> cp_loop src_fd dst_fd k2;
                                        m1 \<leftarrow> (if failed then say adr (''cp: write error'' @ newline) (m\<lparr>kern := k3\<rparr>) else Some (m\<lparr>kern := k3\<rparr>));
                                        if n < 0 then say adr (''cp: read error'' @ newline) m1 else Some m1 } } } }"

definition cmd_touch :: "(nat \<Rightarrow> nat) \<Rightarrow> string option \<Rightarrow> machine \<Rightarrow> machine option" where
  "cmd_touch adr args m =
     (case args of
        None \<Rightarrow> say adr (''touch: missing file operand'' @ newline) m
      | Some a \<Rightarrow>
          if a = [] then say adr (''touch: missing file operand'' @ newline) m
          else do { (d, k) \<leftarrow> vfs_create a (kern m);
                    if d < 0 then say_all adr [''touch: cannot create file '' @ quote, a, quote @ newline] (m\<lparr>kern := k\<rparr>)
                    else Some (m\<lparr>kern := snd (vfs_close d k)\<rparr>) })"

definition cmd_mv :: "(nat \<Rightarrow> nat) \<Rightarrow> string option \<Rightarrow> machine \<Rightarrow> machine option" where
  "cmd_mv adr args m =
     do { (src_arg, dst_arg) \<leftarrow> two_words args;
          if src_arg = None \<or> dst_arg = None then say adr (''Usage: mv source dest'' @ newline) m
          else do { src \<leftarrow> Option.bind src_arg (into_buf VFS_MAX_PATH);
                    dst \<leftarrow> Option.bind dst_arg (into_buf VFS_MAX_PATH);
                    cp_args \<leftarrow> into_buf (VFS_MAX_PATH * 2) (src @ '' '' @ dst);
                    m1 \<leftarrow> cmd_cp adr (Some cp_args) m;
                    (r, k) \<leftarrow> vfs_unlink src (kern m1);
                    if r < 0 then say adr (''mv: cannot remove source file'' @ newline) (m1\<lparr>kern := k\<rparr>)
                    else Some (m1\<lparr>kern := k\<rparr>) } }"

definition rm_target :: "(nat \<Rightarrow> nat) \<Rightarrow> bool \<Rightarrow> string \<Rightarrow> machine \<Rightarrow> machine option" where
  "rm_target adr recursive target m =
     (if recursive
      then do { (r, k) \<leftarrow> vfs_remove_recursive (Some target) (kern m);
                if r < 0 then say_all adr [''rm: cannot recursively remove '' @ quote, target, quote @ newline] (m\<lparr>kern := k\<rparr>)
                else Some (m\<lparr>kern := k\<rparr>) }
      else do { (r, k) \<leftarrow> vfs_unlink target (kern m);
                if r < 0 then say_all adr [''rm: cannot remove '' @ quote, target, quote @ newline] (m\<lparr>kern := k\<rparr>)
                else Some (m\<lparr>kern := k\<rparr>) })"

definition cmd_rm :: "(nat \<Rightarrow> nat) \<Rightarrow> string option \<Rightarrow> machine \<Rightarrow> machine option" where
  "cmd_rm adr args m =
     (case args of
        None \<Rightarrow> say adr (''Usage: rm [-r] <file|directory>'' @ newline) m
      | Some a \<Rightarrow>
          if a = [] then say adr (''Usage: rm [-r] <file|directory>'' @ newline) m
          else (case strtok_s '' '' a of
                  None \<Rightarrow> say adr (''rm: missing file operand'' @ newline) m
                | Some (token, rest) \<Rightarrow>
                    if token = ''-r''
                    then (case strtok_s '' '' rest of
                            None \<Rightarrow> say adr (''rm: missing file operand'' @ newline) m
                          | Some (token1, _) \<Rightarrow> rm_target adr True token1 m)
                    else rm_target adr False token m))"

definition cmd_mkdir :: "(nat \<Rightarrow> nat) \<Rightarrow> string option \<Rightarrow> machine \<Rightarrow> machine option" where
  "cmd_mkdir adr args m =
     (case args of
        None \<Rightarrow> say adr (''Usage: mkdir <directory>'' @ newline) m
      | Some a \<Rightarrow>
          if a = [] then say adr (''Usage: mkdir <directory>'' @ newline) m
          else do { (r, k) \<leftarrow> vfs_mkdir a (kern m);
                    if r < 0 then say_all adr [''mkdir: cannot create directory '' @ quote, a, quote @ newline] (m\<lparr>kern := k\<rparr>)
                    else Some (m\<lparr>kern := k\<rparr>) })"

definition cmd_bind :: "(nat \<Rightarrow> nat) \<Rightarrow> string option \<Rightarrow> machine \<Rightarrow> machine option" where
  "cmd_bind adr args m =
     do { (old, new) \<leftarrow> two_words args;
          if old = None \<or> new = None then say adr (''Usage: bind source target'' @ newline) m
          else do { o1 \<leftarrow> old;
                    n1 \<leftarrow> new;
                    (r, k) \<leftarrow> bind_ns o1 n1 MREPL (kern m);
                    if r < 0 then say adr (''bind: failed to create binding'' @ newline) (m\<lparr>kern := k\<rparr>)
                    else say_all adr [''Created binding: '', n1, '' -> '', o1, newline] (m\<lparr>kern := k\<rparr>) } }"

text \<open>The \<open>unbind\<close> branch of \<open>shell\<close>.\<close>

definition cmd_unbind :: "(nat \<Rightarrow> nat) \<Rightarrow> env \<Rightarrow> string option \<Rightarrow> machine \<Rightarrow> machine option" where
  "cmd_unbind adr e args m =
     (case args of
        None \<Rightarrow> say adr (''Usage: unbind <path>'' @ newline) m
      | Some a \<Rightarrow>
          do { (r, msg, m1) \<leftarrow> send_message e ((blank_message (msg_code MSG_UNBIND))\<lparr>path := Some a\<rparr>) m;
               case r of
                 Suspend out \<Rightarrow> None
               | Return n \<Rightarrow> if n < 0 then say adr (''unbind: failed'' @ newline) m1
                             else say_all adr [''Namespace unbound: '', a, newline] m1 })"

section \<open>The line editor and the main loop\<close>

definition is_eol :: "byte \<Rightarrow> bool" where
  "is_eol c \<longleftrightarrow> c = CHR 0x0D \<or> c = CHR 0x0A"

definition is_erase :: "byte \<Rightarrow> bool" where
  "is_erase c \<longleftrightarrow> c = CHR 0x7F \<or> c = CHR 0x08"

definition printable :: "byte \<Rightarrow> bool" where
  "printable c \<longleftrightarrow> 32 \<le> (of_char c :: nat) \<and> (of_char c :: nat) \<le> 126"

text \<open>
  The characters \<open>input[0..pos-1]\<close> when the loop ends. A line of 255 characters ends the loop without a terminator, and
  \<open>input[255]\<close> is never written.
\<close>

partial_function (option) read_line :: "(nat \<Rightarrow> nat) \<Rightarrow> string \<Rightarrow> machine \<Rightarrow> (string \<times> machine) option" where
  "read_line adr input m =
     (if length input < MAX_INPUT - 1
      then do { (c, u) \<leftarrow> uart_getc (con m);
                let m1 = m\<lparr>con := u\<rparr>;
                if is_eol c then do { m2 \<leftarrow> say adr newline m1; Some (input, m2) }
                else if is_erase c \<and> length input > 0
                then do { m2 \<leftarrow> say adr [CHR 0x08, CHR '' '', CHR 0x08] m1; read_line adr (butlast input) m2 }
                else if printable c
                then do { u2 \<leftarrow> uart_putc c u; read_line adr (input @ [c]) (m1\<lparr>con := u2\<rparr>) }
                else read_line adr input m1 }
      else None)"

text \<open>The command and its arguments: the line is cut at the first space.\<close>

definition split_line :: "string \<Rightarrow> string \<times> string option" where
  "split_line input =
     (let cmd = takeWhile (\<lambda>c. c \<noteq> CHR '' '') input
      in (cmd, if length cmd < length input then Some (drop (length cmd + 1) input) else None))"

text \<open>The outcome of the scheduler when the command does not return.\<close>

definition cmd_exit :: "machine \<Rightarrow> (sched_outcome option \<times> machine) option" where
  "cmd_exit m = do { (out, s) \<leftarrow> exit_process 0 (pt (kern m)); Some (Some out, m\<lparr>kern := (kern m)\<lparr>pt := s\<rparr>\<rparr>) }"

text \<open>The table of the commands. The loop of the shell does not read it but compares with each name in turn.\<close>

definition commands :: "(string \<times> ((nat \<Rightarrow> nat) \<Rightarrow> env \<Rightarrow> string option \<Rightarrow> machine \<Rightarrow> machine option)) list" where
  "commands =
     [(''ls'', cmd_ls), (''pwd'', \<lambda>adr e. cmd_pwd adr), (''cd'', \<lambda>adr e. cmd_cd adr), (''cp'', \<lambda>adr e. cmd_cp adr),
      (''mv'', \<lambda>adr e. cmd_mv adr), (''touch'', \<lambda>adr e. cmd_touch adr), (''rm'', \<lambda>adr e. cmd_rm adr),
      (''mkdir'', \<lambda>adr e. cmd_mkdir adr), (''bind'', \<lambda>adr e. cmd_bind adr)]"

definition run_command ::
  "(nat \<Rightarrow> nat) \<Rightarrow> env \<Rightarrow> string \<Rightarrow> string option \<Rightarrow> machine \<Rightarrow> (sched_outcome option \<times> machine) option" where
  "run_command adr e cmd args m =
     (if cmd = ''exit''
      then cmd_exit m
      else map_option (Pair None)
       (if cmd = ''echo'' then cmd_echo adr args m
        else if cmd = ''pwd'' then cmd_pwd adr args m
        else if cmd = ''cd'' then cmd_cd adr args m
        else if cmd = ''ls'' then cmd_ls adr e args m
        else if cmd = ''cp'' then cmd_cp adr args m
        else if cmd = ''touch'' then cmd_touch adr args m
        else if cmd = ''mv'' then cmd_mv adr args m
        else if cmd = ''rm'' then cmd_rm adr args m
        else if cmd = ''mkdir'' then cmd_mkdir adr args m
        else if cmd = ''bind'' then cmd_bind adr args m
        else if cmd = ''unbind'' then cmd_unbind adr e args m
        else say_all adr [''Unknown command: '', cmd, newline] m))"

definition shell_iter :: "(nat \<Rightarrow> nat) \<Rightarrow> env \<Rightarrow> machine \<Rightarrow> (sched_outcome option \<times> machine) option" where
  "shell_iter adr e m =
     do { m1 \<leftarrow> say adr PROMPT m;
          (input, m2) \<leftarrow> read_line adr [] m1;
          (case split_line input of (cmd, args) \<Rightarrow> run_command adr e cmd args m2) }"

text \<open>The loop \<open>while (1)\<close>: it is left only by \<open>exit\<close>, which enters the scheduler.\<close>

partial_function (option) shell :: "(nat \<Rightarrow> nat) \<Rightarrow> env \<Rightarrow> machine \<Rightarrow> (sched_outcome \<times> machine) option" where
  "shell adr e m =
     do { (out, m1) \<leftarrow> shell_iter adr e m;
          case out of Some x \<Rightarrow> Some (x, m1) | None \<Rightarrow> shell adr e m1 }"

end
