(* ===== verification/Shell_Props.thy ===== *)
theory Shell_Props
  imports Shell Message_Props
begin

text \<open>
  What the shell guarantees: the line editor reads what the terminal shows, \<open>cd\<close> follows a path in the same way as the
  kernel, \<open>cp\<close> copies and \<open>mv\<close> removes its source even when nothing was copied.
\<close>

section \<open>The line editor\<close>

text \<open>The line after one more key, and what is sent to the terminal.\<close>

definition edit_key :: "string \<Rightarrow> byte \<Rightarrow> string" where
  "edit_key l c = (if is_erase c \<and> l \<noteq> [] then butlast l else if printable c then l @ [c] else l)"

definition echo_key :: "string \<Rightarrow> byte \<Rightarrow> byte list" where
  "echo_key l c = (if is_erase c \<and> l \<noteq> [] then [CHR 0x08, CHR '' '', CHR 0x08] else if printable c then [c] else [])"

primrec echo_keys :: "string \<Rightarrow> byte list \<Rightarrow> byte list" where
  "echo_keys l [] = []"
| "echo_keys l (c # cs) = echo_key l c @ echo_keys (edit_key l c) cs"

text \<open>The line never fills the buffer.\<close>

primrec line_fits :: "string \<Rightarrow> byte list \<Rightarrow> bool" where
  "line_fits l [] \<longleftrightarrow> length l < 255"
| "line_fits l (c # cs) \<longleftrightarrow> length l < 255 \<and> line_fits (edit_key l c) cs"

lemma printable_not_control: "printable c \<Longrightarrow> \<not> is_eol c \<and> \<not> is_erase c \<and> c \<noteq> NUL"
  by (auto simp: printable_def is_eol_def is_erase_def)

lemma edit_printable: "list_all printable s \<Longrightarrow> foldl edit_key l s = l @ s"
  by (induction s arbitrary: l) (auto simp: edit_key_def dest: printable_not_control)

lemma line_fits_printable: "list_all printable s \<Longrightarrow> length l + length s < 255 \<Longrightarrow> line_fits l s"
  by (induction s arbitrary: l) (auto simp: edit_key_def dest: printable_not_control)

text \<open>One key.\<close>

lemma read_line_key:
  assumes "uart_fair (con m)" "rx (con m) = c # cs" "\<not> is_eol c" "length l < 255"
  obtains m' where "read_line adr l m = read_line adr (edit_key l c) m'" "talks m [c] (echo_key l c) m'"
proof -
  obtain u where u: "uart_getc (con m) = Some (c, u)" "uart_fair u" "tx u = tx (con m)" "rx u = cs"
    using uart_getc_ok [OF assms(1,2)] by blast
  define m1 where "m1 = m\<lparr>con := u\<rparr>"
  have t1: "talks m [c] [] m1" "uart_fair (con m1)" using u assms(2) by (simp_all add: talks_def m1_def)
  have unfold: "read_line adr l m =
      (if is_erase c \<and> length l > 0 then Option.bind (say adr [CHR 0x08, CHR '' '', CHR 0x08] m1) (read_line adr (butlast l))
       else if printable c then Option.bind (uart_putc c u) (\<lambda>u2. read_line adr (l @ [c]) (m1\<lparr>con := u2\<rparr>)) else read_line adr l m1)"
    using u(1) assms(3,4) by (subst read_line.simps) (simp add: MAX_INPUT_def m1_def Let_def)
  consider (erase) "is_erase c" "l \<noteq> []" | (print) "\<not> (is_erase c \<and> l \<noteq> [])" "printable c"
    | (ignore) "\<not> (is_erase c \<and> l \<noteq> [])" "\<not> printable c" by blast
  then show thesis
  proof cases
    case erase
    obtain m2 where m2: "say adr [CHR 0x08, CHR '' '', CHR 0x08] m1 = Some m2" "talks m1 [] [CHR 0x08, CHR '' '', CHR 0x08] m2"
      using say_ok [OF t1(2), of adr "[CHR 0x08, CHR '' '', CHR 0x08]"] by auto
    with erase talks_trans [OF t1(1) m2(2)] show thesis by (intro that [of m2]) (simp_all add: unfold edit_key_def echo_key_def)
  next
    case print
    obtain u2 where "uart_putc c u = Some u2" "uart_fair u2" "tx u2 = tx u @ [c]" "rx u2 = rx u" using uart_putc_ok [OF u(2)] by blast
    with print u assms(2) show thesis
      by (intro that [of "m1\<lparr>con := u2\<rparr>"]) (auto simp: unfold edit_key_def echo_key_def talks_def m1_def)
  next
    case ignore
    with t1 show thesis by (intro that [of m1]) (auto simp: unfold edit_key_def echo_key_def)
  qed
qed

lemma read_line_edits:
  assumes "uart_fair (con m)" "rx (con m) = cs @ e # ds" "list_all (\<lambda>c. \<not> is_eol c) cs" "is_eol e" "line_fits l cs"
  obtains m' where "read_line adr l m = Some (foldl edit_key l cs, m')"
    "talks m (cs @ [e]) (echo_keys l cs @ [CHR 0x0D, CHR 0x0A]) m'"
  using assms
proof (induction cs arbitrary: l m thesis)
  case Nil
  obtain u where u: "uart_getc (con m) = Some (e, u)" "uart_fair u" "tx u = tx (con m)" "rx u = ds"
    using uart_getc_ok [OF Nil.prems(2)] Nil.prems(3) by auto
  have t1: "talks m [e] [] (m\<lparr>con := u\<rparr>)" "uart_fair (con (m\<lparr>con := u\<rparr>))" using u Nil.prems by (simp_all add: talks_def)
  obtain m2 where m2: "say adr newline (m\<lparr>con := u\<rparr>) = Some m2" "talks (m\<lparr>con := u\<rparr>) [] [CHR 0x0D, CHR 0x0A] m2"
    using say_ok [OF t1(2), of adr newline] by auto
  have "read_line adr l m = Some (l, m2)"
    using u(1) m2(1) Nil.prems by (subst read_line.simps) (simp add: MAX_INPUT_def)
  with talks_trans [OF t1(1) m2(2)] show ?case by (intro Nil.prems(1) [of m2]) simp_all
next
  case (Cons c cs)
  have "rx (con m) = c # (cs @ e # ds)" "\<not> is_eol c" "length l < 255" using Cons.prems by simp_all
  then obtain m1 where m1: "read_line adr l m = read_line adr (edit_key l c) m1" "talks m [c] (echo_key l c) m1"
    using read_line_key [OF Cons.prems(2)] by blast
  have "rx (con m1) = cs @ e # ds" "uart_fair (con m1)" "list_all (\<lambda>c. \<not> is_eol c) cs" "line_fits (edit_key l c) cs"
    using m1(2) Cons.prems by (simp_all add: talks_def)
  from Cons.IH [OF _ this(2,1,3) Cons.prems(5) this(4)] obtain m2 where
    "read_line adr (edit_key l c) m1 = Some (foldl edit_key (edit_key l c) cs, m2)"
    "talks m1 (cs @ [e]) (echo_keys (edit_key l c) cs @ [CHR 0x0D, CHR 0x0A]) m2" by auto
  with m1 talks_trans [OF m1(2)] show ?case by (intro Cons.prems(1) [of m2]) auto
qed

text \<open>A full buffer is not terminated.\<close>

lemma read_line_full: "length l \<ge> 255 \<Longrightarrow> read_line adr l m = None"
  by (subst read_line.simps) (simp add: MAX_INPUT_def)

section \<open>A terminal\<close>

text \<open>One row and the column of the cursor. A backspace moves the cursor, a character is written over what is there.\<close>

definition term_put :: "string \<times> nat \<Rightarrow> byte \<Rightarrow> string \<times> nat" where
  "term_put t c =
     (case t of (row, col) \<Rightarrow>
        if c = CHR 0x08 then (row, col - 1)
        else (if col < length row then row[col := c] else row @ [c], col + 1))"

text \<open>The row shows \<open>pre @ l\<close> and then blanks, with the cursor after \<open>l\<close>.\<close>

definition row_shows :: "string \<Rightarrow> string \<Rightarrow> string \<times> nat \<Rightarrow> bool" where
  "row_shows pre l t \<longleftrightarrow> (\<exists>k. t = (pre @ l @ replicate k CHR '' '', length pre + length l))"

lemma echo_key_shows:
  assumes "row_shows pre l t"
  shows "row_shows pre (edit_key l c) (foldl term_put t (echo_key l c))"
proof -
  obtain k where t: "t = (pre @ l @ replicate k CHR '' '', length pre + length l)" using assms by (auto simp: row_shows_def)
  consider (erase) "is_erase c" "l \<noteq> []" | (print) "\<not> (is_erase c \<and> l \<noteq> [])" "printable c"
    | (ignore) "\<not> (is_erase c \<and> l \<noteq> [])" "\<not> printable c" by blast
  then show ?thesis
  proof cases
    case erase
    then obtain l' x where l: "l = l' @ [x]" by (cases l rule: rev_cases) auto
    have "foldl term_put t (echo_key l c) = (pre @ l' @ replicate (Suc k) CHR '' '', length pre + length l')"
      using erase by (simp add: echo_key_def t l term_put_def list_update_append)
    then show ?thesis using erase by (auto simp: row_shows_def edit_key_def l simp del: replicate_Suc)
  next
    case print
    then have "c \<noteq> CHR 0x08" using printable_not_control [of c] by (auto simp: is_erase_def)
    then have "foldl term_put t (echo_key l c) = (pre @ (l @ [c]) @ replicate (k - 1) CHR '' '', length pre + length (l @ [c]))"
      using print by (cases k) (auto simp: echo_key_def t term_put_def list_update_append)
    then show ?thesis using print by (auto simp: row_shows_def edit_key_def)
  next
    case ignore
    then show ?thesis using assms by (auto simp: edit_key_def echo_key_def)
  qed
qed

lemma echo_keys_show: "row_shows pre l t \<Longrightarrow> row_shows pre (foldl edit_key l cs) (foldl term_put t (echo_keys l cs))"
  by (induction cs arbitrary: l t) (simp_all add: echo_key_shows)

text \<open>C24: on a live console the line editor returns when a line end arrives, with the line that the typed keys leave (characters
  appended, backspace and delete taking the last one off, other control characters ignored), provided it never holds 255
  characters. It has used up exactly these keys, and a terminal that started after the prompt \<open>pre\<close> then shows \<open>pre\<close> followed by
  exactly this line.\<close>

theorem shell_line_editor:
  assumes "uart_fair (con m)" "rx (con m) = keys @ e # ds" "list_all (\<lambda>c. \<not> is_eol c) keys" "is_eol e" "line_fits [] keys"
  shows "\<exists>m' echo. read_line adr [] m = Some (foldl edit_key [] keys, m') \<and> kern m' = kern m \<and> rx (con m') = ds
    \<and> tx (con m') = tx (con m) @ echo @ [CHR 0x0D, CHR 0x0A]
    \<and> row_shows pre (foldl edit_key [] keys) (foldl term_put (pre, length pre) echo)"
proof -
  obtain m' where "read_line adr [] m = Some (foldl edit_key [] keys, m')" "talks m (keys @ [e]) (echo_keys [] keys @ [CHR 0x0D, CHR 0x0A]) m'"
    using read_line_edits [OF assms] by blast
  moreover have "row_shows pre [] (pre, length pre)" by (auto simp: row_shows_def intro: exI [of _ 0])
  ultimately show ?thesis
    using echo_keys_show [of pre "[]" "(pre, length pre)" keys] assms(2) by (auto simp: talks_def)
qed

definition typed :: "byte list \<Rightarrow> machine \<Rightarrow> machine" where
  "typed keys m = m\<lparr>con := (con m)\<lparr>rx := keys\<rparr>\<rparr>"

lemma typed_simps [simp]: "kern (typed ks m) = kern m" "rx (con (typed ks m)) = ks" "tx (con (typed ks m)) = tx (con m)"
  "uart_fair (con (typed ks m)) = uart_fair (con m)"
  by (simp_all add: typed_def uart_fair_def)

theorem shell_line_editor_witness:
  "\<exists>m'. read_line id [] (typed [CHR ''l'', CHR ''x'', CHR 0x7F, CHR ''s'', CHR 0x0D] demo_machine) = Some (''ls'', m') \<and> rx (con m') = []"
  using shell_line_editor [of "typed [CHR ''l'', CHR ''x'', CHR 0x7F, CHR ''s'', CHR 0x0D] demo_machine"
      "[CHR ''l'', CHR ''x'', CHR 0x7F, CHR ''s'']" "CHR 0x0D" "[]" id "[]"] idle_uart_fair
  by (auto simp: is_eol_def is_erase_def edit_key_def printable_def)

section \<open>Running a command\<close>

text \<open>A line of printable characters is run as the command before its first space.\<close>

lemma shell_iter_typed:
  assumes "uart_fair (con m)" "rx (con m) = line @ e # ds" "list_all printable line" "length line < 255" "is_eol e"
  obtains m1 where "shell_iter adr e1 m = run_command adr e1 (fst (split_line line)) (snd (split_line line)) m1"
    "kern m1 = kern m" "rx (con m1) = ds" "uart_fair (con m1)"
proof -
  obtain m0 where m0: "say adr PROMPT m = Some m0" "talks m [] (crlf PROMPT) m0" using say_ok [OF assms(1)] by blast
  have k: "list_all (\<lambda>c. \<not> is_eol c) line" "foldl edit_key [] line = line" "line_fits [] line"
    using assms(3,4) printable_not_control line_fits_printable [of line "[]"]
    by (auto simp: edit_printable list_all_iff)
  have "uart_fair (con m0)" "rx (con m0) = line @ e # ds" using m0(2) assms(2) by (simp_all add: talks_def)
  from read_line_edits [OF this k(1) assms(5) k(3)] obtain m1 where "read_line adr [] m0 = Some (line, m1)"
    "talks m0 (line @ [e]) (echo_keys [] line @ [CHR 0x0D, CHR 0x0A]) m1" unfolding k(2) by blast
  with m0 assms(2) show thesis
    by (intro that [of m1]) (auto simp: shell_iter_def talks_def split: prod.splits)
qed

lemma split_line_words: "CHR '' '' \<notin> set w \<Longrightarrow> split_line (w @ '' '' @ a) = (w, Some a)"
  by (simp add: split_line_def takeWhile_append)

lemma two_words_eq:
  assumes "w \<noteq> []" "CHR '' '' \<notin> set w" "v \<noteq> []" "CHR '' '' \<notin> set v"
  shows "two_words (Some (w @ '' '' @ v)) = Some (Some w, Some v)"
  using strtok_s_word [of w "'' ''" "'' '' @ v"] strtok_s_word [of v "'' ''" "[]"] assms by (simp add: two_words_def)

section \<open>cp and mv\<close>

interpretation ram_cp: stream_copy "rc_read src" "rc_write dst" "rc_rest a i" "rc_out j"
    "\<lambda>k. rc_ok src a i dst b j k0 (length (rc_rest a i k)) k" "\<lambda>c k. rc_ok src a i dst b j k0 (length c + length (rc_rest a i k)) k \<and> length c \<le> 1024"
    "\<lambda>t :: unit. cp_loop src dst" "\<lambda>t. (False, 0)" "\<lambda>t n. ()"
  for src dst :: int and a b :: u64 and i j :: nat and k0 :: kernel
proof (unfold_locales, goal_cases)
  case (1 k k1 t)
  from rc_read_call [OF this] show ?case by (subst cp_loop.simps) simp
next
  case (2 k c k1 k2 t)
  show ?case
    using 2(3) rc_read_call(1) [OF 2(1,2)] rc_write_call [OF 2(4)] by (subst cp_loop.simps) simp
qed simp_all

lemma cmd_cp_ram:
  assumes "ramfs_inv (ram (kern m))" "cur_proc (kern m) = Some pr" "ns pr = []" "take 5 src = ''/tmp/''" "length src < VFS_MAX_PATH"
    and "take 5 dst = ''/tmp/''" "length dst < MAX_PATH" "ram_find src (ram (kern m)) = Some i"
    and "first_idx (\<lambda>rf. \<not> used rf) (ram (kern m)) = Some j" "vfs_room 2 (kern m)"
    and "CHR '' '' \<notin> set src" "CHR '' '' \<notin> set dst"
  obtains k' rf where "cmd_cp adr (Some (src @ '' '' @ dst)) m = Some (m\<lparr>kern := k'\<rparr>)" "ram k' = (ram (kern m))[j := rf]" "used rf" "rf_path rf = dst"
    "rf_bytes rf = rf_bytes (ram (kern m) ! i)" "ramfs_inv (ram k')" "pt k' = pt (kern m)" "mount_points k' = mount_points (kern m)"
    "get_file (int (next_fd (kern m))) k' \<noteq> None" "get_file (int (next_fd (kern m) + 1)) k' \<noteq> None"
proof (rule copy_start [OF assms(1-10)])
  fix k1 k2 rf a b
  let ?k = "kern m"
  let ?s = "int (next_fd ?k)" and ?d = "int (next_fd ?k + 1)"
  assume o: "vfs_open src ?k = Some (?s, k1)" and c: "vfs_create dst k1 = Some (?d, k2)"
    and r2: "ram k2 = (ram ?k)[j := rf]" and rf: "used rf" "rf_path rf = dst" "rf_size rf = 0" and room: "vfs_room 0 k2"
    and k2: "pt k2 = pt ?k" "mount_points k2 = mount_points ?k"
    and ok: "rc_ok ?s a i ?d b j k2 (length (rc_rest a i k2)) k2" and rest: "rc_rest a i k2 = rf_bytes (ram ?k ! i)"
  have j: "j < length (ram ?k)" using first_idx_lt [OF assms(9)] .
  obtain k3 where l: "cp_loop ?s ?d k2 = Some ((False, 0), k3)"
    and k3: "rc_ok ?s a i ?d b j k2 (length (rc_rest a i k3)) k3" "rc_out j k3 = rc_out j k2 @ rc_rest a i k2"
    using ram_cp.loop_copies [OF ok] by auto
  have "src \<noteq> []" "dst \<noteq> []" using assms(4,6) by auto
  then have w: "two_words (Some (src @ '' '' @ dst)) = Some (Some src, Some dst)" using assms(11,12) by (intro two_words_eq)
  have "ram k3 = (ram ?k)[j := ram k3 ! j]"
    using k3(1) j r2 by (intro nth_equalityI) (auto simp: rc_ok_def nth_list_update)
  moreover have "rf_bytes (ram k3 ! j) = rf_bytes (ram ?k ! i)"
    using k3(2) rest j rf(3) by (simp add: rc_out_def r2 rf_bytes_def)
  moreover have "used (ram k3 ! j)" "rf_path (ram k3 ! j) = dst" "ramfs_inv (ram k3)" "pt k3 = pt k2" "mount_points k3 = mount_points k2"
    "get_file ?s k3 \<noteq> None" "get_file ?d k3 \<noteq> None"
    using k3(1) j rf by (simp_all add: rc_ok_def r2 ram_fd_def)
  moreover have "cmd_cp adr (Some (src @ '' '' @ dst)) m = Some (m\<lparr>kern := k3\<rparr>)"
    using o c l assms(5,7) unfolding cmd_cp_def w by (simp add: MAX_PATH_def VFS_MAX_PATH_def)
  ultimately show thesis using k2 by (intro that [of k3 "ram k3 ! j"]) simp_all
qed

text \<open>C25: the typed command \<open>cp src dst\<close> ends, prompts again and has added exactly the new file with the contents of the source to the RAM disk;
  both descriptors it opened are still open.\<close>

theorem shell_cp_copies:
  assumes "uart_fair (con m)" "rx (con m) = ''cp '' @ src @ '' '' @ dst @ e # ds" "is_eol e"
    and "list_all printable (src @ dst)" "length (''cp '' @ src @ '' '' @ dst) < 255" "CHR '' '' \<notin> set src" "CHR '' '' \<notin> set dst"
    and "ramfs_inv (ram (kern m))" "ram_uniq (ram (kern m))" "cur_proc (kern m) = Some pr" "ns pr = []"
    and "take 5 src = ''/tmp/''" "take 5 dst = ''/tmp/''" "length dst < MAX_PATH"
    and "ram_find src (ram (kern m)) = Some i" "ram_find dst (ram (kern m)) = None"
    and "first_idx (\<lambda>rf. \<not> used rf) (ram (kern m)) = Some j" "vfs_room 2 (kern m)"
  shows "\<exists>m'. shell_iter adr e1 m = Some (None, m') \<and> rx (con m') = ds
    \<and> ram_lookup (ram (kern m')) = (ram_lookup (ram (kern m)))(dst := ram_lookup (ram (kern m)) src)
    \<and> get_file (int (next_fd (kern m))) (kern m') \<noteq> None \<and> get_file (int (next_fd (kern m) + 1)) (kern m') \<noteq> None"
proof -
  let ?line = "''cp '' @ src @ '' '' @ dst"
  have p: "list_all printable ?line" using assms(4) by (simp add: printable_def)
  have "rx (con m) = ?line @ e # ds" using assms(2) by simp
  from shell_iter_typed [OF assms(1) this p assms(5,3)] obtain m1 where
    m1: "shell_iter adr e1 m = run_command adr e1 (fst (split_line ?line)) (snd (split_line ?line)) m1" "kern m1 = kern m" "rx (con m1) = ds"
    by blast
  have sp: "split_line ?line = (''cp'', Some (src @ '' '' @ dst))" using split_line_words [of "''cp''" "src @ '' '' @ dst"] by simp
  have l: "length src < VFS_MAX_PATH" using assms(5) by (simp add: VFS_MAX_PATH_def)
  obtain k' rf where c: "cmd_cp adr (Some (src @ '' '' @ dst)) m1 = Some (m1\<lparr>kern := k'\<rparr>)" "ram k' = (ram (kern m))[j := rf]" "used rf" "rf_path rf = dst"
    "rf_bytes rf = rf_bytes (ram (kern m) ! i)" "get_file (int (next_fd (kern m))) k' \<noteq> None" "get_file (int (next_fd (kern m) + 1)) k' \<noteq> None"
    using cmd_cp_ram [of m1, unfolded m1(2), OF assms(8,10-12) l assms(13-15,17,18,6,7), of adr] by metis
  have "ram_lookup (ram k') = (ram_lookup (ram (kern m)))(dst := Some (rf_bytes rf))"
    using ram_lookup_new(2) [OF assms(9,16,17) c(3,4)] c(2) by simp
  moreover have "ram_lookup (ram (kern m)) src = Some (rf_bytes rf)" using assms(15) c(5) by (simp add: ram_lookup_def)
  moreover have "shell_iter adr e1 m = Some (None, m1\<lparr>kern := k'\<rparr>)" using m1(1) c(1) unfolding sp by (simp add: run_command_def)
  ultimately show ?thesis using c(6,7) m1(3) by auto
qed

theorem shell_cp_copies_witness:
  "\<exists>m'. shell_iter id demo_env (typed (''cp /tmp/a /tmp/b'' @ [CHR 0x0D]) demo_machine) = Some (None, m')
    \<and> ram_lookup (ram (kern m')) ''/tmp/b'' = Some ''hi''"
  using shell_cp_copies [of "typed (''cp /tmp/a /tmp/b'' @ [CHR 0x0D]) demo_machine" "''/tmp/a''" "''/tmp/b''" "CHR 0x0D" "[]" demo_process 0 1 id demo_env]
    demo_ram_inv demo_ram_free demo_ram_lookup(2) demo_copy_facts vfs_room_less [OF demo_kernel_room, of 2] idle_uart_fair
  by (auto simp: is_eol_def printable_def MAX_PATH_def)

text \<open>\<open>mv\<close> does not ask whether its copy succeeded. On a full RAM disk the destination cannot be created, \<open>mv\<close> says so, and removes the
  source: the contents are lost.\<close>

theorem mv_full_disk_loses_file:
  assumes "uart_fair (con m)" "CHR '' '' \<notin> set src" "CHR '' '' \<notin> set dst"
    and "ramfs_inv (ram (kern m))" "ram_uniq (ram (kern m))" "cur_proc (kern m) = Some pr" "ns pr = []"
    and "take 5 src = ''/tmp/''" "length src < VFS_MAX_PATH" "take 5 dst = ''/tmp/''" "length dst < MAX_PATH"
    and "ram_find src (ram (kern m)) = Some i" "first_idx (\<lambda>rf. \<not> used rf) (ram (kern m)) = None" "vfs_room 1 (kern m)"
    and "find_mount src (kern m) = Some mp" "mp_fs mp = RamFs"
  shows "\<exists>m'. cmd_mv adr (Some (src @ '' '' @ dst)) m = Some m'
    \<and> ram_lookup (ram (kern m')) = (ram_lookup (ram (kern m)))(src := None)"
proof -
  let ?k = "kern m"
  have ne: "src \<noteq> []" "dst \<noteq> []" using assms(8,10) by auto
  have l: "length dst < VFS_MAX_PATH" using assms(11) by (simp add: MAX_PATH_def VFS_MAX_PATH_def)
  have w: "two_words (Some (src @ '' '' @ dst)) = Some (Some src, Some dst)" using ne assms(2,3) by (intro two_words_eq)
  obtain f where o: "vfs_open src ?k = Some (int (next_fd ?k), install f ?k)" using vfs_open_ram [OF assms(6-9,12,14)] by blast
  have "make_full_path dst (install f ?k) = Some dst" using tmp_abs [OF assms(10)] l by (simp add: make_full_path_abs)
  then have c: "vfs_create dst (install f ?k) = Some (-1, install f ?k)"
    using assms(10,11,13) by (simp add: vfs_create_def fs_create_eq ramfs_create_def)
  define m1 where "m1 = m\<lparr>kern := install f ?k\<rparr>"
  have "uart_fair (con m1)" using assms(1) by (simp add: m1_def)
  then obtain m2 where m2: "say_all adr [''cp: cannot create destination file: '', dst, newline] m1 = Some m2"
    "talks m1 [] (concat (map crlf [''cp: cannot create destination file: '', dst, newline])) m2"
    by (rule say_all_ok)
  have cp: "cmd_cp adr (Some (src @ '' '' @ dst)) m = Some m2"
    using o c m2(1) assms(9) l unfolding cmd_cp_def w by (simp add: m1_def)
  have k2: "kern m2 = install f ?k" "ram (kern m2) = ram ?k" using m2(2) by (simp_all add: talks_def m1_def)
  have "ram_lookup (ram ?k) src \<noteq> None" using assms(12) by (simp add: ram_lookup_def)
  from ram_unlink_lookup [OF assms(4,5) this] obtain fs where fs: "ramfs_unlink src (ram ?k) = (0, fs)"
    "ram_lookup fs = (ram_lookup (ram ?k))(src := None)" by blast
  have "find_mount src (kern m2) = Some mp" using assms(15) find_mount_cong [of "kern m2" ?k] k2 by simp
  then have u: "vfs_unlink src (kern m2) = Some (0, (kern m2)\<lparr>ram := fs\<rparr>)"
    using assms(9,16) tmp_abs [OF assms(8)] fs(1) k2(2) by (simp add: vfs_unlink_def make_full_path_abs fs_unlink_eq)
  have "into_buf (VFS_MAX_PATH * 2) (src @ '' '' @ dst) = Some (src @ '' '' @ dst)" using assms(9) l by simp
  then have "cmd_mv adr (Some (src @ '' '' @ dst)) m = Some (m2\<lparr>kern := (kern m2)\<lparr>ram := fs\<rparr>\<rparr>)"
    using cp u assms(9) l unfolding cmd_mv_def w by simp
  then show ?thesis using fs(2) m2(2) by (auto simp: talks_def m1_def)
qed

text \<open>A RAM disk with sixteen empty files.\<close>

definition full_ram :: ramfs where
  "full_ram = map (\<lambda>n. zero_ramfs_file\<lparr>used := True, rf_path := ''/tmp/'' @ replicate n CHR ''a''\<rparr>) [0..<16]"

lemma full_ram_facts:
  "ramfs_inv full_ram" "ram_uniq full_ram" "ram_find ''/tmp/a'' full_ram = Some 1" "first_idx (\<lambda>rf. \<not> used rf) full_ram = None"
  "ram_lookup full_ram ''/tmp/a'' = Some []"
proof -
  show "ramfs_inv full_ram"
    by (auto simp: full_ram_def ramfs_inv_def zero_ramfs_file_def MAX_FILES_def MAX_PATH_def MAX_CONTENT_def)
  show "ram_uniq full_ram" by (auto simp: full_ram_def ram_uniq_def dest: arg_cong [where f = length])
  show f: "ram_find ''/tmp/a'' full_ram = Some 1"
    unfolding ram_find_def first_idx_Some_iff by (simp add: full_ram_def)
  show "first_idx (\<lambda>rf. \<not> used rf) full_ram = None" by (auto simp: full_ram_def first_idx_None_iff)
  show "ram_lookup full_ram ''/tmp/a'' = Some []"
    using f by (simp add: ram_lookup_def) (simp add: full_ram_def rf_bytes_def zero_ramfs_file_def)
qed

definition full_machine :: machine where
  "full_machine = demo_machine\<lparr>kern := demo_kernel\<lparr>ram := full_ram\<rparr>\<rparr>"

lemma full_machine_simps [simp]:
  "ram (kern full_machine) = full_ram" "con full_machine = idle_uart" "cur_proc (kern full_machine) = Some demo_process"
  "mount_points (kern full_machine) = demo_mounts"
  using demo_kernel_simps(1) by (simp_all add: full_machine_def cur_proc_def)

theorem mv_full_disk_loses_file_witness:
  "\<exists>m'. cmd_mv id (Some ''/tmp/a /tmp/b'') full_machine = Some m'
    \<and> ram_lookup (ram (kern full_machine)) ''/tmp/a'' = Some [] \<and> ram_lookup (ram (kern m')) ''/tmp/a'' = None"
proof -
  have "vfs_room 1 (kern full_machine)" using vfs_room_less [OF demo_kernel_room, of 1] by (simp add: vfs_room_def fd_inv_def full_machine_def)
  with mv_full_disk_loses_file [of full_machine "''/tmp/a''" "''/tmp/b''" demo_process 1 "demo_mounts ! 1" id] full_ram_facts idle_uart_fair
  show ?thesis by (auto simp: VFS_MAX_PATH_def MAX_PATH_def find_mount_def demo_mounts_def Let_def)
qed

section \<open>cd\<close>

lemma parent_len_append: "n \<le> length q \<Longrightarrow> parent_len (q @ r) n = parent_len q n"
  by (induction n) (simp_all add: nth_append)

lemma parent_len_comp: "CHR ''/'' \<notin> set c \<Longrightarrow> parent_len (p @ ''/'' @ c) (length p + 1 + length c) = length p + 1"
proof (induction c rule: rev_induct)
  case (snoc x xs)
  have "parent_len ((p @ ''/'' @ xs) @ [x]) (length p + 1 + length (xs @ [x])) = parent_len ((p @ ''/'' @ xs) @ [x]) (length p + 1 + length xs)"
    using snoc.prems by (auto simp: nth_append)
  also have "\<dots> = length p + 1" by (subst parent_len_append) (use snoc in auto)
  finally show ?case by simp
qed (simp add: nth_append)

text \<open>A component of any form, and one that names a directory entry. A name may end in a dot here, unlike a \<open>plain_name\<close>.\<close>

definition any_comp :: "string \<Rightarrow> bool" where
  "any_comp c \<longleftrightarrow> CHR ''/'' \<notin> set c \<and> NUL \<notin> set c"

definition entry_name :: "string \<Rightarrow> bool" where
  "entry_name c \<longleftrightarrow> any_comp c \<and> c \<noteq> [] \<and> c \<noteq> ''.'' \<and> c \<noteq> ''..''"

lemma entry_names_last: "list_all entry_name st \<Longrightarrow> st \<noteq> [] \<Longrightarrow> last (join_path st) \<noteq> CHR ''/'' \<and> length (join_path st) > 1"
  by (cases st rule: rev_cases) (auto simp: entry_name_def any_comp_def dest: last_in_set)

lemma norm_comp_entries:
  assumes "any_comp c" "list_all entry_name st"
  shows "list_all entry_name (norm_comp st c)" "length (join_path (norm_comp st c)) \<le> length (join_path st) + 1 + length c"
proof -
  have b: "length (join_path (butlast st)) \<le> length (join_path st)" "list_all entry_name (butlast st)"
    using assms(2) by (cases st rule: rev_cases; simp)+
  show "list_all entry_name (norm_comp st c)" using assms b(2) by (auto simp: norm_comp_def entry_name_def)
  show "length (join_path (norm_comp st c)) \<le> length (join_path st) + 1 + length c" using b(1) by (auto simp: norm_comp_def)
qed

lemma norm_comps_length:
  "list_all any_comp cs \<Longrightarrow> list_all entry_name st \<Longrightarrow> length (join_path (foldl norm_comp st cs)) \<le> length (join_path st) + length (join_path cs)"
proof (induction cs arbitrary: st)
  case (Cons c cs)
  then have "length (join_path (foldl norm_comp (norm_comp st c) cs)) \<le> length (join_path (norm_comp st c)) + length (join_path cs)"
    using norm_comp_entries(1) [of c st] by simp
  then show ?case using norm_comp_entries(2) [of c st] Cons.prems by simp
qed simp

lemma get_parent_dir_comps:
  assumes "list_all entry_name st"
  shows "get_parent_dir (show_comps st) = show_comps (butlast st)"
proof (cases st rule: rev_cases)
  case Nil
  then show ?thesis by (simp add: show_comps_def get_parent_dir_def)
next
  case (snoc st' c)
  let ?p = "join_path st'"
  have c: "c \<noteq> []" "CHR ''/'' \<notin> set c" using assms by (simp_all add: snoc entry_name_def any_comp_def)
  have s: "show_comps st = ?p @ ''/'' @ c" by (simp add: snoc show_comps_def)
  have "last c \<noteq> CHR ''/''" using c(2) last_in_set [OF c(1)] by metis
  then have "last (?p @ ''/'' @ c) \<noteq> CHR ''/''" by (simp add: c(1))
  moreover have "?p @ ''/'' @ c \<noteq> ''/''" using c(1) by (cases ?p) auto
  ultimately have "get_parent_dir (?p @ ''/'' @ c) = (let p2 = (if length ?p = 0 then take 1 (?p @ ''/'' @ c) else ?p) in if p2 = [] then ''/'' else p2)"
    using parent_len_comp [OF c(2), of ?p] by (simp add: get_parent_dir_def)
  then show ?thesis unfolding s by (cases st') (simp_all add: show_comps_def snoc)
qed

text \<open>The walk of \<open>cd\<close> is the reduction of components.\<close>

lemma cd_walk_comps:
  assumes "list_all entry_name st" "list_all any_comp cs" "[] \<notin> set cs" "length (join_path (st @ cs)) < VFS_MAX_PATH"
  shows "cd_walk (show_comps st) cs = Some (show_comps (foldl norm_comp st cs))"
  using assms
proof (induction cs arbitrary: st)
  case (Cons c cs)
  have pc: "any_comp c" "c \<noteq> []" using Cons.prems by auto
  note f = norm_comp_entries [OF pc(1) Cons.prems(1)]
  have IH: "cd_walk (show_comps (norm_comp st c)) cs = Some (show_comps (foldl norm_comp (norm_comp st c) cs))"
    using Cons.IH [OF f(1)] f(2) Cons.prems by simp
  show ?case
  proof (cases "c = ''.'' \<or> c = ''..''")
    case True
    then have "cd_walk (show_comps st) (c # cs) = cd_walk (show_comps (norm_comp st c)) cs"
      using get_parent_dir_comps [OF Cons.prems(1)] by (auto simp: norm_comp_def)
    then show ?thesis using IH by simp
  next
    case False
    then have n: "norm_comp st c = st @ [c]" using pc(2) by (simp add: norm_comp_def)
    have "(if show_comps st \<noteq> ''/'' then show_comps st @ ''/'' else show_comps st) @ c = show_comps (st @ [c])"
      using entry_names_last [OF Cons.prems(1)] by (auto simp: show_comps_def)
    then have "cd_walk (show_comps st) (c # cs) = Option.bind (into_buf VFS_MAX_PATH (show_comps (st @ [c]))) (\<lambda>t. cd_walk t cs)"
      using False by simp
    moreover have "length (show_comps (st @ [c])) < VFS_MAX_PATH" using Cons.prems(4) by (simp add: show_comps_def)
    ultimately show ?thesis using IH by (simp add: n)
  qed
qed simp

lemma tokens_join: "list_all any_comp cs \<Longrightarrow> tokens ''/'' (join_path cs) = filter (\<lambda>c. c \<noteq> []) cs"
proof (induction cs)
  case (Cons c cs)
  have n: "CHR ''/'' \<notin> set c" using Cons.prems by (simp add: any_comp_def)
  have "join_path cs = [] \<or> hd (join_path cs) \<in> set ''/''" using join_path_start [of cs] by auto
  then have "tokens ''/'' (c @ join_path cs) = (if c = [] then [] else [c]) @ tokens ''/'' (join_path cs)"
    using tokens_word [of c "''/''" "join_path cs"] n by auto
  with Cons show ?case by (simp add: tokens_delim)
qed simp

lemma norm_comp_filter: "foldl norm_comp st (filter (\<lambda>c. c \<noteq> []) cs) = foldl norm_comp st cs"
  by (induction cs arbitrary: st) (simp_all add: norm_comp_def [of _ "[]"])

lemma join_filter_le: "length (join_path (filter (\<lambda>c. c \<noteq> []) cs)) \<le> length (join_path cs)"
  by (induction cs) auto

lemma norm_comps_stack: "list_all entry_name st \<Longrightarrow> norm_comps (st @ cs) = foldl norm_comp st cs"
proof -
  have "list_all entry_name st \<Longrightarrow> foldl norm_comp [] st = st"
    by (induction st rule: rev_induct) (auto simp: norm_comp_def entry_name_def)
  then show "list_all entry_name st \<Longrightarrow> norm_comps (st @ cs) = foldl norm_comp st cs" by (simp add: norm_comps_def)
qed

text \<open>The walk over the components of a relative path.\<close>

lemma cd_walk_relative:
  assumes "list_all entry_name st" "list_all any_comp cs" "cs \<noteq> []" "length (join_path (st @ cs)) < VFS_MAX_PATH"
  shows "cd_walk (show_comps st) (tokens ''/'' (drop 1 (join_path cs))) = Some (show_comps (norm_comps (st @ cs)))"
proof -
  obtain c ds where "cs = c # ds" using assms(3) by (cases cs) auto
  then have tok: "tokens ''/'' (drop 1 (join_path cs)) = filter (\<lambda>c. c \<noteq> []) cs"
    using tokens_join [OF assms(2)] by (simp add: tokens_delim)
  show ?thesis
    unfolding tok using cd_walk_comps [OF assms(1), of "filter (\<lambda>c. c \<noteq> []) cs"] assms(2,4) join_filter_le [of cs]
    by (simp add: norm_comp_filter norm_comps_stack [OF assms(1)] list_all_iff)
qed

text \<open>C28: \<open>cd\<close> with a relative path, of any components, whose reduction lies outside \<open>/tmp/\<close>, sets the working directory to that reduction of the old directory followed by the path
  (empty components and \<open>.\<close> vanish, \<open>..\<close> removes the component before it), whatever the disks hold, since opening a path there
  always succeeds; every such \<open>cd\<close> but \<open>cd .\<close> and \<open>cd ..\<close> uses up a descriptor. The kernel's own \<open>vfs_normalize_path\<close> computes the same when no name of the old directory and of the path ends in a dot; on such names the two
  differ (\<open>cd_normalize_differ\<close>).\<close>

theorem cd_follows_any_path:
  assumes "cur_proc (kern m) = Some pr" "ns pr = []" "cwd pr = show_comps st" "list_all entry_name st"
    and "cs \<noteq> []" "list_all any_comp cs" "hd cs \<noteq> []" "length (join_path (st @ cs)) < VFS_MAX_PATH"
    and "take 5 (show_comps (norm_comps (st @ cs))) \<noteq> ''/tmp/''" "vfs_room 1 (kern m)"
  shows "(list_all path_comp (st @ cs) \<longrightarrow> vfs_normalize_path (join_path (st @ cs)) = Some (show_comps (norm_comps (st @ cs))))
    \<and> (\<exists>m'. cmd_cd adr (Some (drop 1 (join_path cs))) m = Some m'
         \<and> cur_proc (kern m') = Some (pr\<lparr>cwd := show_comps (norm_comps (st @ cs))\<rparr>)
         \<and> next_fd (kern m') = next_fd (kern m) + (if drop 1 (join_path cs) \<in> {''.'', ''..''} then 0 else 1))"
proof -
  let ?p = "drop 1 (join_path cs)" and ?q = "show_comps (norm_comps (st @ cs))"
  obtain c ds where cs: "cs = c # ds" "c \<noteq> []" "any_comp c" using assms(5-7) by (cases cs) auto
  have p: "?p = c @ join_path ds" "?p \<noteq> []" using cs(2) by (simp_all add: cs(1))
  have "CHR ''/'' \<notin> set c" using cs(3) by (simp add: any_comp_def)
  then have rel: "cs_nth ?p 0 \<noteq> CHR ''/''" unfolding p(1) using cs(2) by (cases c) auto
  have q: "length (join_path (norm_comps (st @ cs))) < VFS_MAX_PATH"
    using norm_comps_length [OF assms(6,4)] assms(8) by (simp add: norm_comps_stack [OF assms(4)])
  have norm: "list_all path_comp (st @ cs) \<longrightarrow> vfs_normalize_path (join_path (st @ cs)) = Some ?q" using assms(5,8) by (intro impI normalize_comps) simp_all
  have walk: "cd_walk (cwd pr) (tokens ''/'' ?p) = Some ?q" unfolding assms(3) by (rule cd_walk_relative [OF assms(4,6,5,8)])
  have buf: "into_buf VFS_MAX_PATH ?p = Some ?p" using assms(8) by (simp add: cs(1))
  have dots: "?p = ''.'' \<Longrightarrow> ?q = cwd pr" "?p = ''..'' \<Longrightarrow> ?q = get_parent_dir (cwd pr)"
    using walk tokens_word [of "''.''" "''/''" "[]"] tokens_word [of "''..''" "''/''" "[]"] by auto
  have o: "vfs_open ?q (kern m) = Some (int (next_fd (kern m)), install (abyss_object ?q) (kern m))"
    using q by (intro vfs_open_abyss [OF assms(1,2,9) _ assms(10)]) (simp add: show_comps_def VFS_MAX_PATH_def)
  have "\<exists>m'. cmd_cd adr (Some ?p) m = Some m' \<and> cur_proc (kern m') = Some (pr\<lparr>cwd := ?q\<rparr>)
      \<and> next_fd (kern m') = next_fd (kern m) + (if ?p \<in> {''.'', ''..''} then 0 else 1)"
  proof (cases "?p \<in> {''.'', ''..''}")
    case True
    then consider "?p = ''.''" "?q = cwd pr" | "?p = ''..''" "?q = get_parent_dir (cwd pr)" using dots by blast
    then show ?thesis
    proof cases
      case 1
      then show ?thesis unfolding 1 cmd_cd_def using assms(1) by simp
    next
      case 2
      then show ?thesis unfolding 2 cmd_cd_def using assms(1) by simp
    qed
  next
    case False
    have "cmd_cd adr (Some ?p) m = Some (m\<lparr>kern := upd_cur (\<lambda>r. r\<lparr>cwd := ?q\<rparr>) (install (abyss_object ?q) (kern m))\<rparr>)"
      using False assms(1) rel p(2) buf walk o by (simp add: cmd_cd_def)
    then show ?thesis using False assms(1) by auto
  qed
  with norm show ?thesis by blast
qed

theorem cd_follows_any_path_witness:
  "\<exists>m'. cmd_cd id (Some ''../no./such'') demo_machine = Some m' \<and> cur_proc (kern m') = Some (demo_process\<lparr>cwd := ''/no./such''\<rparr>)
    \<and> next_fd (kern m') = 1"
proof -
  have n: "show_comps (norm_comps ([''tmp''] @ [''..'', ''no.'', ''such''])) = ''/no./such''"
    by (simp add: show_comps_def norm_comps_def norm_comp_def)
  from cd_follows_any_path [of demo_machine demo_process "[''tmp'']" "[''..'', ''no.'', ''such'']" id, unfolded n]
  show ?thesis using vfs_room_less [OF demo_kernel_room, of 1] by (simp add: entry_name_def any_comp_def show_comps_def VFS_MAX_PATH_def)
qed

text \<open>Where \<open>cd\<close> and \<open>vfs_normalize_path\<close> differ.\<close>

lemma cd_normalize_differ: "cd_walk ''/'' [''a.'', ''b''] = Some ''/a./b''" "vfs_normalize_path ''/a./b'' = Some ''/a/b''"
  by (simp_all add: VFS_MAX_PATH_def vfs_normalize_path_def norm_back_def)

section \<open>ls and the unused helper\<close>

text \<open>\<open>ls\<close> gives the kernel no buffer, so a listing that succeeds prints nothing.\<close>

lemma ls_prints_nothing:
  assumes "vfs_read_dir p 32 (kern m) = Some (Some ds, k1)" "p \<noteq> []"
  shows "cmd_ls adr e (Some p) m = Some (m\<lparr>kern := k1, dirents_out := []\<rparr>)"
  using assms by (simp add: cmd_ls_def send_message_def msg_read_dir_def handle_read_dir_message_def blank_message_def)

text \<open>\<open>normalize_path\<close> leaves no double slash except at the start, where it keeps one.\<close>

lemma squeeze_hd: "s \<noteq> [] \<Longrightarrow> squeeze_slashes s \<noteq> [] \<and> hd (squeeze_slashes s) = hd s"
  by (induction s rule: squeeze_slashes.induct) (auto simp: cs_nth_def hd_conv_nth split: if_splits)

lemma squeeze_no_double: "Suc i < length (squeeze_slashes s) \<Longrightarrow> \<not> (squeeze_slashes s ! i = CHR ''/'' \<and> squeeze_slashes s ! Suc i = CHR ''/'')"
proof (induction s arbitrary: i)
  case (Cons c cs)
  show ?case
  proof (cases "c = CHR ''/'' \<and> cs_nth cs 0 = CHR ''/''")
    case True
    with Cons show ?thesis by simp
  next
    case False
    have sq: "squeeze_slashes (c # cs) = c # squeeze_slashes cs" using False by auto
    have l: "i < length (squeeze_slashes cs)" using Cons.prems unfolding sq by simp
    show ?thesis
    proof (cases i)
      case 0
      then have "cs \<noteq> []" using l by auto
      then have "squeeze_slashes cs ! 0 = cs ! 0" using squeeze_hd [of cs] by (metis hd_conv_nth)
      then show ?thesis using False \<open>cs \<noteq> []\<close> unfolding sq 0 by (simp add: cs_nth_def)
    next
      case (Suc j)
      then show ?thesis using Cons.IH [of j] l unfolding sq Suc by simp
    qed
  qed
qed simp

lemma normalize_path_leading: "normalize_path ''//a//b'' = ''//a/b''"
  by (simp add: normalize_path_def cs_nth_def)

section \<open>The command table\<close>

text \<open>Every entry of the table is dispatched to its function, though the loop does not read the table.\<close>

lemma commands_agree:
  assumes "(c, f) \<in> set commands"
  shows "run_command adr e c args m = map_option (Pair None) (f adr e args m)"
  using assms unfolding commands_def list.set insert_iff empty_iff prod.inject
  by (elim disjE conjE FalseE; hypsubst; simp add: run_command_def)

end
