(* ===== verification/User_Shell.thy ===== *)
theory User_Shell
  imports Syscall Shell_Props
begin

text \<open>
  The shell in user mode, \<open>src/src/user/user_shell.c\<close>: its system call wrappers, its line editor and its commands.

  The state is that of the exception code and of the machine. A wrapper runs the supervisor call through
  \<open>handle_sync_exception\<close> and \<open>sync_handler\<close>; a call that halts the machine is \<open>None\<close>. \<open>es\<close> gives the environment of each call
  (the address of the printed string), indexed by the number of flag reads done. The locale \<open>console\<close> of the driver
  is interpreted on the wrappers: through three layers, characters still come out in the order in which they are put in.
\<close>

section \<open>System calls\<close>

type_synonym user_state = "exn_state \<times> machine"

text \<open>The exception syndrome of \<open>svc #0\<close>.\<close>

definition SVC_ESR :: u64 where
  "SVC_ESR = 0x56000000"

definition svc :: "(nat \<Rightarrow> env) \<Rightarrow> u64 \<Rightarrow> u64 \<Rightarrow> string \<Rightarrow> user_state \<Rightarrow> (u64 \<times> user_state) option" where
  "svc es x8 x0 str s =
     (case s of (x, m) \<Rightarrow>
        do { (r, x') \<leftarrow> handle_sync_exception (es (fr_pos (con m))) \<lparr>message_at = (\<lambda>_. None), string_at = (\<lambda>_. Some str)\<rparr> SVC_ESR x0 0 0 x8 x m;
             case r of
               SysReturn w msg m' \<Rightarrow> (case sync_handler w of Resume v \<Rightarrow> Some (v, x', m') | Halt \<Rightarrow> None)
             | SysSuspend out msg m' \<Rightarrow> None })"

definition u_putc :: "(nat \<Rightarrow> env) \<Rightarrow> byte \<Rightarrow> user_state \<Rightarrow> user_state option" where
  "u_putc es c s = map_option snd (svc es SYS_PUTC (of_nat (of_char c)) [] s)"

definition u_getc :: "(nat \<Rightarrow> env) \<Rightarrow> user_state \<Rightarrow> (byte \<times> user_state) option" where
  "u_getc es s = do { (v, s1) \<leftarrow> svc es SYS_GETC 0 [] s; Some (of_u8 (ucast v), s1) }"

definition u_puts :: "(nat \<Rightarrow> env) \<Rightarrow> string \<Rightarrow> user_state \<Rightarrow> user_state option" where
  "u_puts es str s = map_option snd (svc es SYS_PUTS (of_nat (env_str (es (fr_pos (con (snd s)))))) str s)"

fun u_puts_all :: "(nat \<Rightarrow> env) \<Rightarrow> string list \<Rightarrow> user_state \<Rightarrow> user_state option" where
  "u_puts_all es [] s = Some s"
| "u_puts_all es (t # ts) s = do { s1 \<leftarrow> u_puts es t s; u_puts_all es ts s1 }"

section \<open>Strings\<close>

fun u_strcmp :: "string \<Rightarrow> string \<Rightarrow> int" where
  "u_strcmp [] b = - of_char (cs_nth b 0)"
| "u_strcmp (c # a) b = (if c = cs_nth b 0 then u_strcmp a (drop 1 b) else of_char c - of_char (cs_nth b 0))"

fun u_strncmp :: "string \<Rightarrow> string \<Rightarrow> nat \<Rightarrow> int" where
  "u_strncmp a b 0 = 0"
| "u_strncmp a b (Suc n) =
     (if cs_nth a 0 \<noteq> NUL \<and> cs_nth a 0 = cs_nth b 0 then u_strncmp (drop 1 a) (drop 1 b) n
      else of_char (cs_nth a 0) - of_char (cs_nth b 0))"

text \<open>\<open>strlen\<close> has no caller.\<close>

fun u_strlen :: "string \<Rightarrow> int" where
  "u_strlen [] = 0"
| "u_strlen (c # s) = 1 + u_strlen s"

section \<open>Commands\<close>

definition u_cmd_echo :: "(nat \<Rightarrow> env) \<Rightarrow> string \<Rightarrow> user_state \<Rightarrow> user_state option" where
  "u_cmd_echo es args s = do { s1 \<leftarrow> (if args \<noteq> [] then u_puts es args s else Some s); u_putc es (CHR 0x0A) s1 }"

definition version_text :: "string list" where
  "version_text = [''ChthonOS v0.2.0 '' @ [CHR 0x22] @ ''Abyss'' @ [CHR 0x22, CHR 0x0A], ''Architecture: aarch64'' @ [CHR 0x0A],
     ''Features: Plan9-IPC, EL0-Shell, AbyssFS'' @ [CHR 0x0A], ''Build: Development'' @ [CHR 0x0A]]"

definition clear_text :: string where
  "clear_text = [CHR 0x1B] @ ''[2J'' @ [CHR 0x1B] @ ''[H''"

definition help_text :: "string list" where
  "help_text = [''Available commands:'' @ [CHR 0x0A], ''  echo <text>  - Echo text'' @ [CHR 0x0A], ''  version      - Show OS version'' @ [CHR 0x0A],
     ''  clear        - Clear screen'' @ [CHR 0x0A], ''  help         - Show this help'' @ [CHR 0x0A]]"

definition execute_command :: "(nat \<Rightarrow> env) \<Rightarrow> string \<Rightarrow> user_state \<Rightarrow> user_state option" where
  "execute_command es line s =
     (let cmdline = dropWhile (\<lambda>c. c = CHR '' '') line in
      if cmdline = [] then Some s
      else let args0 = dropWhile (\<lambda>c. c \<noteq> CHR '' '') cmdline;
               cmd_len = length cmdline - length args0;
               args = dropWhile (\<lambda>c. c = CHR '' '') args0
           in if u_strncmp cmdline ''echo'' 4 = 0 \<and> cmd_len = 4 then u_cmd_echo es args s
              else if u_strncmp cmdline ''version'' 7 = 0 \<and> cmd_len = 7 then u_puts_all es version_text s
              else if u_strncmp cmdline ''clear'' 5 = 0 \<and> cmd_len = 5 then u_puts es clear_text s
              else if u_strncmp cmdline ''help'' 4 = 0 \<and> cmd_len = 4 then u_puts_all es help_text s
              else u_puts es (''Unknown command'' @ [CHR 0x0A]) s)"

section \<open>The line editor and the main loop\<close>

text \<open>The characters \<open>buffer[0..pos-1]\<close> when the line ends; \<open>sizeof(buffer)\<close> is 64.\<close>

partial_function (option) user_line :: "(nat \<Rightarrow> env) \<Rightarrow> string \<Rightarrow> user_state \<Rightarrow> (string \<times> user_state) option" where
  "user_line es buffer s =
     do { (c, s1) \<leftarrow> u_getc es s;
          if c = CHR 0x0D \<or> c = CHR 0x0A then do { s2 \<leftarrow> u_putc es (CHR 0x0A) s1; Some (buffer, s2) }
          else if c = CHR 0x08 \<or> c = CHR 0x7F
          then if length buffer > 0
               then do { s2 \<leftarrow> u_puts es [CHR 0x08, CHR '' '', CHR 0x08] s1; user_line es (butlast buffer) s2 }
               else user_line es buffer s1
          else if length buffer < 64 - 1
          then do { s2 \<leftarrow> u_putc es c s1; user_line es (buffer @ [c]) s2 }
          else user_line es buffer s1 }"

text \<open>One round of the endless loop. A typed zero byte ends the C string in the buffer.\<close>

definition user_shell_iter :: "(nat \<Rightarrow> env) \<Rightarrow> user_state \<Rightarrow> user_state option" where
  "user_shell_iter es s =
     do { s1 \<leftarrow> u_puts es ''$ '' s;
          (buffer, s2) \<leftarrow> user_line es [] s1;
          execute_command es (takeWhile (\<lambda>c. c \<noteq> NUL) buffer) s2 }"

section \<open>The wrappers are a console\<close>

abbreviation u_sent :: "user_state \<Rightarrow> byte list" where
  "u_sent s \<equiv> tx (con (snd s))"

abbreviation u_pending :: "user_state \<Rightarrow> byte list" where
  "u_pending s \<equiv> rx (con (snd s))"

abbreviation u_live :: "user_state \<Rightarrow> bool" where
  "u_live s \<equiv> uart_fair (con (snd s))"

lemma SVC_ESR_ec: "drop_bit 26 SVC_ESR AND 0x3F = 0x15"
  by (simp add: SVC_ESR_def)

lemma char_through_u64: "of_u8 (ucast (of_nat (of_char c) :: u64)) = c"
proof -
  have "(of_char c :: nat) < 256" by simp
  then have "unat (ucast (of_nat (of_char c) :: u64) :: u8) = of_char c"
    by (simp add: unsigned_ucast_eq unat_of_nat take_bit_nat_eq_self del: of_char_lt_256)
  then show ?thesis by (simp add: of_u8_def)
qed

lemma u_putc_ok: "u_live s \<Longrightarrow> \<exists>s'. u_putc es c s = Some s' \<and> u_live s' \<and> u_sent s' = u_sent s @ [c] \<and> u_pending s' = u_pending s"
  using sys_putc_ok [OF SVC_ESR_ec, of "snd s" "es (fr_pos (con (snd s)))" _ "of_nat (of_char c)" 0 0 "fst s"]
  by (fastforce simp: u_putc_def svc_def char_through_u64 split: prod.splits)

lemma u_puts_ok: "u_live s \<Longrightarrow> \<exists>s'. u_puts es t s = Some s' \<and> u_live s' \<and> u_sent s' = u_sent s @ crlf t \<and> u_pending s' = u_pending s"
  using sys_puts_ok [OF SVC_ESR_ec, of "snd s" "\<lparr>message_at = (\<lambda>_. None), string_at = (\<lambda>_. Some t)\<rparr>" _ t "es (fr_pos (con (snd s)))" 0 0 "fst s"]
  by (fastforce simp: u_puts_def svc_def split: prod.splits)

lemma u_getc_ok:
  "u_live s \<Longrightarrow> u_pending s = c # cs \<Longrightarrow> \<exists>s'. u_getc es s = Some (c, s') \<and> u_live s' \<and> u_sent s' = u_sent s \<and> u_pending s' = cs"
  using sys_getc_ok [OF SVC_ESR_ec, of "snd s" c cs "es (fr_pos (con (snd s)))" _ 0 0 0 "fst s"]
  by (fastforce simp: u_getc_def svc_def char_through_u64 split: prod.splits)

lemma u_getc_blocks: "u_pending s = [] \<Longrightarrow> u_getc es s = None"
  by (cases s) (simp add: u_getc_def svc_def console_call_defs SVC_ESR_def uart_getc_def)

interpretation user_con: console "u_putc es" "u_getc es" u_sent u_pending u_live for es
  by unfold_locales (use u_putc_ok u_getc_ok u_getc_blocks in auto)

section \<open>The line editor\<close>

definition user_edit :: "string \<Rightarrow> byte \<Rightarrow> string" where
  "user_edit l c = (if is_erase c then butlast l else if length l < 63 then l @ [c] else l)"

lemma user_edit_bound: "length l \<le> 63 \<Longrightarrow> length (foldl user_edit l cs) \<le> 63"
  by (induction cs arbitrary: l) (auto simp: user_edit_def)

lemma user_edit_set: "set (foldl user_edit l cs) \<subseteq> set l \<union> set cs"
proof (induction cs arbitrary: l)
  case (Cons c cs)
  have "set (user_edit l c) \<subseteq> set l \<union> {c}" by (auto simp: user_edit_def dest: in_set_butlastD)
  with Cons.IH [of "user_edit l c"] show ?case by auto
qed simp

text \<open>Every key is taken, whatever it is and however full the buffer.\<close>

lemma user_line_key:
  assumes "u_live s" "u_pending s = c # cs" "\<not> is_eol c"
  obtains s' where "user_line es l s = user_line es (user_edit l c) s'" "u_live s'" "u_pending s' = cs" "\<exists>x. u_sent s' = u_sent s @ x"
proof -
  obtain s1 where s1: "u_getc es s = Some (c, s1)" "u_live s1" "u_pending s1 = cs" "u_sent s1 = u_sent s" using u_getc_ok [OF assms(1,2)] by blast
  have unfold: "user_line es l s =
      (if is_erase c then if l \<noteq> [] then Option.bind (u_puts es [CHR 0x08, CHR '' '', CHR 0x08] s1) (user_line es (butlast l)) else user_line es l s1
       else if length l < 63 then Option.bind (u_putc es c s1) (user_line es (l @ [c])) else user_line es l s1)"
    using s1(1) assms(3) by (subst user_line.simps) (auto simp: is_eol_def is_erase_def)
  obtain s2 where s2: "u_puts es [CHR 0x08, CHR '' '', CHR 0x08] s1 = Some s2" "u_live s2" "u_pending s2 = cs" "\<exists>x. u_sent s2 = u_sent s @ x"
    using u_puts_ok [OF s1(2)] s1(3,4) by metis
  obtain s3 where s3: "u_putc es c s1 = Some s3" "u_live s3" "u_pending s3 = cs" "\<exists>x. u_sent s3 = u_sent s @ x"
    using u_putc_ok [OF s1(2)] s1(3,4) by metis
  consider "is_erase c" "l \<noteq> []" | "is_erase c" "l = []" | "\<not> is_erase c" "length l < 63" | "\<not> is_erase c" "\<not> length l < 63" by blast
  then show thesis
  proof cases
    case 1
    with s2 show thesis by (intro that [of s2]) (simp_all add: unfold user_edit_def)
  next
    case 3
    with s3 show thesis by (intro that [of s3]) (simp_all add: unfold user_edit_def)
  next
    case 2
    with s1 show thesis using unfold by (intro that [of s1]) (simp_all add: user_edit_def)
  next
    case 4
    with s1 show thesis by (intro that [of s1]) (simp_all add: unfold user_edit_def)
  qed
qed

lemma user_line_edits:
  assumes "u_live s" "u_pending s = cs @ e # ds" "list_all (\<lambda>c. \<not> is_eol c) cs" "is_eol e"
  obtains s' where "user_line es l s = Some (foldl user_edit l cs, s')" "u_live s'" "u_pending s' = ds" "\<exists>x. u_sent s' = u_sent s @ x"
  using assms
proof (induction cs arbitrary: l s thesis)
  case Nil
  obtain s1 where s1: "u_getc es s = Some (e, s1)" "u_live s1" "u_pending s1 = ds" "u_sent s1 = u_sent s"
    using u_getc_ok [OF Nil.prems(2), of e ds es] Nil.prems(3) by (metis append_Nil)
  obtain s2 where s2: "u_putc es (CHR 0x0A) s1 = Some s2" "u_live s2" "u_pending s2 = ds" "\<exists>x. u_sent s2 = u_sent s @ x"
    using u_putc_ok [OF s1(2)] s1(3,4) by metis
  have "user_line es l s = Some (l, s2)" using s1(1) s2(1) Nil.prems(5) by (subst user_line.simps) (auto simp: is_eol_def)
  with s2 show ?case by (intro Nil.prems(1) [of s2]) simp_all
next
  case (Cons c cs)
  have "u_pending s = c # (cs @ e # ds)" "\<not> is_eol c" "list_all (\<lambda>c. \<not> is_eol c) cs" using Cons.prems by simp_all
  with user_line_key [OF Cons.prems(2)] obtain s1 where
    s1: "user_line es l s = user_line es (user_edit l c) s1" "u_live s1" "u_pending s1 = cs @ e # ds" "\<exists>x. u_sent s1 = u_sent s @ x" by metis
  from Cons.IH [OF _ s1(2,3) \<open>list_all (\<lambda>c. \<not> is_eol c) cs\<close> Cons.prems(5)] obtain s2 where
    "user_line es (user_edit l c) s1 = Some (foldl user_edit (user_edit l c) cs, s2)" "u_live s2" "u_pending s2 = ds" "\<exists>x. u_sent s2 = u_sent s1 @ x" by blast
  with s1(1,4) show ?case by (intro Cons.prems(1) [of s2]) (simp_all, metis append.assoc)
qed

section \<open>Commands\<close>

lemma u_puts_all_ok:
  "u_live s \<Longrightarrow> \<exists>s'. u_puts_all es ts s = Some s' \<and> u_live s' \<and> u_sent s' = u_sent s @ concat (map crlf ts) \<and> u_pending s' = u_pending s"
proof (induction ts arbitrary: s)
  case (Cons t ts)
  obtain s1 where s1: "u_puts es t s = Some s1" "u_live s1" "u_sent s1 = u_sent s @ crlf t" "u_pending s1 = u_pending s"
    using u_puts_ok [OF Cons.prems] by blast
  with Cons.IH [OF s1(2)] show ?case by auto
qed simp

lemma u_strlen_length: "u_strlen s = int (length s)"
  by (induction s) simp_all

lemma u_strncmp_eq: "NUL \<notin> set a \<Longrightarrow> NUL \<notin> set b \<Longrightarrow> u_strncmp a b n = 0 \<longleftrightarrow> take n a = take n b"
proof (induction n arbitrary: a b)
  case (Suc n)
  then show ?case by (cases a; cases b) (auto simp: cs_nth_def)
qed simp

text \<open>What a line is answered with, by its first word and what follows it.\<close>

definition user_reply :: "string \<Rightarrow> byte list" where
  "user_reply line =
     (case tokens '' '' line of
        [] \<Rightarrow> []
      | w # _ \<Rightarrow>
          if w = ''echo'' then crlf (dropWhile (\<lambda>c. c = CHR '' '') (drop 4 (dropWhile (\<lambda>c. c = CHR '' '') line))) @ [CHR 0x0A]
          else if w = ''version'' then concat (map crlf version_text)
          else if w = ''clear'' then crlf clear_text
          else if w = ''help'' then concat (map crlf help_text)
          else crlf (''Unknown command'' @ [CHR 0x0A]))"

text \<open>A word is recognised by comparing its length and that many characters.\<close>

lemma word_match:
  assumes "NUL \<notin> set t" "NUL \<notin> set w" "t \<noteq> []" "length w = n"
  shows "u_strncmp t w n = 0 \<and> length t - length (dropWhile (\<lambda>c. c \<noteq> CHR '' '') t) = n \<longleftrightarrow> takeWhile (\<lambda>c. c \<noteq> CHR '' '') t = w"
proof -
  let ?t = "takeWhile (\<lambda>c. c \<noteq> CHR '' '') t"
  define d where "d = dropWhile (\<lambda>c. c \<noteq> CHR '' '') t"
  have split: "t = ?t @ d" by (simp add: d_def)
  have "length t = length ?t + length d" by (subst split) simp
  then have l: "length t - length d = length ?t" by simp
  have "take n t = ?t" if "length ?t = n" using that by (subst split) simp
  moreover have "take n w = w" using assms(4) by simp
  ultimately show ?thesis using l assms(4) u_strncmp_eq [OF assms(1,2), of n] unfolding d_def [symmetric] by metis
qed

lemma tokens_first_word:
  "tokens '' '' line = (let t = dropWhile (\<lambda>c. c = CHR '' '') line in
     if t = [] then [] else takeWhile (\<lambda>c. c \<noteq> CHR '' '') t # tokens '' '' (tl (dropWhile (\<lambda>c. c \<noteq> CHR '' '') t)))"
  by (subst tokens.simps) (simp add: strtok_s_def Let_def)

lemma execute_command_reply:
  assumes "u_live s" "NUL \<notin> set line"
  shows "\<exists>s'. execute_command es line s = Some s' \<and> u_live s' \<and> u_sent s' = u_sent s @ user_reply line \<and> u_pending s' = u_pending s"
proof -
  define t where "t = dropWhile (\<lambda>c. c = CHR '' '') line"
  define w where "w = takeWhile (\<lambda>c. c \<noteq> CHR '' '') t"
  define a where "a = dropWhile (\<lambda>c. c = CHR '' '') (dropWhile (\<lambda>c. c \<noteq> CHR '' '') t)"
  have nt: "NUL \<notin> set t" using assms(2) by (auto simp: t_def dest: set_dropWhileD)
  have m: "u_strncmp t v (length v) = 0 \<and> length t - length (dropWhile (\<lambda>c. c \<noteq> CHR '' '') t) = length v \<longleftrightarrow> w = v"
    if "t \<noteq> []" "NUL \<notin> set v" for v using word_match [OF nt that(2,1) refl] by (simp add: w_def)
  have tok: "tokens '' '' line = (if t = [] then [] else w # tokens '' '' (tl (dropWhile (\<lambda>c. c \<noteq> CHR '' '') t)))"
    by (subst tokens_first_word) (simp only: Let_def t_def w_def)
  have a4: "drop 4 t = dropWhile (\<lambda>c. c \<noteq> CHR '' '') t" if "w = ''echo''"
  proof -
    have "t = w @ dropWhile (\<lambda>c. c \<noteq> CHR '' '') t" by (simp add: w_def)
    then have "drop 4 t = drop 4 (w @ dropWhile (\<lambda>c. c \<noteq> CHR '' '') t)" by simp
    then show ?thesis using that by simp
  qed
  have call: "execute_command es line s =
      (if t = [] then Some s else if w = ''echo'' then u_cmd_echo es a s else if w = ''version'' then u_puts_all es version_text s
       else if w = ''clear'' then u_puts es clear_text s else if w = ''help'' then u_puts_all es help_text s
       else u_puts es (''Unknown command'' @ [CHR 0x0A]) s)"
  proof (cases "t = []")
    case True
    then show ?thesis unfolding execute_command_def Let_def t_def [symmetric] by simp
  next
    case False
    have v: "length ''echo'' = 4" "length ''version'' = 7" "length ''clear'' = 5" "length ''help'' = 4"
      "NUL \<notin> set ''echo''" "NUL \<notin> set ''version''" "NUL \<notin> set ''clear''" "NUL \<notin> set ''help''" by simp_all
    show ?thesis
      unfolding execute_command_def Let_def t_def [symmetric] a_def [symmetric] if_not_P [OF False]
        m [OF False v(5), unfolded v] m [OF False v(6), unfolded v] m [OF False v(7), unfolded v] m [OF False v(8), unfolded v] ..
  qed
  consider "t = []" | "t \<noteq> []" "w = ''echo''" | "t \<noteq> []" "w \<noteq> ''echo''" by blast
  then show ?thesis
  proof cases
    case 1
    then show ?thesis using assms(1) call tok by (simp add: user_reply_def)
  next
    case 2
    obtain s1 where s1: "(if a \<noteq> [] then u_puts es a s else Some s) = Some s1" "u_live s1" "u_sent s1 = u_sent s @ crlf a" "u_pending s1 = u_pending s"
      using assms(1) u_puts_ok [OF assms(1), of es a] by (cases "a = []") auto
    have r: "user_reply line = crlf a @ [CHR 0x0A]" using 2 tok a4 by (simp add: user_reply_def a_def t_def [symmetric])
    show ?thesis using u_putc_ok [OF s1(2), of es "CHR 0x0A"] s1 2 unfolding call u_cmd_echo_def r by auto
  next
    case 3
    then have "user_reply line = (if w = ''version'' then concat (map crlf version_text) else if w = ''clear'' then crlf clear_text
        else if w = ''help'' then concat (map crlf help_text) else crlf (''Unknown command'' @ [CHR 0x0A]))"
      using tok by (simp add: user_reply_def)
    moreover have "execute_command es line s = (if w = ''version'' then u_puts_all es version_text s else if w = ''clear'' then u_puts es clear_text s
        else if w = ''help'' then u_puts_all es help_text s else u_puts es (''Unknown command'' @ [CHR 0x0A]) s)"
      using 3 unfolding call by simp
    ultimately show ?thesis
      using u_puts_all_ok [OF assms(1), of es version_text] u_puts_ok [OF assms(1), of es clear_text] u_puts_all_ok [OF assms(1), of es help_text]
        u_puts_ok [OF assms(1), of es "''Unknown command'' @ [CHR 0x0A]"] by presburger
  qed
qed

text \<open>C27: one round of the user shell returns for every typed line, however long: the line is cut to the 63 characters the buffer has room for, and the
  shell answers with the reply to its first word, sent through the system calls and the driver. \<close>

theorem user_shell_answers:
  assumes "u_live s" "u_pending s = keys @ e # ds" "list_all (\<lambda>c. \<not> is_eol c) keys" "is_eol e" "NUL \<notin> set keys"
  shows "\<exists>s' echo. user_shell_iter es s = Some s' \<and> u_live s' \<and> u_pending s' = ds \<and> length (foldl user_edit [] keys) \<le> 63
    \<and> u_sent s' = u_sent s @ ''$ '' @ echo @ user_reply (foldl user_edit [] keys)"
proof -
  let ?l = "foldl user_edit [] keys"
  obtain s1 where s1: "u_puts es ''$ '' s = Some s1" "u_live s1" "u_sent s1 = u_sent s @ ''$ ''" "u_pending s1 = keys @ e # ds"
    using u_puts_ok [OF assms(1), of es "''$ ''"] assms(2) by auto
  obtain s2 x where s2: "user_line es [] s1 = Some (?l, s2)" "u_live s2" "u_pending s2 = ds" "u_sent s2 = u_sent s1 @ x"
    using user_line_edits [OF s1(2,4) assms(3,4)] by blast
  have n: "NUL \<notin> set ?l" using user_edit_set [of "[]" keys] assms(5) by auto
  then have t: "takeWhile (\<lambda>c. c \<noteq> NUL) ?l = ?l" by (auto simp: takeWhile_eq_all_conv)
  obtain s3 where s3: "execute_command es ?l s2 = Some s3" "u_live s3" "u_sent s3 = u_sent s2 @ user_reply ?l" "u_pending s3 = u_pending s2"
    using execute_command_reply [OF s2(2) n] by blast
  have "user_shell_iter es s = Some s3" unfolding user_shell_iter_def s1(1) bind.bind_lunit s2(1) prod.case t s3(1) ..
  moreover have "u_sent s3 = u_sent s @ ''$ '' @ x @ user_reply ?l" using s3(3) s2(4) s1(3) by simp
  ultimately show ?thesis using s3(2,4) s2(3) user_edit_bound [of "[]" keys] by auto
qed

theorem user_shell_answers_witness:
  "\<exists>s' echo. user_shell_iter (\<lambda>_. demo_env) (demo_exn, typed [CHR '' '', CHR ''e'', CHR ''c'', CHR ''h'', CHR ''o'', CHR '' '', CHR ''a'', CHR 0x0D] demo_machine) = Some s'
    \<and> u_sent s' = ''$ '' @ echo @ [CHR ''a'', CHR 0x0A]"
proof -
  let ?k = "[CHR '' '', CHR ''e'', CHR ''c'', CHR ''h'', CHR ''o'', CHR '' '', CHR ''a'']"
  have l: "foldl user_edit [] ?k = ?k" by (simp add: user_edit_def is_erase_def)
  have r: "user_reply ?k = [CHR ''a'', CHR 0x0A]"
    unfolding user_reply_def by (subst tokens_first_word) simp
  have t: "tx idle_uart = []" by (simp add: idle_uart_def)
  from user_shell_answers [of "(demo_exn, typed (?k @ [CHR 0x0D]) demo_machine)" ?k "CHR 0x0D" "[]" "\<lambda>_. demo_env", unfolded l r]
  show ?thesis using idle_uart_fair by (auto simp: is_eol_def t)
qed

end
