(* ===== verification/Sched.thy ===== *)
theory Sched
  imports Process
begin

text \<open>
  Correctness of the process table: queues of messages between processes, the walks along the
  process list and what the scheduler picks.

  \<open>proc_inv\<close> is the invariant of the table once \<open>init_process\<close> has run; \<open>ksched_step\<close> is the relation
  of the kernel operations on it, and \<open>reachable\<close> the states they lead to.
\<close>

section \<open>Queueing and receiving messages\<close>

text \<open>\<open>queue_message\<close> and \<open>receive_message\<close> of \<open>src/src/kernel/message.c\<close>.\<close>

definition queue_message :: "proc_ptr \<Rightarrow> Message \<Rightarrow> ptable \<Rightarrow> int \<times> ptable" where
  "queue_message p msg s =
     (case mq_put (msg_queue (procs s p)) msg of
        None \<Rightarrow> (-1, s)
      | Some q \<Rightarrow> (0, pupd p (\<lambda>pr. pr\<lparr>msg_queue := q, msg_blocked := False\<rparr>) s))"

definition MSG_NONBLOCK :: int where
  "MSG_NONBLOCK = 1"

definition receive_message ::
  "Message \<Rightarrow> ptable \<Rightarrow> (sched_outcome option \<times> int \<times> Message \<times> ptable) option" where
  "receive_message msg s =
     do { c \<leftarrow> get_current_process s;
          case mq_get (msg_queue (procs s c)) of
            Some (m, q) \<Rightarrow> Some (None, 0, m, pupd c (\<lambda>pr. pr\<lparr>msg_queue := q\<rparr>) s)
          | None \<Rightarrow>
              if flags msg AND MSG_NONBLOCK = 0
              then do { (out, s') \<leftarrow> schedule (pupd c (\<lambda>pr. pr\<lparr>msg_blocked := True\<rparr>) s);
                        Some (Some out, -1, msg, s') }
              else Some (None, -1, msg, s) }"

section \<open>Field updates\<close>

lemma procs_pupd: "procs (pupd p f s) q = (if q = p then f (procs s p) else procs s q)"
  by (simp add: pupd_def)

lemma procs_pupd_same [simp]: "procs (pupd p f s) p = f (procs s p)"
  by (simp add: pupd_def)

lemma procs_pupd_other [simp]: "q \<noteq> p \<Longrightarrow> procs (pupd p f s) q = procs s q"
  by (simp add: pupd_def)

lemma pstate_pupd:
  "pstate (procs (pupd p f s) q) = (if q = p then pstate (f (procs s p)) else pstate (procs s q))"
  by (simp add: procs_pupd)

lemma pupd_frame [simp]:
  "process_count (pupd p f s) = process_count s"
  "ready_queue (pupd p f s) = ready_queue s"
  "current_process (pupd p f s) = current_process s"
  "process_list (pupd p f s) = process_list s"
  "next_pid (pupd p f s) = next_pid s"
  by (simp_all add: pupd_def)

section \<open>Linked lists\<close>

primrec chain :: "('p \<Rightarrow> 'p option) \<Rightarrow> 'p option \<Rightarrow> 'p list \<Rightarrow> bool" where
  "chain n p [] \<longleftrightarrow> p = None"
| "chain n p (x # xs) \<longleftrightarrow> p = Some x \<and> chain n (n x) xs"

lemma chain_cong: "(\<And>x. x \<in> set xs \<Longrightarrow> n x = n' x) \<Longrightarrow> chain n p xs = chain n' p xs"
  by (induction xs arbitrary: p) auto

lemma chain_unique: "chain n p xs \<Longrightarrow> chain n p ys \<Longrightarrow> xs = ys"
  by (induction xs arbitrary: p ys) (case_tac ys; auto)+

lemma chain_append: "chain n p (xs @ y # ys) \<Longrightarrow> chain n (Some y) (y # ys)"
  by (induction xs arbitrary: p) auto

lemma chain_distinct: "chain n p xs \<Longrightarrow> distinct xs"
proof (induction xs arbitrary: p)
  case Nil
  then show ?case by simp
next
  case (Cons x xs)
  have "x \<notin> set xs"
  proof
    assume "x \<in> set xs"
    then obtain us vs where xs: "xs = us @ x # vs" by (meson split_list)
    with Cons.prems have "chain n (Some x) (x # vs)"
      by (auto dest: chain_append)
    with Cons.prems have "x # xs = x # vs"
      by (intro chain_unique [of n "Some x"]) simp_all
    with xs show False by auto
  qed
  with Cons show ?case by auto
qed

text \<open>
  The contract of a loop \<open>for (p = list; p; p = p->next) if (test) return p;\<close>. Its clients know
  that the loop ends on every proper list and finds the first element that passes the test.
\<close>

locale chain_walk =
  fixes next_of :: "'p \<Rightarrow> 'p option"
    and test :: "'p \<Rightarrow> bool"
    and walk :: "'p option \<Rightarrow> 'p option option"
  assumes walk_None: "walk None = Some None"
    and walk_Some: "walk (Some p) = (if test p then Some (Some p) else walk (next_of p))"
begin

lemma walk_find: "chain next_of p xs \<Longrightarrow> walk p = Some (find test xs)"
  by (induction xs arbitrary: p) (auto simp: walk_None walk_Some)

lemma walk_hit: "chain next_of p xs \<Longrightarrow> walk p = Some (Some q) \<Longrightarrow> q \<in> set xs \<and> test q"
  by (auto simp: walk_find find_Some_iff)

lemma walk_miss: "chain next_of p xs \<Longrightarrow> walk p = Some None \<longleftrightarrow> (\<forall>q \<in> set xs. \<not> test q)"
  by (auto simp: walk_find find_None_iff)

end

interpretation ready_walk: chain_walk "\<lambda>p. nxt (procs s p)" "\<lambda>p. pstate (procs s p) = PROC_READY" "sched_scan s"
  for s
  by unfold_locales (subst sched_scan.simps, auto)+

interpretation pid_walk: chain_walk "\<lambda>p. nxt (procs s p)" "\<lambda>p. pid (procs s p) = i" "find_process_from s i"
  for s i
  by unfold_locales (subst find_process_from.simps, auto)+

interpretation child_walk: chain_walk "\<lambda>p. nxt (procs s p)"
  "\<lambda>p. parent_pid (procs s p) = me \<and> pstate (procs s p) = PROC_ZOMBIE" "wait_scan s me"
  for s me
  by unfold_locales (subst wait_scan.simps, auto)+

section \<open>The invariant of the table\<close>

definition plist :: "ptable \<Rightarrow> proc_ptr list \<Rightarrow> bool" where
  "plist s xs \<longleftrightarrow> chain (\<lambda>p. nxt (procs s p)) (process_list s) xs"

text \<open>
  The list part: a proper list whose array elements are below \<open>process_count\<close>, with process
  numbers that are distinct and have been handed out.
\<close>

definition list_inv :: "ptable \<Rightarrow> proc_ptr list \<Rightarrow> bool" where
  "list_inv s xs \<longleftrightarrow> plist s xs \<and> process_count s \<le> MAX_PROCESSES
     \<and> (\<forall>i. Slot i \<in> set xs \<longrightarrow> i < process_count s)
     \<and> distinct (map (\<lambda>p. pid (procs s p)) xs) \<and> (\<forall>p \<in> set xs. pid (procs s p) < next_pid s)"

text \<open>The scheduling part: the current process, and no other, is running.\<close>

definition run_inv :: "ptable \<Rightarrow> proc_ptr list \<Rightarrow> bool" where
  "run_inv s xs \<longleftrightarrow> (\<exists>c \<in> set xs. current_process s = Some c \<and> pstate (procs s c) = PROC_RUNNING
     \<and> (\<forall>p \<in> set xs. p \<noteq> c \<longrightarrow> pstate (procs s p) \<noteq> PROC_RUNNING))"

definition proc_inv :: "ptable \<Rightarrow> bool" where
  "proc_inv s \<longleftrightarrow> (\<exists>xs. list_inv s xs \<and> run_inv s xs)"

lemma plist_pupd:
  assumes "\<And>pr. nxt (f pr) = nxt pr"
  shows "plist (pupd p f s) xs \<longleftrightarrow> plist s xs"
  unfolding plist_def pupd_frame by (rule chain_cong) (simp add: procs_pupd assms)

lemma list_inv_pupd [inv_intros]:
  assumes "\<And>pr. nxt (f pr) = nxt pr" "\<And>pr. pid (f pr) = pid pr"
  shows "list_inv (pupd p f s) xs \<longleftrightarrow> list_inv s xs"
proof -
  have "pid (procs (pupd p f s) q) = pid (procs s q)" for q
    by (simp add: procs_pupd assms)
  then show ?thesis
    by (simp add: list_inv_def plist_pupd assms)
qed

lemma list_inv_current [simp]: "list_inv (s\<lparr>current_process := c\<rparr>) xs \<longleftrightarrow> list_inv s xs"
  by (simp add: list_inv_def plist_def)

lemma list_invD: "list_inv s xs \<Longrightarrow> plist s xs"
  by (simp add: list_inv_def)

lemma list_inv_unique: "list_inv s xs \<Longrightarrow> list_inv s ys \<Longrightarrow> xs = ys"
  unfolding list_inv_def plist_def by (blast intro: chain_unique)

section \<open>What the scheduler does\<close>

lemma schedule_find:
  assumes "plist s xs"
  shows "schedule s = Some (case find (\<lambda>p. pstate (procs s p) = PROC_READY) xs of
    None \<Rightarrow> (Idle, s) | Some n \<Rightarrow> (Switch (current_process s) n, dispatch n s))"
  using ready_walk.walk_find [of s "process_list s" xs] assms
  by (simp add: schedule_def plist_def split: option.split)

lemma dispatch_frame [simp]:
  "process_count (dispatch n s) = process_count s" "ready_queue (dispatch n s) = ready_queue s"
  "current_process (dispatch n s) = Some n" "process_list (dispatch n s) = process_list s"
  "next_pid (dispatch n s) = next_pid s"
  by (auto simp: dispatch_def Let_def split: option.split)

text \<open>\<open>dispatch\<close> only writes the state field of the two processes.\<close>

lemma dispatch_procs:
  "procs (dispatch n s) p = (procs s p)\<lparr>pstate :=
     if current_process s = Some p \<and> (p = n \<or> pstate (procs s p) = PROC_RUNNING) then PROC_READY
     else if p = n then PROC_RUNNING else pstate (procs s p)\<rparr>"
  by (auto simp: dispatch_def get_current_process_def Let_def procs_pupd split: option.split)

lemma list_inv_dispatch [inv_intros]: "list_inv (dispatch n s) xs \<longleftrightarrow> list_inv s xs"
  by (auto simp: list_inv_def plist_def dispatch_procs)

text \<open>
  From a state in which the current process has left the running state (or is still running), the
  scheduler restores the scheduling part of the invariant.
\<close>

lemma schedule_run_inv:
  assumes "list_inv s xs" "current_process s = Some c" "c \<in> set xs" "pstate (procs s c) \<noteq> PROC_READY"
    and "\<forall>p \<in> set xs. p \<noteq> c \<longrightarrow> pstate (procs s p) \<noteq> PROC_RUNNING"
    and "schedule s = Some (Switch o1 n, s')"
  shows "list_inv s' xs \<and> run_inv s' xs"
proof -
  have "find (\<lambda>p. pstate (procs s p) = PROC_READY) xs = Some n" and s': "s' = dispatch n s"
    using assms(1,6) schedule_find [of s xs] by (auto simp: list_inv_def split: option.splits)
  then have n: "n \<in> set xs" "pstate (procs s n) = PROC_READY"
    by (auto simp: find_Some_iff)
  with assms(4) have cn: "c \<noteq> n" by auto
  have "pstate (procs s' n) = PROC_RUNNING"
    using cn assms(2) by (simp add: s' dispatch_procs)
  moreover have "p = n" if "p \<in> set xs" "pstate (procs s' p) = PROC_RUNNING" for p
  proof (rule ccontr)
    assume "p \<noteq> n"
    then have "p \<noteq> c" "pstate (procs s p) = PROC_RUNNING"
      using that(2) assms(2) by (auto simp: s' dispatch_procs split: if_splits)
    with assms(5) that(1) show False by blast
  qed
  moreover have "current_process s' = Some n"
    by (simp add: s')
  ultimately have "run_inv s' xs"
    using n(1) unfolding run_inv_def by blast
  with assms(1) s' show ?thesis by (simp add: list_inv_dispatch)
qed

section \<open>The kernel operations keep the invariant\<close>

lemma proc_inv_pupd [inv_intros]:
  assumes "proc_inv s" "\<And>pr. nxt (f pr) = nxt pr" "\<And>pr. pid (f pr) = pid pr" "\<And>pr. pstate (f pr) = pstate pr"
  shows "proc_inv (pupd p f s)"
proof -
  have "pstate (procs (pupd p f s) q) = pstate (procs s q)" for q
    by (simp add: procs_pupd assms)
  with assms show ?thesis
    by (simp add: proc_inv_def run_inv_def list_inv_pupd)
qed

lemma init_process_inv: "proc_inv (init_process lm s)"
  unfolding proc_inv_def
  by (rule exI [of _ "[Slot 0]"])
     (simp add: list_inv_def run_inv_def plist_def init_process_def Let_def MAX_PROCESSES_def)

text \<open>The table after a fork: one more process at the head of the list, everything else as before.\<close>

lemma create_process_Some:
  assumes "create_process lm s = Some (new, s')"
  obtains cur where "current_process s = Some cur" "new = Slot (process_count s)"
    "process_count s < MAX_PROCESSES" "process_count s' = process_count s + 1"
    "next_pid s' = next_pid s + 1" "current_process s' = Some cur" "process_list s' = Some new"
    "\<And>q. q \<noteq> new \<Longrightarrow> procs s' q = procs s q"
    "pid (procs s' new) = next_pid s" "pstate (procs s' new) = PROC_READY"
    "nxt (procs s' new) = process_list s"
    "cur \<noteq> new \<Longrightarrow> parent_pid (procs s' new) = pid (procs s cur)"
    "ready_queue s' = ready_queue s"
proof -
  from assms obtain cur where cur: "current_process s = Some cur"
    and cnt: "process_count s < MAX_PROCESSES" and new: "new = Slot (process_count s)"
    by (auto simp: create_process_def get_current_process_def Let_def split: if_splits)
  with assms have s': "s' = snd (the (create_process lm s))" by simp
  show thesis
    by (rule that [OF cur new cnt])
       (simp_all add: s' create_process_def get_current_process_def Let_def procs_pupd cur cnt new)
qed

lemma list_inv_Cons:
  assumes "list_inv s xs" "current_process s = Some c" "new = Slot (process_count s)"
    "process_count s < MAX_PROCESSES" "process_count s' = process_count s + 1"
    "next_pid s' = next_pid s + 1" "process_list s' = Some new"
    "\<And>q. q \<noteq> new \<Longrightarrow> procs s' q = procs s q"
    "pid (procs s' new) = next_pid s" "nxt (procs s' new) = process_list s"
  shows "list_inv s' (new # xs)"
proof -
  have fresh: "new \<notin> set xs"
    using assms(1,3) by (auto simp: list_inv_def)
  then have same: "procs s' q = procs s q" if "q \<in> set xs" for q
    using assms(8) that by metis
  then have "chain (\<lambda>p. nxt (procs s' p)) (process_list s) xs"
    using assms(1) by (simp add: list_inv_def plist_def cong: chain_cong)
  moreover have pids: "map (\<lambda>p. pid (procs s' p)) xs = map (\<lambda>p. pid (procs s p)) xs"
    using same by simp
  have "distinct (map (\<lambda>p. pid (procs s' p)) xs)"
    unfolding pids using assms(1) by (simp add: list_inv_def)
  moreover have "next_pid s \<notin> (\<lambda>p. pid (procs s' p)) ` set xs"
    using assms(1) same by (auto simp: list_inv_def)
  moreover have "\<forall>p \<in> set xs. pid (procs s' p) < next_pid s'"
    using assms(1,6) same by (fastforce simp: list_inv_def)
  moreover have "\<forall>i. Slot i \<in> set xs \<longrightarrow> i < process_count s'"
    using assms(1,5) by (fastforce simp: list_inv_def)
  ultimately show ?thesis
    using assms(1,3,4,5,6,7,9,10) by (simp add: list_inv_def plist_def MAX_PROCESSES_def)
qed

lemma handle_fork_Some:
  assumes "handle_fork_message lm msg s = Some (r, msg', s')"
  obtains cur new where "current_process s = Some cur" "new = Slot (process_count s)"
    "process_count s < MAX_PROCESSES" "process_count s' = process_count s + 1"
    "next_pid s' = next_pid s + 1" "current_process s' = Some cur" "process_list s' = Some new"
    "\<And>q. q \<noteq> new \<Longrightarrow> procs s' q = procs s q"
    "pid (procs s' new) = next_pid s" "pstate (procs s' new) = PROC_READY"
    "nxt (procs s' new) = process_list s"
    "cur \<noteq> new \<Longrightarrow> parent_pid (procs s' new) = pid (procs s cur)"
    "r = 0" "msg' = msg\<lparr>msg_pid := next_pid s, status := 0\<rparr>"
proof -
  from assms obtain cur new s1 where c: "current_process s = Some cur"
    and cp: "create_process lm s = Some (new, s1)"
    by (auto simp: handle_fork_message_def get_current_process_def)
  obtain f g where s': "s' = pupd new g (pupd new f s1)"
    and fg: "\<And>pr. pid (g (f pr)) = pid pr" "\<And>pr. nxt (g (f pr)) = nxt pr"
      "\<And>pr. pstate (g (f pr)) = PROC_READY" "\<And>pr. parent_pid (g (f pr)) = pid (procs s1 cur)"
    and r: "r = 0" "msg' = msg\<lparr>msg_pid := pid (procs s' new), status := 0\<rparr>"
    using assms c cp by (force simp: handle_fork_message_def get_current_process_def Let_def)
  show thesis
  proof (rule create_process_Some [OF cp])
    fix cur'
    assume a: "current_process s = Some cur'" "new = Slot (process_count s)"
      "process_count s < MAX_PROCESSES" "process_count s1 = process_count s + 1"
      "next_pid s1 = next_pid s + 1" "current_process s1 = Some cur'" "process_list s1 = Some new"
      "\<And>q. q \<noteq> new \<Longrightarrow> procs s1 q = procs s q" "pid (procs s1 new) = next_pid s"
      "nxt (procs s1 new) = process_list s"
    with c have "cur' = cur" by simp
    with a show thesis
      by (intro that [of cur new]) (simp_all add: s' r fg)
  qed
qed

lemma handle_fork_inv [inv_intros]:
  assumes "proc_inv s" "handle_fork_message lm msg s = Some (r, msg', s')"
  shows "proc_inv s'"
proof -
  from assms(1) obtain xs where xs: "list_inv s xs" "run_inv s xs"
    by (auto simp: proc_inv_def)
  from assms(2) show ?thesis
  proof (cases rule: handle_fork_Some)
    case (1 cur new)
    then have l: "list_inv s' (new # xs)"
      using xs(1) by (intro list_inv_Cons [of s xs cur new]) auto
    have fresh: "new \<notin> set xs"
      using xs(1) 1(2) by (auto simp: list_inv_def)
    then have "run_inv s' (new # xs)"
      using xs(2) 1(1,6,8,10) by (fastforce simp: run_inv_def)
    with l show ?thesis by (auto simp: proc_inv_def)
  qed
qed

lemma schedule_inv [inv_intros]:
  assumes "proc_inv s" "schedule s = Some (Switch o1 n, s')"
  shows "proc_inv s'"
proof -
  from assms(1) obtain xs c where *: "list_inv s xs" "current_process s = Some c" "c \<in> set xs"
    "pstate (procs s c) = PROC_RUNNING" "\<forall>p \<in> set xs. p \<noteq> c \<longrightarrow> pstate (procs s p) \<noteq> PROC_RUNNING"
    by (auto simp: proc_inv_def run_inv_def)
  from *(4) have "pstate (procs s c) \<noteq> PROC_READY" by simp
  from schedule_run_inv [OF *(1-3) this *(5) assms(2)] show ?thesis
    unfolding proc_inv_def by blast
qed

text \<open>The current process gives up the processor with a state other than ready.\<close>

lemma leave_inv:
  assumes "proc_inv s" "current_process s = Some c" "st \<noteq> PROC_READY" "st \<noteq> PROC_RUNNING"
    and s1: "s1 = pupd c f s"
    and f: "\<And>pr. nxt (f pr) = nxt pr" "\<And>pr. pid (f pr) = pid pr" "\<And>pr. pstate (f pr) = st"
  obtains xs where "list_inv s1 xs" "current_process s1 = Some c" "c \<in> set xs"
    "pstate (procs s1 c) = st" "\<forall>p \<in> set xs. pstate (procs s1 p) \<noteq> PROC_RUNNING"
    "\<And>p. p \<noteq> c \<Longrightarrow> procs s1 p = procs s p"
proof -
  from assms(1,2) obtain xs where xs: "list_inv s xs" "c \<in> set xs"
    "\<forall>p \<in> set xs. p \<noteq> c \<longrightarrow> pstate (procs s p) \<noteq> PROC_RUNNING"
    by (auto simp: proc_inv_def run_inv_def)
  have "list_inv s1 xs"
    using xs(1) by (simp add: s1 list_inv_pupd f)
  moreover have "\<forall>p \<in> set xs. pstate (procs s1 p) \<noteq> PROC_RUNNING"
    using xs(3) assms(4) by (simp add: s1 procs_pupd f)
  ultimately show thesis
    using xs(2) assms(2) by (intro that [of xs]) (simp_all add: s1 f)
qed

lemma block_inv [inv_intros]:
  assumes "proc_inv s" "current_process s = Some c"
    and "schedule (pupd c (\<lambda>pr. pr\<lparr>pstate := PROC_BLOCKED\<rparr>) s) = Some (Switch o1 n, s')"
  shows "proc_inv s'"
proof -
  let ?s1 = "pupd c (\<lambda>pr. pr\<lparr>pstate := PROC_BLOCKED\<rparr>) s"
  from leave_inv [OF assms(1,2), of PROC_BLOCKED ?s1 "\<lambda>pr. pr\<lparr>pstate := PROC_BLOCKED\<rparr>"] obtain xs
    where xs: "list_inv ?s1 xs" "current_process ?s1 = Some c" "c \<in> set xs"
      "pstate (procs ?s1 c) \<noteq> PROC_READY" "\<forall>p \<in> set xs. pstate (procs ?s1 p) \<noteq> PROC_RUNNING"
    by auto
  with schedule_run_inv [OF xs(1-4) _ assms(3)] show ?thesis
    unfolding proc_inv_def by blast
qed

lemma exit_process_cases:
  assumes "exit_process st s = Some (out, s')"
  obtains c s1 s2 where "current_process s = Some c"
    "s1 = pupd c (\<lambda>pr. pr\<lparr>pstate := PROC_ZOMBIE, exit_status := st\<rparr>) s"
    "s2 = s1 \<or> (\<exists>q. pstate (procs s1 q) = PROC_BLOCKED \<and> s2 = pupd q (\<lambda>pr. pr\<lparr>pstate := PROC_READY\<rparr>) s1)"
    "schedule s2 = Some (out, s')"
proof -
  from assms obtain c where c: "current_process s = Some c"
    by (auto simp: exit_process_def get_current_process_def)
  define s1 where "s1 = pupd c (\<lambda>pr. pr\<lparr>pstate := PROC_ZOMBIE, exit_status := st\<rparr>) s"
  obtain r where "schedule (case r of
      Some q \<Rightarrow> if pstate (procs s1 q) = PROC_BLOCKED
                then pupd q (\<lambda>pr. pr\<lparr>pstate := PROC_READY\<rparr>) s1 else s1
    | None \<Rightarrow> s1) = Some (out, s')"
    using assms
    unfolding exit_process_def get_current_process_def c Let_def bind.bind_lunit s1_def [symmetric] by auto
  then show thesis
    by (rule that [OF c s1_def, rotated]) (auto split: option.split)
qed

lemma exit_process_inv [inv_intros]:
  assumes "proc_inv s" "exit_process st s = Some (Switch o1 n, s')"
  shows "proc_inv s'"
proof -
  from assms(2) obtain c s1 s2 where c: "current_process s = Some c"
    and s1: "s1 = pupd c (\<lambda>pr. pr\<lparr>pstate := PROC_ZOMBIE, exit_status := st\<rparr>) s"
    and s2: "schedule s2 = Some (Switch o1 n, s')"
    and "s2 = s1 \<or> (\<exists>q. pstate (procs s1 q) = PROC_BLOCKED \<and> s2 = pupd q (\<lambda>pr. pr\<lparr>pstate := PROC_READY\<rparr>) s1)"
    by (rule exit_process_cases)
  moreover obtain xs where xs: "list_inv s1 xs" "current_process s1 = Some c" "c \<in> set xs"
      "pstate (procs s1 c) = PROC_ZOMBIE" "\<forall>p \<in> set xs. pstate (procs s1 p) \<noteq> PROC_RUNNING"
    by (rule leave_inv [OF assms(1) c _ _ s1, of PROC_ZOMBIE]) simp_all
  ultimately have "list_inv s2 xs" "current_process s2 = Some c" "pstate (procs s2 c) \<noteq> PROC_READY"
    "\<forall>p \<in> set xs. pstate (procs s2 p) \<noteq> PROC_RUNNING"
    using xs by (auto simp: list_inv_pupd pstate_pupd split: if_splits)
  with schedule_run_inv [of s2 xs c, OF _ _ xs(3) _ _ s2] show ?thesis
    unfolding proc_inv_def by blast
qed

lemma handle_wait_cases:
  assumes "handle_wait_message msg s = Some (out, r, msg', s')"
  obtains (reap) c p where "current_process s = Some c" "out = None" "r = 0"
      "wait_scan s (pid (procs s c)) (process_list s) = Some (Some p)"
      "s' = pupd p (\<lambda>pr. pr\<lparr>pstate := PROC_DEAD\<rparr>) s"
      "msg' = msg\<lparr>status := exit_status (procs s p), msg_pid := pid (procs s p)\<rparr>"
  | (sleep) c o1 where "current_process s = Some c" "out = Some o1" "r = 0" "msg' = msg\<lparr>status := 0\<rparr>"
      "wait_scan s (pid (procs s c)) (process_list s) = Some None"
      "schedule (pupd c (\<lambda>pr. pr\<lparr>pstate := PROC_BLOCKED\<rparr>) s) = Some (o1, s')"
  using assms
  by (auto simp: handle_wait_message_def get_current_process_def split: option.splits)

lemma handle_wait_inv [inv_intros]:
  assumes "proc_inv s" "handle_wait_message msg s = Some (out, r, msg', s')" "out \<noteq> Some Idle"
  shows "proc_inv s'"
  using assms(2)
proof (cases rule: handle_wait_cases)
  case (reap c p)
  from assms(1) obtain xs where xs: "list_inv s xs" "run_inv s xs" by (auto simp: proc_inv_def)
  then have "pstate (procs s p) = PROC_ZOMBIE"
    using child_walk.walk_hit [OF _ reap(4)] by (auto simp: list_inv_def plist_def)
  with xs reap(5) have "list_inv s' xs" "run_inv s' xs"
    by (simp add: list_inv_pupd, unfold run_inv_def reap(5) pstate_pupd, fastforce)
  then show ?thesis by (auto simp: proc_inv_def)
next
  case (sleep c o1)
  with assms(1,3) show ?thesis
    by (cases o1) (auto intro: block_inv)
qed

lemma queue_message_inv [inv_intros]: "proc_inv s \<Longrightarrow> proc_inv (snd (queue_message p msg s))"
  by (auto simp: queue_message_def intro: proc_inv_pupd split: option.splits)

lemma receive_message_inv [inv_intros]:
  assumes "proc_inv s" "receive_message msg s = Some (out, r, msg', s')" "out \<noteq> Some Idle"
  shows "proc_inv s'"
proof -
  from assms(2) obtain c where c: "current_process s = Some c"
    by (auto simp: receive_message_def get_current_process_def)
  consider "s' = s" | q where "s' = pupd c (\<lambda>pr. pr\<lparr>msg_queue := q\<rparr>) s"
    | o1 where "out = Some o1" "schedule (pupd c (\<lambda>pr. pr\<lparr>msg_blocked := True\<rparr>) s) = Some (o1, s')"
    using assms(2) c
    by (auto simp: receive_message_def get_current_process_def split: option.splits if_splits)
  then show ?thesis
  proof cases
    case 3
    with assms(3) obtain o2 n where "o1 = Switch o2 n" by (cases o1) auto
    moreover have "proc_inv (pupd c (\<lambda>pr. pr\<lparr>msg_blocked := True\<rparr>) s)"
      using assms(1) by (rule proc_inv_pupd) simp_all
    ultimately show ?thesis using 3 by (auto dest: schedule_inv)
  qed (use assms(1) in \<open>auto intro: proc_inv_pupd\<close>)
qed

lemma handle_exec_inv [inv_intros]:
  "proc_inv s \<Longrightarrow> handle_exec_message a msg s = Some (r, s') \<Longrightarrow> proc_inv s'"
  by (auto simp: handle_exec_message_def Let_def intro!: proc_inv_pupd split: if_splits option.splits)

section \<open>The kernel as a state machine\<close>

text \<open>
  One step is one operation of the running process, up to the point where it has switched away or
  returned, from \<open>init_process\<close> on. An operation that enters the idle loop has no successor. \<open>Sched_Runs\<close> adds \<open>process_create\<close>,
  \<open>process_exit\<close>, the idle loop and the start without \<open>init_process\<close>.
\<close>

inductive ksched_step :: "link_map \<Rightarrow> ptable \<Rightarrow> ptable \<Rightarrow> bool" for lm where
  fork: "handle_fork_message lm msg s = Some (r, msg', s') \<Longrightarrow> ksched_step lm s s'"
| yield: "schedule s = Some (Switch o1 n, s') \<Longrightarrow> ksched_step lm s s'"
| exit: "exit_process st s = Some (Switch o1 n, s') \<Longrightarrow> ksched_step lm s s'"
| wait: "handle_wait_message msg s = Some (out, r, msg', s') \<Longrightarrow> out \<noteq> Some Idle \<Longrightarrow> ksched_step lm s s'"
| wait_child: "wait_for_child s = Some (Switch o1 n, s') \<Longrightarrow> ksched_step lm s s'"
| queue: "queue_message p msg s = (r, s') \<Longrightarrow> ksched_step lm s s'"
| receive: "receive_message msg s = Some (out, r, msg', s') \<Longrightarrow> out \<noteq> Some Idle \<Longrightarrow> ksched_step lm s s'"
| exec: "handle_exec_message a msg s = Some (r, s') \<Longrightarrow> ksched_step lm s s'"

inductive reachable :: "link_map \<Rightarrow> ptable \<Rightarrow> bool" for lm where
  start: "reachable lm (init_process lm s)"
| step: "reachable lm s \<Longrightarrow> ksched_step lm s s' \<Longrightarrow> reachable lm s'"

lemma ksched_step_inv:
  assumes "ksched_step lm s s'" "proc_inv s"
  shows "proc_inv s'"
  using assms(1)
proof cases
  case (wait_child o1 n)
  then show ?thesis
    using assms(2) by (auto simp: wait_for_child_def get_current_process_def intro: block_inv)
next
  case (queue p msg r)
  then show ?thesis
    using queue_message_inv [OF assms(2), of p msg] by simp
qed (use assms(2) in \<open>auto intro: inv_intros\<close>)

interpretation sched_kept: kept proc_inv "ksched_step lm" for lm
  by unfold_locales (rule ksched_step_inv)

lemma reachable_proc_inv: "reachable lm s \<Longrightarrow> proc_inv s"
  by (induction rule: reachable.induct) (auto intro: init_process_inv sched_kept.step_inv)

end
