(* ===== verification/Proc_Props.thy ===== *)
theory Proc_Props
  imports Sched
begin

text \<open>
  What the process table and the message queues guarantee: the properties of the two components,
  stated over the definitions of \<open>Process\<close> and \<open>Msg_Queue\<close> and proved from the invariants of \<open>Sched\<close>.
\<close>

section \<open>Properties\<close>

text \<open>A table for the witnesses: the process of \<open>init_process\<close>, its stacks linked at 0x1000.\<close>

definition demo_link :: link_map where
  "demo_link = \<lparr>process_stacks = 0x1000, process3 = 0x40001000\<rparr>"

definition demo_table :: ptable where
  "demo_table = init_process demo_link ptable0"

text \<open>The same table after one fork: process 2 at the head of the list, ready.\<close>

definition demo_forked :: ptable where
  "demo_forked = (case handle_fork_message demo_link (blank_message 8) demo_table of
     Some (r, m, s) \<Rightarrow> s | None \<Rightarrow> demo_table)"

lemma demo_forked_simps:
  "procs demo_forked (Slot 0) = procs demo_table (Slot 0)"
  "pid (procs demo_forked (Slot 1)) = 2" "parent_pid (procs demo_forked (Slot 1)) = 1"
  "pstate (procs demo_forked (Slot 1)) = PROC_READY" "nxt (procs demo_forked (Slot 1)) = Some (Slot 0)"
  "process_list demo_forked = Some (Slot 1)" "current_process demo_forked = Some (Slot 0)"
  "process_count demo_forked = 2" "next_pid demo_forked = 3"
  by (simp_all add: demo_forked_def demo_table_def init_process_def handle_fork_message_def
      create_process_def get_current_process_def MAX_PROCESSES_def Let_def procs_pupd ptable0_def zero_process_def)

lemmas demo_forked_Suc = demo_forked_simps [unfolded One_nat_def]

lemma demo_table_simps:
  "pid (procs demo_table (Slot 0)) = 1" "pstate (procs demo_table (Slot 0)) = PROC_RUNNING"
  "nxt (procs demo_table (Slot 0)) = None" "process_list demo_table = Some (Slot 0)"
  "parent_pid (procs demo_table (Slot 0)) = 0"
  "process_count demo_table = 1" "current_process demo_table = Some (Slot 0)" "next_pid demo_table = 2"
  by (simp_all add: demo_table_def init_process_def Let_def)

lemma demo_forked_fork:
  "\<exists>m. handle_fork_message demo_link (blank_message 8) demo_table = Some (0, m, demo_forked)"
  by (simp add: demo_forked_def demo_table_def init_process_def handle_fork_message_def
      create_process_def get_current_process_def MAX_PROCESSES_def Let_def procs_pupd)

lemma demo_plist: "plist demo_forked [Slot 1, Slot 0]"
  by (simp add: plist_def demo_forked_simps demo_forked_Suc demo_table_simps)

lemma demo_reachable: "reachable demo_link demo_forked"
proof -
  from demo_forked_fork obtain m
    where "handle_fork_message demo_link (blank_message 8) demo_table = Some (0, m, demo_forked)" by blast
  then have "ksched_step demo_link demo_table demo_forked" by (rule ksched_step.fork)
  then show ?thesis
    unfolding demo_table_def by (rule reachable.step [OF reachable.start])
qed

text \<open>The forked table after the parent yields and the child exits with status 7.\<close>

definition demo_exited :: ptable where
  "demo_exited = dispatch (Slot 0)
     (pupd (Slot 1) (\<lambda>pr. pr\<lparr>pstate := PROC_ZOMBIE, exit_status := 7\<rparr>) (dispatch (Slot 1) demo_forked))"

lemma demo_exited_simps:
  "plist demo_exited [Slot 1, Slot 0]" "pstate (procs demo_exited (Slot 1)) = PROC_ZOMBIE"
  "pstate (procs demo_exited (Slot 0)) = PROC_RUNNING" "current_process demo_exited = Some (Slot 0)"
  "exit_status (procs demo_exited (Slot 1)) = 7" "parent_pid (procs demo_exited (Slot 1)) = 1"
  "pid (procs demo_exited (Slot 1)) = 2" "pid (procs demo_exited (Slot 0)) = 1"
  using demo_plist
  by (simp_all add: demo_exited_def plist_def procs_pupd dispatch_procs demo_forked_simps demo_forked_Suc
      demo_table_simps)

lemma demo_yield: "schedule demo_forked = Some (Switch (Some (Slot 0)) (Slot 1), dispatch (Slot 1) demo_forked)"
  using schedule_find [OF demo_plist] by (simp add: demo_forked_simps demo_forked_Suc)

lemma demo_exit:
  "exit_process 7 (dispatch (Slot 1) demo_forked) = Some (Switch (Some (Slot 1)) (Slot 0), demo_exited)"
proof -
  let ?s = "dispatch (Slot 1) demo_forked"
  let ?s1 = "pupd (Slot 1) (\<lambda>pr. pr\<lparr>pstate := PROC_ZOMBIE, exit_status := 7\<rparr>) ?s"
  have "plist ?s [Slot 1, Slot 0]"
    using demo_plist by (simp add: plist_def dispatch_procs)
  then have l1: "plist ?s1 [Slot 1, Slot 0]" by (simp add: plist_pupd)
  have "find_process 1 ?s1 = Some (find (\<lambda>p. pid (procs ?s1 p) = 1) [Slot 1, Slot 0])"
    unfolding find_process_def by (rule pid_walk.walk_find) (rule l1 [unfolded plist_def])
  then have "find_process 1 ?s1 = Some (Some (Slot 0))"
    by (simp add: procs_pupd dispatch_procs demo_forked_simps demo_forked_Suc demo_table_simps)
  then have "exit_process 7 ?s = schedule ?s1"
    by (simp add: exit_process_def get_current_process_def Let_def procs_pupd dispatch_procs
        demo_forked_simps demo_forked_Suc demo_table_simps)
  also have "\<dots> = Some (Switch (Some (Slot 1)) (Slot 0), dispatch (Slot 0) ?s1)"
    using schedule_find [OF l1]
    by (simp add: procs_pupd dispatch_procs demo_forked_simps demo_forked_Suc demo_table_simps)
  finally show ?thesis
    by (simp add: demo_exited_def)
qed

text \<open>The forked table after the parent has gone to sleep until a child exits.\<close>

definition demo_waiting :: ptable where
  "demo_waiting = dispatch (Slot 1) (pupd (Slot 0) (\<lambda>pr. pr\<lparr>pstate := PROC_BLOCKED\<rparr>) demo_forked)"

lemma demo_waiting_simps:
  "plist demo_waiting [Slot 1, Slot 0]" "pstate (procs demo_waiting (Slot 0)) = PROC_BLOCKED"
  "current_process demo_waiting = Some (Slot 1)" "parent_pid (procs demo_waiting (Slot 1)) = 1"
  "pid (procs demo_waiting (Slot 0)) = 1"
  using demo_plist
  by (simp_all add: demo_waiting_def plist_def procs_pupd dispatch_procs demo_forked_simps demo_forked_Suc
      demo_table_simps)

lemma demo_waiting_reachable: "reachable demo_link demo_waiting"
proof -
  let ?s1 = "pupd (Slot 0) (\<lambda>pr. pr\<lparr>pstate := PROC_BLOCKED\<rparr>) demo_forked"
  have "plist ?s1 [Slot 1, Slot 0]" using demo_plist by (simp add: plist_pupd)
  from schedule_find [OF this] have "wait_for_child demo_forked = Some (Switch (Some (Slot 0)) (Slot 1), demo_waiting)"
    by (simp add: wait_for_child_def get_current_process_def demo_waiting_def procs_pupd demo_forked_simps
        demo_forked_Suc)
  then have "ksched_step demo_link demo_forked demo_waiting" by (rule ksched_step.wait_child)
  then show ?thesis by (rule reachable.step [OF demo_reachable])
qed

text \<open>C6: \<open>schedule\<close> ends on every proper list, switches to the first ready process in list order, and
  idles forever exactly when no process is ready.\<close>

theorem schedule_picks_first_ready:
  assumes "plist s xs"
  shows "(\<exists>s'. schedule s = Some (Idle, s') \<and> s' = s \<and> list_all (\<lambda>p. pstate (procs s p) \<noteq> PROC_READY) xs)
    \<or> (\<exists>us n vs s'. xs = us @ n # vs \<and> list_all (\<lambda>p. pstate (procs s p) \<noteq> PROC_READY) us
        \<and> pstate (procs s n) = PROC_READY
        \<and> schedule s = Some (Switch (current_process s) n, s') \<and> current_process s' = Some n)"
proof (cases "find (\<lambda>p. pstate (procs s p) = PROC_READY) xs")
  case None
  then have "schedule s = Some (Idle, s)"
    using schedule_find [OF assms] by simp
  moreover from None have "list_all (\<lambda>p. pstate (procs s p) \<noteq> PROC_READY) xs"
    by (simp add: find_None_iff list_all_iff)
  ultimately show ?thesis by blast
next
  case (Some n)
  then obtain us vs where "xs = us @ n # vs" "\<forall>p \<in> set us. pstate (procs s p) \<noteq> PROC_READY"
    "pstate (procs s n) = PROC_READY"
    by (rule find_SomeE)
  moreover have "schedule s = Some (Switch (current_process s) n, dispatch n s)"
    using schedule_find [OF assms] Some by simp
  ultimately show ?thesis
    by (intro disjI2 exI [of _ us] exI [of _ n] exI [of _ vs]) (simp add: list_all_iff)
qed

theorem schedule_picks_first_ready_witness:
  "\<exists>s'. schedule demo_forked = Some (Switch (Some (Slot 0)) (Slot 1), s') \<and> current_process s' = Some (Slot 1)"
  using schedule_picks_first_ready [OF demo_plist]
  by (auto simp: demo_forked_simps demo_forked_Suc demo_table_simps Cons_eq_append_conv)


subsection \<open>Fork, exit and wait\<close>

lemma fork_context:
  assumes "current_process s = Some c" "c \<noteq> Slot (process_count s)"
    and "handle_fork_message lm msg s = Some (r, msg', s')"
  shows "ctx (procs s' (Slot (process_count s)))
    = (ctx (procs s c))\<lparr>ctx_x := (ctx_x (ctx (procs s c)))[0 := 0], ctx_pc := entry msg\<rparr>"
  using assms
  by (auto simp: handle_fork_message_def create_process_def get_current_process_def Let_def procs_pupd
      split: if_splits)

lemma fork_Some_iff:
  assumes "current_process s = Some c"
  shows "handle_fork_message lm msg s = None \<longleftrightarrow> MAX_PROCESSES \<le> process_count s"
  using assms
  by (auto simp: handle_fork_message_def create_process_def get_current_process_def Let_def)

lemma reachable_parts:
  assumes "reachable lm s"
  obtains xs c where "list_inv s xs" "current_process s = Some c" "c \<in> set xs" "pstate (procs s c) = PROC_RUNNING"
    "c \<noteq> Slot (process_count s)" "\<forall>p \<in> set xs. p \<noteq> c \<longrightarrow> pstate (procs s p) \<noteq> PROC_RUNNING"
  using reachable_proc_inv [OF assms] unfolding proc_inv_def run_inv_def list_inv_def by blast

text \<open>C7: a fork in a reachable state with a free slot answers with a fresh process number, and adds one
  ready child of the caller at the head of the process list; the child starts at the entry point of the
  message with the caller's registers, except that it reads 0 in \<open>x0\<close>; no other process changes.\<close>

theorem fork_adds_child:
  assumes "reachable lm s" "plist s xs" "process_count s < MAX_PROCESSES"
  shows "\<exists>c new msg' s'. current_process s = Some c \<and> new \<notin> set xs
    \<and> handle_fork_message lm msg s = Some (0, msg', s') \<and> plist s' (new # xs)
    \<and> msg_pid msg' = get_pid s' new \<and> list_all (\<lambda>p. get_pid s' p \<noteq> get_pid s' new \<and> procs s' p = procs s p) xs
    \<and> parent_pid (procs s' new) = get_pid s c \<and> pstate (procs s' new) = PROC_READY
    \<and> ctx (procs s' new) = (ctx (procs s c))\<lparr>ctx_x := (ctx_x (ctx (procs s c)))[0 := 0], ctx_pc := entry msg\<rparr>"
proof -
  from assms(1) obtain ys c where ys: "list_inv s ys" "current_process s = Some c" "c \<noteq> Slot (process_count s)"
    by (rule reachable_parts)
  with assms(2) have "ys = xs"
    by (auto simp: list_inv_def plist_def dest: chain_unique)
  with ys(1) have xs: "list_inv s xs" by simp
  from fork_Some_iff [OF ys(2), of lm msg] assms(3) obtain r msg' s'
    where f: "handle_fork_message lm msg s = Some (r, msg', s')" by fastforce
  from f show ?thesis
  proof (cases rule: handle_fork_Some)
    case (1 cur new)
    then have l: "list_inv s' (new # xs)"
      using xs by (intro list_inv_Cons [of s xs cur new]) auto
    have fresh: "new \<notin> set xs"
      using xs 1(2) by (auto simp: list_inv_def)
    have "list_all (\<lambda>p. get_pid s' p \<noteq> get_pid s' new \<and> procs s' p = procs s p) xs"
      unfolding list_all_iff
    proof (intro ballI conjI)
      fix p assume p: "p \<in> set xs"
      then show "procs s' p = procs s p" using 1(8) fresh by metis
      from l have "pid (procs s' new) \<notin> set (map (\<lambda>p. pid (procs s' p)) xs)"
        by (simp add: list_inv_def)
      with p show "get_pid s' p \<noteq> get_pid s' new"
        unfolding get_pid_def set_map by (metis imageI)
    qed
    then show ?thesis
      using 1 f fresh l ys(2,3) fork_context [OF ys(2,3) f]
      by (intro exI [of _ c] exI [of _ new] exI [of _ msg'] exI [of _ s']) (simp add: list_inv_def get_pid_def)
  qed
qed

theorem fork_adds_child_witness:
  "\<exists>c new msg' s'. current_process demo_forked = Some c
    \<and> handle_fork_message demo_link (blank_message 8) demo_forked = Some (0, msg', s')
    \<and> plist s' (new # [Slot 1, Slot 0]) \<and> msg_pid msg' = get_pid s' new"
  using fork_adds_child [OF demo_reachable demo_plist, of "blank_message 8"]
  by (simp add: demo_forked_simps MAX_PROCESSES_def) metis

text \<open>the process array is never checked. In every reachable state a fork stays inside the array
  exactly when fewer than four processes were ever created, since terminating a process gives no slot back.\<close>

theorem fork_out_of_slots:
  assumes "reachable lm s"
  shows "handle_fork_message lm msg s = None \<longleftrightarrow> process_count s = MAX_PROCESSES"
proof -
  from assms obtain xs c where "list_inv s xs" "current_process s = Some c"
    by (rule reachable_parts)
  then show ?thesis
    using fork_Some_iff [of s c lm msg] by (auto simp: list_inv_def)
qed

theorem fork_out_of_slots_witness:
  "handle_fork_message demo_link (blank_message 8) demo_forked \<noteq> None"
  using fork_out_of_slots [OF demo_reachable, of "blank_message 8"]
  by (simp add: demo_forked_simps MAX_PROCESSES_def)


lemma find_unique:
  assumes "q \<in> set xs" "P q" "\<And>p. p \<in> set xs \<Longrightarrow> P p \<Longrightarrow> p = q"
  shows "find P xs = Some q"
proof (cases "find P xs")
  case None
  with assms(1,2) show ?thesis by (simp add: find_None_iff)
next
  case (Some p)
  then have "p \<in> set xs" "P p" by (auto simp: find_Some_iff)
  with assms(3) Some show ?thesis by simp
qed

lemma schedule_total: "plist s xs \<Longrightarrow> \<exists>out s'. schedule s = Some (out, s')"
  using schedule_find [of s xs] by (cases "find (\<lambda>p. pstate (procs s p) = PROC_READY) xs") simp_all

lemma find_process_unique:
  assumes "list_inv s xs" "q \<in> set xs"
  shows "find_process (pid (procs s q)) s = Some (Some q)"
proof -
  have "find_process (pid (procs s q)) s = Some (find (\<lambda>p. pid (procs s p) = pid (procs s q)) xs)"
    unfolding find_process_def by (rule pid_walk.walk_find) (use assms(1) in \<open>simp add: list_inv_def plist_def\<close>)
  also have "find (\<lambda>p. pid (procs s p) = pid (procs s q)) xs = Some q"
  proof (rule find_unique)
    have "inj_on (\<lambda>p. pid (procs s p)) (set xs)"
      using assms(1) by (simp add: list_inv_def distinct_map)
    with assms(2) show "p = q" if "p \<in> set xs" "pid (procs s p) = pid (procs s q)" for p
      using that by (metis (mono_tags, lifting) inj_onD)
  qed (use assms(2) in simp_all)
  finally show ?thesis .
qed

lemma exit_process_wakes:
  assumes "list_inv s xs" "current_process s = Some c" "q \<in> set xs" "pid (procs s q) = parent_pid (procs s c)"
    and "pstate (procs s q) = PROC_BLOCKED" "c \<noteq> q"
  shows "exit_process st s = schedule (pupd q (\<lambda>pr. pr\<lparr>pstate := PROC_READY\<rparr>)
    (pupd c (\<lambda>pr. pr\<lparr>pstate := PROC_ZOMBIE, exit_status := st\<rparr>) s))"
proof -
  let ?s1 = "pupd c (\<lambda>pr. pr\<lparr>pstate := PROC_ZOMBIE, exit_status := st\<rparr>) s"
  have "list_inv ?s1 xs" using assms(1) by (simp add: list_inv_pupd)
  from find_process_unique [OF this assms(3)] have "find_process (pid (procs s q)) ?s1 = Some (Some q)"
    using assms(6) by (simp add: procs_pupd)
  with assms show ?thesis
    by (simp add: exit_process_def get_current_process_def Let_def)
qed

text \<open>C8: when a process whose parent is blocked in a wait exits, the parent is woken: the exit never
  ends in the idle loop, the child becomes a zombie that keeps its status, and the parent is ready or already
  running.\<close>

theorem exit_wakes_parent:
  assumes "reachable lm s" "plist s xs" "current_process s = Some c"
    and "q \<in> set xs" "get_pid s q = parent_pid (procs s c)" "pstate (procs s q) = PROC_BLOCKED"
  shows "\<exists>n s'. exit_process st s = Some (Switch (Some c) n, s') \<and> current_process s' = Some n
    \<and> pstate (procs s' c) = PROC_ZOMBIE \<and> exit_status (procs s' c) = st
    \<and> pstate (procs s' q) = (if n = q then PROC_RUNNING else PROC_READY)"
proof -
  from assms(1) obtain ys where ys: "list_inv s ys" "pstate (procs s c) = PROC_RUNNING"
    by (rule reachable_parts) (use assms(3) in auto)
  with assms(2) have xs: "list_inv s xs"
    by (metis chain_unique list_inv_def plist_def)
  from ys(2) assms(6) have cq: "c \<noteq> q" by auto
  define s2 where "s2 = pupd q (\<lambda>pr. pr\<lparr>pstate := PROC_READY\<rparr>)
    (pupd c (\<lambda>pr. pr\<lparr>pstate := PROC_ZOMBIE, exit_status := st\<rparr>) s)"
  have e: "exit_process st s = schedule s2"
    unfolding s2_def using assms(5) by (intro exit_process_wakes [OF xs assms(3,4) _ assms(6) cq]) (simp add: get_pid_def)
  have st: "pstate (procs s2 q) = PROC_READY" "pstate (procs s2 c) = PROC_ZOMBIE" "exit_status (procs s2 c) = st"
    "current_process s2 = Some c" "plist s2 xs"
    using cq assms(2,3) by (simp_all add: s2_def procs_pupd plist_pupd)
  obtain n where n: "find (\<lambda>p. pstate (procs s2 p) = PROC_READY) xs = Some n"
    using assms(4) st(1) by (cases "find (\<lambda>p. pstate (procs s2 p) = PROC_READY) xs") (auto simp: find_None_iff)
  then have "pstate (procs s2 n) = PROC_READY" by (auto simp: find_Some_iff)
  with st have cn: "c \<noteq> n" by auto
  have "exit_process st s = Some (Switch (Some c) n, dispatch n s2)"
    using schedule_find [OF st(5)] n st(4) by (simp add: e)
  then show ?thesis
    using cn cq st by (simp add: dispatch_procs)
qed

theorem exit_wakes_parent_witness:
  "\<exists>n s'. exit_process 7 demo_waiting = Some (Switch (Some (Slot 1)) n, s')
    \<and> pstate (procs s' (Slot 1)) = PROC_ZOMBIE \<and> exit_status (procs s' (Slot 1)) = 7"
proof -
  have "get_pid demo_waiting (Slot 0) = parent_pid (procs demo_waiting (Slot 1))"
    unfolding get_pid_def demo_waiting_simps ..
  from exit_wakes_parent [OF demo_waiting_reachable demo_waiting_simps(1,3) _ this demo_waiting_simps(2), of 7]
  show ?thesis by auto
qed

text \<open>C9: a wait reaps the first zombie child in list order: it returns the child's number and status, marks
  the child dead and changes nothing else. With no zombie child the caller is blocked and the scheduler runs.\<close>

theorem wait_reaps_child:
  assumes "plist s xs" "current_process s = Some c"
  shows "case find (\<lambda>p. parent_pid (procs s p) = get_pid s c \<and> pstate (procs s p) = PROC_ZOMBIE) xs of
      Some p \<Rightarrow> \<exists>s'. handle_wait_message msg s
          = Some (None, 0, msg\<lparr>status := exit_status (procs s p), msg_pid := get_pid s p\<rparr>, s')
        \<and> current_process s' = Some c \<and> pstate (procs s' p) = PROC_DEAD \<and> exit_status (procs s' p) = exit_status (procs s p)
        \<and> (\<forall>q. q = p \<or> procs s' q = procs s q)
    | None \<Rightarrow> \<exists>out s1 s'. handle_wait_message msg s = Some (Some out, 0, msg\<lparr>status := 0\<rparr>, s')
        \<and> pstate (procs s1 c) = PROC_BLOCKED \<and> (\<forall>q. q = c \<or> procs s1 q = procs s q) \<and> schedule s1 = Some (out, s')"
proof -
  have w: "wait_scan s (pid (procs s c)) (process_list s)
      = Some (find (\<lambda>p. parent_pid (procs s p) = pid (procs s c) \<and> pstate (procs s p) = PROC_ZOMBIE) xs)"
    by (rule child_walk.walk_find) (use assms(1) in \<open>simp add: plist_def\<close>)
  show ?thesis
  proof (cases "find (\<lambda>p. parent_pid (procs s p) = pid (procs s c) \<and> pstate (procs s p) = PROC_ZOMBIE) xs")
    case None
    let ?s1 = "pupd c (\<lambda>pr. pr\<lparr>pstate := PROC_BLOCKED\<rparr>) s"
    have "plist ?s1 xs" using assms(1) by (simp add: plist_pupd)
    from schedule_total [OF this] obtain out s' where sch: "schedule ?s1 = Some (out, s')" by blast
    have "handle_wait_message msg s = Some (Some out, 0, msg\<lparr>status := 0\<rparr>, s')"
      unfolding handle_wait_message_def get_current_process_def assms(2) bind.bind_lunit w None option.case sch
      by simp
    moreover have "pstate (procs ?s1 c) = PROC_BLOCKED" "\<forall>q. q = c \<or> procs ?s1 q = procs s q"
      by (simp_all add: procs_pupd)
    ultimately show ?thesis unfolding get_pid_def None option.case using sch by blast
  next
    case (Some p)
    then show ?thesis
      using w assms(2) by (simp add: handle_wait_message_def get_current_process_def get_pid_def procs_pupd)
  qed
qed

theorem wait_reaps_child_witness:
  "\<exists>s'. handle_wait_message (blank_message 10) demo_exited
      = Some (None, 0, (blank_message 10)\<lparr>status := 7, msg_pid := 2\<rparr>, s')"
  using wait_reaps_child [OF demo_exited_simps(1,4), of "blank_message 10"]
  unfolding find.simps get_pid_def demo_exited_simps simp_thms if_True option.case demo_exited_simps by blast

text \<open>a process that is itself the first ready one when it calls \<open>schedule\<close> is switched to itself and
  left marked ready although it runs: the mark \<open>running\<close> is written first and then taken back.\<close>

theorem schedule_to_self_stays_ready:
  assumes "plist s (us @ c # vs)" "list_all (\<lambda>p. pstate (procs s p) \<noteq> PROC_READY) us"
    and "pstate (procs s c) = PROC_READY" "current_process s = Some c"
  shows "\<exists>s'. schedule s = Some (Switch (Some c) c, s') \<and> current_process s' = Some c
    \<and> pstate (procs s' c) = PROC_READY"
proof -
  have "find (\<lambda>p. pstate (procs s p) = PROC_READY) (us @ c # vs) = Some c"
    using assms(2,3) by (induction us) auto
  with schedule_find [OF assms(1)] assms(3,4) show ?thesis
    by (simp add: dispatch_procs)
qed


text \<open>The table after the first \<open>process_create\<close> of \<open>kernel_main\<close>.\<close>

definition demo_boot :: ptable where
  "demo_boot = snd (snd (process_create 0x40000000 0 ptable0))"

theorem schedule_to_self_stays_ready_witness:
  "\<exists>s'. schedule demo_boot = Some (Switch (Some (Heap 0)) (Heap 0), s') \<and> pstate (procs s' (Heap 0)) = PROC_READY"
  using schedule_to_self_stays_ready [of demo_boot "[]" "Heap 0" "[]"]
  by (auto simp: demo_boot_def process_create_def kalloc_def HEAP_SIZE_def sizeof_process_def Let_def plist_def
      procs_pupd ptable0_def zero_process_def)

subsection \<open>Messages\<close>

definition pending :: "ptable \<Rightarrow> proc_ptr \<Rightarrow> Message list" where
  "pending s p = mq_list (msg_queue (procs s p))"

definition queues_ok :: "ptable \<Rightarrow> bool" where
  "queues_ok s \<longleftrightarrow> (\<forall>p. mq_inv (msg_queue (procs s p)))"

lemma queues_ok_pupd:
  assumes "queues_ok s" "mq_inv (msg_queue (f (procs s p)))"
  shows "queues_ok (pupd p f s)"
  using assms by (simp add: queues_ok_def procs_pupd)

lemma queues_ok_dispatch [simp]: "queues_ok (dispatch n s) \<longleftrightarrow> queues_ok s"
  by (simp add: queues_ok_def dispatch_procs)

lemma queues_okD [simp]: "queues_ok s \<Longrightarrow> mq_inv (msg_queue (procs s p))"
  by (simp add: queues_ok_def)

lemma schedule_queues_ok: "schedule s = Some (out, s') \<Longrightarrow> queues_ok s \<Longrightarrow> queues_ok s'"
  by (auto simp: schedule_def split: option.splits)

lemma schedule_pupd_queues_ok:
  "schedule (pupd p f s) = Some (out, s') \<Longrightarrow> queues_ok s \<Longrightarrow> mq_inv (msg_queue (f (procs s p))) \<Longrightarrow> queues_ok s'"
  by (blast intro: schedule_queues_ok queues_ok_pupd)

lemma mq_get_queues_ok: "queues_ok s \<Longrightarrow> mq_get (msg_queue (procs s p)) = Some (m, q) \<Longrightarrow> mq_inv q"
  using mq_get_Some queues_okD by blast

lemma handle_fork_queues_ok:
  assumes "handle_fork_message lm msg s = Some (r, msg', s')" "queues_ok s"
  shows "queues_ok s'"
proof -
  have "msg_queue (procs s' p) = msg_queue (procs s p)" for p
    using assms(1) by (auto simp: handle_fork_message_def create_process_def Let_def procs_pupd split: if_splits)
  with assms(2) show ?thesis by (simp add: queues_ok_def)
qed

lemma ksched_step_queues_ok:
  assumes "ksched_step lm s s'" "queues_ok s"
  shows "queues_ok s'"
  using assms(1)
proof cases
  case (exit st o1 n)
  then obtain c s1 s2 where s1: "s1 = pupd c (\<lambda>pr. pr\<lparr>pstate := PROC_ZOMBIE, exit_status := st\<rparr>) s"
    and s2: "s2 = s1 \<or> (\<exists>q. pstate (procs s1 q) = PROC_BLOCKED \<and> s2 = pupd q (\<lambda>pr. pr\<lparr>pstate := PROC_READY\<rparr>) s1)"
    and sch: "schedule s2 = Some (Switch o1 n, s')"
    by (rule exit_process_cases)
  have "queues_ok s1" using assms(2) by (simp add: s1 queues_ok_pupd)
  then have "queues_ok s2" using s2 by (auto intro: queues_ok_pupd)
  with sch show ?thesis by (rule schedule_queues_ok)
next
  case (wait msg out r msg')
  from wait(1) show ?thesis
    by (cases rule: handle_wait_cases) (use assms(2) in \<open>auto simp: queues_ok_pupd elim: schedule_queues_ok\<close>)
next
  case (wait_child o1 n)
  then show ?thesis
    using assms(2) by (auto simp: wait_for_child_def queues_ok_pupd elim: schedule_queues_ok)
next
  case (queue p msg r)
  then show ?thesis
    using assms(2) mq_put_Some [of "msg_queue (procs s p)" msg]
    by (auto simp: queue_message_def split: option.splits intro!: queues_ok_pupd)
next
  case (receive msg out r msg')
  then show ?thesis
    using assms(2)
    by (auto simp: receive_message_def split: option.splits if_splits
        intro!: queues_ok_pupd dest: schedule_pupd_queues_ok) (erule (1) mq_get_queues_ok)+
next
  case (exec a msg r)
  then show ?thesis
    using assms(2)
    by (auto simp: handle_exec_message_def Let_def split: if_splits option.splits intro!: queues_ok_pupd)
qed (use assms(2) in \<open>auto elim: schedule_queues_ok handle_fork_queues_ok\<close>)



text \<open>C10: messages travel in order. On a table whose queues are well formed, queueing a message appends it to
  the pending messages of the target, unless 32 are pending already: then -1 is returned and nothing changes.\<close>

theorem queue_message_appends:
  assumes "queues_ok s"
  shows "if length (pending s p) = MAX_MESSAGES then queue_message p msg s = (-1, s)
    else \<exists>s'. queue_message p msg s = (0, s') \<and> queues_ok s' \<and> pending s' p = pending s p @ [msg]
      \<and> msg_blocked (procs s' p) = False \<and> (\<forall>q. q = p \<or> procs s' q = procs s q)"
proof (cases "mq_put (msg_queue (procs s p)) msg")
  case None
  then show ?thesis
    using ring.put_None [of "msg_queue (procs s p)" msg] assms by (simp add: pending_def queue_message_def)
next
  case (Some q)
  then have "mq_inv q" "mq_list q = mq_list (msg_queue (procs s p)) @ [msg]"
    using assms by (auto dest: mq_put_Some [rotated])
  moreover have "length (pending s p) \<noteq> MAX_MESSAGES"
    using ring.put_None [of "msg_queue (procs s p)" msg] Some assms by (simp add: pending_def)
  ultimately show ?thesis
    using Some assms by (simp add: pending_def queue_message_def queues_ok_pupd procs_pupd)
qed

theorem queue_message_appends_witness:
  "\<exists>s'. queue_message (Slot 0) (blank_message 3) ptable0 = (0, s') \<and> pending s' (Slot 0) = [blank_message 3]"
  using queue_message_appends [of ptable0 "Slot 0" "blank_message 3"]
  by (auto simp: queues_ok_def ptable0_def zero_process_def mq_inv_empty pending_def MAX_MESSAGES_def split: if_splits)

text \<open>C11: receiving takes the oldest pending message of the current process. With nothing pending, a
  non-blocking receive returns -1 and changes nothing, a blocking one marks the process and calls the scheduler.\<close>

theorem receive_message_takes_oldest:
  assumes "queues_ok s" "current_process s = Some c"
  shows "case pending s c of
      m # ms \<Rightarrow> \<exists>s'. receive_message msg s = Some (None, 0, m, s') \<and> queues_ok s' \<and> pending s' c = ms
        \<and> current_process s' = Some c \<and> (\<forall>q. q = c \<or> procs s' q = procs s q)
    | [] \<Rightarrow> if flags msg AND MSG_NONBLOCK = 0
        then receive_message msg s = map_option (\<lambda>(out, s'). (Some out, -1, msg, s'))
          (schedule (pupd c (\<lambda>pr. pr\<lparr>msg_blocked := True\<rparr>) s))
        else receive_message msg s = Some (None, -1, msg, s)"
proof (cases "mq_get (msg_queue (procs s c))")
  case None
  then have "pending s c = []"
    using ring.get_None [of "msg_queue (procs s c)"] assms(1) by (simp add: pending_def)
  with None assms(2) show ?thesis
    by (cases "schedule (pupd c (\<lambda>pr. pr\<lparr>msg_blocked := True\<rparr>) s)")
       (auto simp: receive_message_def get_current_process_def)
next
  case (Some r)
  obtain m q where r: "r = (m, q)" by force
  with Some assms(1) have "mq_inv q" "mq_list (msg_queue (procs s c)) = m # mq_list q"
    by (auto dest: mq_get_Some [rotated])
  with Some r assms show ?thesis
    by (simp add: pending_def receive_message_def get_current_process_def queues_ok_pupd procs_pupd)
qed

theorem receive_message_takes_oldest_witness:
  "receive_message ((blank_message 0)\<lparr>flags := 1\<rparr>) (init_process demo_link ptable0)
    = Some (None, -1, (blank_message 0)\<lparr>flags := 1\<rparr>, init_process demo_link ptable0)"
proof -
  have "queues_ok (init_process demo_link ptable0)" "current_process (init_process demo_link ptable0) = Some (Slot 0)"
    by (simp_all add: queues_ok_def init_process_def Let_def procs_pupd ptable0_def zero_process_def mq_inv_empty)
  moreover have "pending (init_process demo_link ptable0) (Slot 0) = []"
    by (simp add: pending_def init_process_def Let_def ptable0_def zero_process_def)
  ultimately show ?thesis
    using receive_message_takes_oldest [of "init_process demo_link ptable0" "Slot 0" "(blank_message 0)\<lparr>flags := 1\<rparr>"]
    by (simp add: MSG_NONBLOCK_def)
qed

interpretation queues_kept: kept queues_ok "ksched_step lm" for lm
  by unfold_locales (rule ksched_step_queues_ok)

text \<open>every kernel operation keeps the queues of all processes well formed: the indices stay inside the
  ring and \<open>tail\<close> is \<open>count\<close> places after \<open>head\<close>.\<close>

theorem queues_stay_well_formed:
  assumes "(ksched_step lm)\<^sup>*\<^sup>* s s'" "queues_ok s"
  shows "queues_ok s'"
  using assms by (rule queues_kept.steps_inv)

theorem queues_stay_well_formed_witness:
  "queues_ok (snd (queue_message (Slot 0) (blank_message 3) ptable0))"
  by (rule queues_stay_well_formed [of demo_link ptable0])
     (auto simp: queues_ok_def ptable0_def zero_process_def mq_inv_empty intro: r_into_rtranclp ksched_step.queue prod.collapse [symmetric])


end
