(* ===== verification/Wait_Exit.thy ===== *)
theory Wait_Exit
  imports Message_Props Proc_Props
begin

text \<open>
  A wait and the exit of a child, across the messages and the scheduler: the parent is suspended inside \<open>MSG_WAIT\<close>, the child runs and exits, and
  the rest of \<open>MSG_WAIT\<close>, run when the parent is resumed, finds the child's status.
\<close>

text \<open>The first part of \<open>MSG_WAIT\<close> in a process without a terminated child.\<close>

lemma msg_wait_suspends:
  assumes "plist (pt (kern m)) xs" "current_process (pt (kern m)) = Some p" "pstate (procs (pt (kern m)) p) = PROC_RUNNING"
    and "\<forall>q \<in> set xs. parent_pid (procs (pt (kern m)) q) = pid (procs (pt (kern m)) p) \<longrightarrow> pstate (procs (pt (kern m)) q) \<noteq> PROC_ZOMBIE"
    and "find (\<lambda>q. pstate (procs (pt (kern m)) q) = PROC_READY) xs = Some c"
  defines "s0 \<equiv> pupd p (\<lambda>pr. pr\<lparr>pstate := PROC_BLOCKED\<rparr>) (pt (kern m))"
  shows "msg_wait msg m = Some (Suspend (Switch (Some p) c), msg, m\<lparr>kern := (kern m)\<lparr>pt := dispatch c s0\<rparr>\<rparr>)"
proof -
  let ?s = "pt (kern m)"
  have w: "wait_scan ?s (pid (procs ?s p)) (process_list ?s) = Some None"
    using child_walk.walk_miss [of ?s "process_list ?s" xs "pid (procs ?s p)"] assms(1,4) by (auto simp: plist_def)
  have "plist s0 xs" using assms(1) by (simp add: s0_def plist_pupd)
  moreover have "(\<lambda>q. pstate (procs s0 q) = PROC_READY) = (\<lambda>q. pstate (procs ?s q) = PROC_READY)"
    using assms(3) by (auto simp: s0_def procs_pupd)
  ultimately have "schedule s0 = Some (Switch (Some p) c, dispatch c s0)"
    using schedule_find [of s0 xs] assms(2,5) by (simp add: s0_def)
  then show ?thesis using w assms(2) by (simp add: msg_wait_def get_current_process_def s0_def Let_def)
qed

text \<open>The parent \<open>p\<close> has been woken by the exit of its child \<open>c\<close>: the next process, and what the scan of the resumed wait finds.\<close>

lemma woken_parent_finds_child:
  assumes mem: "c \<in> set xs" "p \<in> set xs" "c \<noteq> p"
    and s': "current_process s' = Some c" "plist s' xs" "procs s' p = (procs s p)\<lparr>pstate := PROC_READY\<rparr>"
      "procs s' c = (procs s c)\<lparr>pstate := PROC_ZOMBIE, exit_status := st\<rparr>" "\<And>q. q \<noteq> p \<Longrightarrow> q \<noteq> c \<Longrightarrow> procs s' q = procs s q"
    and child: "parent_pid (procs s c) = pid (procs s p)"
      "\<forall>q \<in> set xs. parent_pid (procs s q) = pid (procs s p) \<longrightarrow> pstate (procs s q) \<noteq> PROC_ZOMBIE"
  obtains n s2 where "schedule s' = Some (Switch (Some c) n, s2)" "find (\<lambda>q. q = p \<or> q \<noteq> c \<and> pstate (procs s q) = PROC_READY) xs = Some n"
    "pstate (procs s2 p) = (if n = p then PROC_RUNNING else PROC_READY)" "exit_status (procs s2 c) = st"
    "wait_scan s2 (pid (procs s2 p)) (process_list s2) = Some (Some c)"
proof -
  have ready: "pstate (procs s' q) = PROC_READY \<longleftrightarrow> q = p \<or> q \<noteq> c \<and> pstate (procs s q) = PROC_READY" for q
    using mem(3) s'(3-5) by (cases "q = p"; cases "q = c") simp_all
  obtain n where n: "find (\<lambda>q. q = p \<or> q \<noteq> c \<and> pstate (procs s q) = PROC_READY) xs = Some n"
    using mem(2) by (cases "find (\<lambda>q. q = p \<or> q \<noteq> c \<and> pstate (procs s q) = PROC_READY) xs") (auto simp: find_None_iff)
  define s2 where "s2 = dispatch n s'"
  have nc: "n \<noteq> c" using n mem(3) by (auto simp: find_Some_iff)
  have e2: "schedule s' = Some (Switch (Some c) n, s2)" using schedule_find [OF s'(2)] n s'(1) by (simp add: ready s2_def)
  have st2: "pstate (procs s2 p) = (if n = p then PROC_RUNNING else PROC_READY)" "procs s2 c = (procs s c)\<lparr>pstate := PROC_ZOMBIE, exit_status := st\<rparr>"
    "plist s2 xs"
    using mem(3) nc s' by (simp_all add: s2_def dispatch_procs) (simp add: plist_def dispatch_procs)
  have fields: "pid (procs s2 q) = pid (procs s q)" "parent_pid (procs s2 q) = parent_pid (procs s q)" for q
    using s'(3-5) by (cases "q = p"; cases "q = c"; simp add: s2_def dispatch_procs)+
  have old: "pstate (procs s q) = PROC_ZOMBIE" if "pstate (procs s2 q) = PROC_ZOMBIE" "q \<noteq> c" for q
    using that s'(3,5) by (cases "q = p") (auto simp: s2_def dispatch_procs split: if_splits)
  have "find (\<lambda>q. parent_pid (procs s2 q) = pid (procs s2 p) \<and> pstate (procs s2 q) = PROC_ZOMBIE) xs = Some c"
  proof (rule find_only [OF mem(1)])
    fix q assume q: "q \<in> set xs"
    show "parent_pid (procs s2 q) = pid (procs s2 p) \<and> pstate (procs s2 q) = PROC_ZOMBIE \<longleftrightarrow> q = c"
      using old [of q] child(2) q st2(2) child(1) unfolding fields by auto
  qed
  then have "wait_scan s2 (pid (procs s2 p)) (process_list s2) = Some (Some c)"
    using child_walk.walk_find [of s2 "process_list s2" xs "pid (procs s2 p)"] st2(3) by (simp add: plist_def)
  with e2 n st2(1,2) show thesis by (intro that [of n s2]) simp_all
qed

text \<open>C5: a process that waits while its only terminated child is still to come gets that child's status. \<open>MSG_WAIT\<close> blocks the caller and switches to
  the first ready process \<open>c\<close>; when \<open>c\<close>, a child of the caller, exits with \<open>st\<close>, the caller is ready again (and runs at once when no other process
  is ready before it in the list), and \<open>MSG_WAIT\<close>, resumed, returns 0 with status \<open>st\<close>.\<close>

theorem wait_receives_exit_status:
  assumes "reachable (env_lm e) (pt (kern m))" "plist (pt (kern m)) xs" "current_process (pt (kern m)) = Some p" "msg_type_of (msg_type msg) = Some MSG_WAIT"
    and "\<forall>q \<in> set xs. parent_pid (procs (pt (kern m)) q) = get_pid (pt (kern m)) p \<longrightarrow> pstate (procs (pt (kern m)) q) \<noteq> PROC_ZOMBIE"
    and "find (\<lambda>q. pstate (procs (pt (kern m)) q) = PROC_READY) xs = Some c" "parent_pid (procs (pt (kern m)) c) = get_pid (pt (kern m)) p"
  shows "\<exists>m1 n s2. send_message e msg m = Some (Suspend (Switch (Some p) c), msg, m1)
    \<and> current_process (pt (kern m1)) = Some c \<and> pstate (procs (pt (kern m1)) p) = PROC_BLOCKED
    \<and> exit_process st (pt (kern m1)) = Some (Switch (Some c) n, s2)
    \<and> find (\<lambda>q. q = p \<or> q \<noteq> c \<and> pstate (procs (pt (kern m)) q) = PROC_READY) xs = Some n
    \<and> pstate (procs s2 p) = (if n = p then PROC_RUNNING else PROC_READY)
    \<and> msg_wait_resume p msg (m1\<lparr>kern := (kern m1)\<lparr>pt := s2\<rparr>\<rparr>) = Some (Return 0, msg\<lparr>status := st\<rparr>, m1\<lparr>kern := (kern m1)\<lparr>pt := s2\<rparr>\<rparr>)"
proof -
  let ?s = "pt (kern m)"
  from assms(1) obtain ys where ys: "list_inv ?s ys" "p \<in> set ys" "pstate (procs ?s p) = PROC_RUNNING"
    "\<forall>q \<in> set ys. q \<noteq> p \<longrightarrow> pstate (procs ?s q) \<noteq> PROC_RUNNING"
    by (rule reachable_parts) (use assms(3) in auto)
  have "ys = xs" using ys(1) assms(2) by (metis chain_unique list_inv_def plist_def)
  note inv = ys [unfolded this]
  have c: "c \<in> set xs" "pstate (procs ?s c) = PROC_READY" using assms(6) by (auto simp: find_Some_iff)
  then have cp: "c \<noteq> p" using inv(3) by auto
  define s0 where "s0 = pupd p (\<lambda>pr. pr\<lparr>pstate := PROC_BLOCKED\<rparr>) ?s"
  define s1 where "s1 = dispatch c s0"
  define m1 where "m1 = m\<lparr>kern := (kern m)\<lparr>pt := s1\<rparr>\<rparr>"
  have send: "send_message e msg m = Some (Suspend (Switch (Some p) c), msg, m1)"
    using msg_wait_suspends [OF assms(2,3) inv(3) _ assms(6), of msg] assms(4,5)
    by (simp add: send_message_def get_pid_def m1_def s1_def s0_def)
  have s1: "current_process s1 = Some c" "procs s1 p = (procs ?s p)\<lparr>pstate := PROC_BLOCKED\<rparr>" "procs s1 c = (procs ?s c)\<lparr>pstate := PROC_RUNNING\<rparr>"
    "\<And>q. q \<noteq> p \<Longrightarrow> q \<noteq> c \<Longrightarrow> procs s1 q = procs ?s q" "list_inv s1 xs"
    using cp assms(3) inv(1) by (simp_all add: s1_def s0_def dispatch_procs procs_pupd list_inv_dispatch list_inv_pupd)
  define s1' where "s1' = pupd p (\<lambda>pr. pr\<lparr>pstate := PROC_READY\<rparr>) (pupd c (\<lambda>pr. pr\<lparr>pstate := PROC_ZOMBIE, exit_status := st\<rparr>) s1)"
  have ex: "exit_process st s1 = schedule s1'"
    unfolding s1'_def using assms(7) by (intro exit_process_wakes [OF s1(5,1) inv(2)]) (simp_all add: s1 cp get_pid_def)
  have s1': "current_process s1' = Some c" "plist s1' xs" "procs s1' p = (procs ?s p)\<lparr>pstate := PROC_READY\<rparr>"
    "procs s1' c = (procs ?s c)\<lparr>pstate := PROC_ZOMBIE, exit_status := st\<rparr>" "\<And>q. q \<noteq> p \<Longrightarrow> q \<noteq> c \<Longrightarrow> procs s1' q = procs ?s q"
    using s1 cp list_invD [OF s1(5)] by (simp_all add: s1'_def procs_pupd plist_pupd)
  have pid: "parent_pid (procs ?s c) = pid (procs ?s p)"
    "\<forall>q \<in> set xs. parent_pid (procs ?s q) = pid (procs ?s p) \<longrightarrow> pstate (procs ?s q) \<noteq> PROC_ZOMBIE"
    using assms(5,7) by (simp_all add: get_pid_def)
  obtain n s2 where n: "schedule s1' = Some (Switch (Some c) n, s2)" "find (\<lambda>q. q = p \<or> q \<noteq> c \<and> pstate (procs ?s q) = PROC_READY) xs = Some n"
    "pstate (procs s2 p) = (if n = p then PROC_RUNNING else PROC_READY)" "exit_status (procs s2 c) = st"
    "wait_scan s2 (pid (procs s2 p)) (process_list s2) = Some (Some c)"
    by (rule woken_parent_finds_child [OF c(1) inv(2) cp s1' pid])
  have res: "msg_wait_resume p msg (m1\<lparr>kern := (kern m1)\<lparr>pt := s2\<rparr>\<rparr>)
      = Some (Return 0, msg\<lparr>status := st\<rparr>, m1\<lparr>kern := (kern m1)\<lparr>pt := s2\<rparr>\<rparr>)"
    using n(4,5) by (simp add: msg_wait_resume_def Let_def)
  have pm: "pt (kern m1) = s1" by (simp add: m1_def)
  show ?thesis
    by (intro exI [of _ m1] exI [of _ n] exI [of _ s2] conjI) (simp_all add: send pm s1(1,2) ex n res)
qed

theorem wait_receives_exit_status_witness:
  "\<exists>m1 n s2. send_message (demo_env\<lparr>env_lm := demo_link\<rparr>) (blank_message (msg_code MSG_WAIT)) (demo_machine\<lparr>kern := demo_kernel\<lparr>pt := demo_forked\<rparr>\<rparr>)
      = Some (Suspend (Switch (Some (Slot 0)) (Slot 1)), blank_message (msg_code MSG_WAIT), m1)
    \<and> exit_process 7 (pt (kern m1)) = Some (Switch (Some (Slot 1)) n, s2) \<and> n = Slot 0"
proof -
  let ?e = "(demo_env\<lparr>env_lm := demo_link\<rparr>)" and ?m = "demo_machine\<lparr>kern := demo_kernel\<lparr>pt := demo_forked\<rparr>\<rparr>"
  have p: "pt (kern ?m) = demo_forked" by simp
  have f: "reachable (env_lm ?e) (pt (kern ?m))" "plist (pt (kern ?m)) [Slot 1, Slot 0]" "current_process (pt (kern ?m)) = Some (Slot 0)"
    "msg_type_of (msg_type (blank_message (msg_code MSG_WAIT))) = Some MSG_WAIT"
    using demo_reachable demo_plist by (simp_all add: demo_forked_simps blank_message_def)
  have g: "\<forall>q \<in> set [Slot 1, Slot 0]. parent_pid (procs (pt (kern ?m)) q) = get_pid (pt (kern ?m)) (Slot 0) \<longrightarrow> pstate (procs (pt (kern ?m)) q) \<noteq> PROC_ZOMBIE"
    "find (\<lambda>q. pstate (procs (pt (kern ?m)) q) = PROC_READY) [Slot 1, Slot 0] = Some (Slot 1)"
    "parent_pid (procs (pt (kern ?m)) (Slot 1)) = get_pid (pt (kern ?m)) (Slot 0)"
    "pstate (procs demo_forked (Slot 0)) \<noteq> PROC_READY"
    by (simp_all add: get_pid_def demo_forked_simps demo_forked_Suc demo_table_simps)
  from wait_receives_exit_status [OF f g(1-3), of 7] show ?thesis by auto
qed

end
