(* ===== verification/Arch.thy ===== *)
theory Arch
  imports Process
begin

text \<open>
  The machine level: the context switch \<open>src/src/arch/context_switch.S\<close> and the page tables of \<open>src/src/arch/mmu.c\<close>.

  A \<open>context_t\<close> in memory is the list of its 34 words, in the order of the fields of the C structure. The registers
  the switch saves are \<open>x19\<close> to \<open>x30\<close>, the stack pointer and the interrupt mask. The page table is the array \<open>l1\<close> of
  512 descriptors; the system registers \<open>mmu_init\<close> writes are fields of a record.
\<close>

section \<open>Context switch\<close>

record cpu =
  x19_30 :: "u64 list"
  cpu_sp :: u64
  daif :: u64

definition ctx_words :: "context_t \<Rightarrow> u64 list" where
  "ctx_words c = [ctx_pc c, ctx_sp c, ctx_lr c] @ ctx_x c"

definition save_regs :: "cpu \<Rightarrow> u64 list \<Rightarrow> u64 list" where
  "save_regs c w = x19_30 c @ [cpu_sp c, daif c] @ drop 14 w"

definition load_regs :: "u64 list \<Rightarrow> cpu" where
  "load_regs w = \<lparr>x19_30 = take 12 w, cpu_sp = w ! 12, daif = w ! 13\<rparr>"

text \<open>The memory of the contexts and the registers after the switch; \<open>ret\<close> continues at \<open>x30\<close>.\<close>

definition context_switch :: "proc_ptr option \<Rightarrow> proc_ptr \<Rightarrow> (proc_ptr \<Rightarrow> u64 list) \<Rightarrow> cpu \<Rightarrow> (proc_ptr \<Rightarrow> u64 list) \<times> cpu" where
  "context_switch old new mem c =
     (let mem1 = (case old of None \<Rightarrow> mem | Some p \<Rightarrow> mem(p := save_regs c (mem p)))
      in (mem1, load_regs (mem1 new)))"

text \<open>C36: a process that is switched out and later switched in again finds its registers, stack pointer and interrupt mask as it left them,
  whatever other switches saved in the meantime into other contexts.\<close>

theorem context_switch_restores:
  assumes "length (x19_30 c) = 12" "context_switch (Some p) q mem c = (mem1, c1)" "mem2 p = mem1 p" "old \<noteq> Some p"
  shows "snd (context_switch old p mem2 c2) = c"
proof -
  have "mem1 p = save_regs c (mem p)" using assms(2) by (auto simp: context_switch_def Let_def)
  moreover have "(case old of None \<Rightarrow> mem2 | Some r \<Rightarrow> mem2(r := save_regs c2 (mem2 r))) p = mem2 p"
    using assms(4) by (cases old) auto
  ultimately have "snd (context_switch old p mem2 c2) = load_regs (save_regs c (mem p))"
    using assms(3) by (simp add: context_switch_def Let_def)
  also have "\<dots> = c" using assms(1) by (cases c) (simp add: load_regs_def save_regs_def nth_append)
  finally show ?thesis .
qed

theorem context_switch_restores_witness:
  "snd (context_switch (Some (Slot 1)) (Slot 0)
     (fst (context_switch (Some (Slot 0)) (Slot 1) (\<lambda>_. replicate 34 0) \<lparr>x19_30 = replicate 12 7, cpu_sp = 8, daif = 9\<rparr>))
     \<lparr>x19_30 = replicate 12 1, cpu_sp = 2, daif = 3\<rparr>) = \<lparr>x19_30 = replicate 12 7, cpu_sp = 8, daif = 9\<rparr>"
proof -
  let ?c = "\<lparr>x19_30 = replicate 12 7, cpu_sp = 8, daif = 9\<rparr>" and ?m = "\<lambda>_. replicate 34 (0 :: u64)"
  obtain mem1 c1 where m: "context_switch (Some (Slot 0)) (Slot 1) ?m ?c = (mem1, c1)" by force
  show ?thesis unfolding m by (simp only: fst_conv, rule context_switch_restores [OF _ m]) simp_all
qed

text \<open>the assembly and the C structure disagree on the layout of a context: the stack pointer and the return address of the first switch to a process
  come from the saved copies of \<open>x9\<close> and \<open>x8\<close>, not from the fields \<open>sp\<close>, \<open>lr\<close> and \<open>pc\<close> that \<open>create_process\<close> fills in. A process just created therefore
  starts on the stack and at the return address that the context of its creator holds there.\<close>

theorem first_switch_ignores_context_fields:
  assumes "create_process lm s = Some (new, s')" "get_current_process s = Some cur" "length (ctx_x (ctx (procs s cur))) = 31"
    and "mem new = ctx_words (ctx (procs s' new))" "old \<noteq> Some new" "new \<noteq> cur"
  shows "cpu_sp (snd (context_switch old new mem c)) = ctx_x (ctx (procs s cur)) ! 9
    \<and> x19_30 (snd (context_switch old new mem c)) ! 11 = ctx_x (ctx (procs s cur)) ! 8"
proof -
  have x: "ctx_x (ctx (procs s' new)) = ctx_x (ctx (procs s cur))"
    using assms(1,2,6) by (auto simp: create_process_def pupd_def Let_def split: if_splits)
  have "snd (context_switch old new mem c) = load_regs (ctx_words (ctx (procs s' new)))"
    using assms(4,5) by (cases old) (auto simp: context_switch_def Let_def)
  then show ?thesis using x assms(3) by (simp add: load_regs_def ctx_words_def nth_append nth_Cons')
qed

theorem first_switch_ignores_context_fields_witness:
  "\<exists>new s'. create_process \<lparr>process_stacks = 0x1000, process3 = 0x2000\<rparr> (init_process \<lparr>process_stacks = 0x1000, process3 = 0x2000\<rparr> ptable0) = Some (new, s')
    \<and> cpu_sp (snd (context_switch None new (\<lambda>p. ctx_words (ctx (procs s' p))) \<lparr>x19_30 = replicate 12 0, cpu_sp = 0, daif = 0\<rparr>)) = 0"
proof -
  let ?lm = "\<lparr>process_stacks = 0x1000, process3 = 0x2000\<rparr>"
  let ?s = "init_process ?lm ptable0"
  have f: "get_current_process ?s = Some (Slot 0)" "process_count ?s = 1" "ctx_x (ctx (procs ?s (Slot 0))) = replicate 31 0"
    by (simp_all add: init_process_def get_current_process_def Let_def pupd_def ptable0_def zero_process_def zero_context_def)
  obtain s' where c: "create_process ?lm ?s = Some (Slot 1, s')"
    using f(1,2) by (simp add: create_process_def MAX_PROCESSES_def Let_def)
  from first_switch_ignores_context_fields [OF c f(1), of "\<lambda>p. ctx_words (ctx (procs s' p))" None] f(3) c show ?thesis by simp
qed

section \<open>Page tables\<close>

definition MAIR_VALUE :: u64 where "MAIR_VALUE = push_bit 0 0xFF OR push_bit 8 0x04"
definition AF :: u64 where "AF = push_bit 10 1"
definition UXN :: u64 where "UXN = push_bit 54 1"
definition AP_RW_EL0 :: u64 where "AP_RW_EL0 = push_bit 6 1"
definition AP_RW_EL1 :: u64 where "AP_RW_EL1 = push_bit 6 0"
definition BLOCK :: u64 where "BLOCK = push_bit 1 0"
definition VALID :: u64 where "VALID = push_bit 0 1"

definition ATTRIDX :: "u64 \<Rightarrow> u64" where
  "ATTRIDX n = push_bit 2 n"

definition L1_DESC :: "u64 \<Rightarrow> u64 \<Rightarrow> u64 \<Rightarrow> u64" where
  "L1_DESC pa_gib attridx extra = push_bit 30 pa_gib OR AF OR ATTRIDX attridx OR extra OR BLOCK OR VALID"

record mmu =
  l1 :: "u64 list"
  mair :: u64
  tcr :: u64
  ttbr0 :: u64
  sctlr :: u64
  vbar :: u64

text \<open>\<open>sctlr_el1\<close> with bit 0 set and bit 28 cleared.\<close>

definition enable_mmu :: "mmu \<Rightarrow> mmu" where
  "enable_mmu s = s\<lparr>sctlr := (sctlr s OR 1) AND NOT (push_bit 28 1)\<rparr>"

text \<open>Turning translation off again with these is commented out in \<open>mmu_init\<close>.\<close>

definition read_sctlr :: "mmu \<Rightarrow> u64" where
  "read_sctlr s = sctlr s"

definition write_sctlr :: "u64 \<Rightarrow> mmu \<Rightarrow> mmu" where
  "write_sctlr v s = s\<lparr>sctlr := v\<rparr>"

text \<open>The addresses of the table and of \<open>exception_vector_table\<close> are arguments.\<close>

definition mmu_init :: "u64 \<Rightarrow> u64 \<Rightarrow> mmu \<Rightarrow> mmu" where
  "mmu_init l1_addr vectors s =
     (let t = (l1 s)[0 := L1_DESC 0 1 (UXN OR AP_RW_EL0), 1 := L1_DESC 1 0 AP_RW_EL1, 2 := L1_DESC 2 0 AP_RW_EL0]
      in (enable_mmu (s\<lparr>l1 := t, mair := MAIR_VALUE, tcr := 0x00000000808519, ttbr0 := l1_addr\<rparr>))\<lparr>vbar := vectors\<rparr>)"

definition mmu_get_l1_block :: "nat \<Rightarrow> mmu \<Rightarrow> u64 option" where
  "mmu_get_l1_block i s = (if i < length (l1 s) then Some (l1 s ! i) else None)"

text \<open>How the architecture reads a level 1 block descriptor: valid, the address of the block, access from user mode, user execution.\<close>

definition desc_valid_block :: "u64 \<Rightarrow> bool" where
  "desc_valid_block d \<longleftrightarrow> bit d 0 \<and> \<not> bit d 1"

definition desc_gib :: "u64 \<Rightarrow> u64" where
  "desc_gib d = drop_bit 30 d AND 0x3FFFF"

definition desc_user_access :: "u64 \<Rightarrow> bool" where
  "desc_user_access d \<longleftrightarrow> bit d 6"

definition desc_user_exec :: "u64 \<Rightarrow> bool" where
  "desc_user_exec d \<longleftrightarrow> \<not> bit d 54"

text \<open>C37: what the table lets user programs do after \<open>mmu_init\<close> has filled a cleared one. The first three gigabytes are mapped to themselves and nothing else is mapped. The second, where
  the kernel is, is closed to loads and stores of user programs, but the bit that forbids execution is not set there: they can execute kernel code. The first, with the device registers, is open to
  their loads and stores and closed to execution, although the comment calls it writable at EL1; the third is open to both.\<close>

theorem mmu_init_permissions:
  fixes a v :: u64 and s :: mmu
  assumes "l1 s = replicate 512 0"
  defines "t \<equiv> l1 (mmu_init a v s)"
  shows "length t = 512 \<and> (\<forall>i < 512. desc_valid_block (t ! i) \<longleftrightarrow> i < 3) \<and> (\<forall>i < 3. desc_gib (t ! i) = of_nat i)
    \<and> (\<forall>i < 3. desc_user_access (t ! i) \<longleftrightarrow> i \<noteq> 1) \<and> (\<forall>i < 3. desc_user_exec (t ! i) \<longleftrightarrow> i \<noteq> 0)"
proof -
  define x y z where xyz: "x = L1_DESC 0 1 (UXN OR AP_RW_EL0)" "y = L1_DESC 1 0 AP_RW_EL1" "z = L1_DESC 2 0 AP_RW_EL0"
  have r: "replicate 512 (0 :: u64) = 0 # 0 # 0 # replicate 509 0" by (simp add: numeral_eq_Suc)
  have t: "t = x # y # z # replicate 509 0"
    by (simp add: t_def mmu_init_def enable_mmu_def Let_def assms(1) xyz r list_update_code numeral_2_eq_2)
  have d: "x = 0x40000000000445" "y = 0x40000401" "z = 0x80000441"
    unfolding xyz by (simp_all add: L1_DESC_def ATTRIDX_def AF_def UXN_def AP_RW_EL0_def AP_RW_EL1_def BLOCK_def VALID_def)
  have v: "desc_valid_block x" "desc_valid_block y" "desc_valid_block z" "\<not> desc_valid_block 0"
    by (simp_all add: d desc_valid_block_def)
  have n: "t ! i = (if i = 0 then x else if i = 1 then y else if i = 2 then z else 0)" if "i < 512" for i
    using that by (simp add: t nth_Cons')
  have g: "desc_gib x = 0" "desc_gib y = 1" "desc_gib z = 2" by (simp_all add: d desc_gib_def)
  have u: "desc_user_access x" "\<not> desc_user_access y" "desc_user_access z" "\<not> desc_user_exec x" "desc_user_exec y" "desc_user_exec z"
    by (simp_all add: d desc_user_access_def desc_user_exec_def)
  have three: "i = 0 \<or> i = 1 \<or> i = 2" if "i < 3" for i :: nat using that by auto
  have "\<forall>i < 512. desc_valid_block (t ! i) \<longleftrightarrow> i < 3" using n v by (auto simp: less_Suc_eq numeral_3_eq_3)
  moreover have "\<forall>i < 3. desc_gib (t ! i) = of_nat i" using n g by (auto dest!: three)
  moreover have "\<forall>i < 3. desc_user_access (t ! i) \<longleftrightarrow> i \<noteq> 1" using n u by (auto dest!: three)
  moreover have "\<forall>i < 3. desc_user_exec (t ! i) \<longleftrightarrow> i \<noteq> 0" using n u by (auto dest!: three)
  moreover have "length t = 512" by (simp add: t)
  ultimately show ?thesis by blast
qed

definition cleared_mmu :: mmu where
  "cleared_mmu = \<lparr>l1 = replicate 512 0, mair = 0, tcr = 0, ttbr0 = 0, sctlr = 0, vbar = 0\<rparr>"

theorem mmu_init_permissions_witness: "\<not> desc_user_access (l1 (mmu_init 0 0 cleared_mmu) ! 1) \<and> desc_user_exec (l1 (mmu_init 0 0 cleared_mmu) ! 1)"
  using mmu_init_permissions [of cleared_mmu 0 0] by (simp add: cleared_mmu_def)

end
