(* ===== verification/Boot.thy ===== *)
theory Boot
  imports Message_Props Arch "HOL-Library.Signed_Division"
begin

text \<open>
  Starting the kernel: \<open>kernel_main\<close> and \<open>handle_irq\<close> of \<open>src/src/kernel/kernel.c\<close>, with the interrupt controller
  \<open>src/src/drivers/gic.c\<close> and the timer \<open>src/src/drivers/timer.c\<close>.

  The machine at power-on is the machine of \<open>Message\<close> with the page table of \<open>Arch\<close>; the exception level and the addresses the
  linker assigns are arguments. \<open>kernel_main\<close> does not return: it jumps to user mode or waits for ever. What
  it prints itself is part of the model, the reports of the parts it starts are not. Device registers the interrupt code writes are recorded in order.
\<close>

section \<open>Interrupts\<close>

definition GICD_BASE :: u64 where "GICD_BASE = 0x08000000"
definition GICC_BASE :: u64 where "GICC_BASE = 0x08010000"
definition GICD_ISENABLER :: u64 where "GICD_ISENABLER = 0x100"
definition GICC_IAR :: u64 where "GICC_IAR = 0x00C"
definition GICC_EOIR :: u64 where "GICC_EOIR = 0x010"

text \<open>\<open>iar_at\<close> is what successive reads of \<open>GICC_IAR\<close> return; \<open>tval\<close> is \<open>cntp_tval_el0\<close>, \<open>cntfrq\<close> the counter frequency.\<close>

record irq_dev =
  iar_at :: "nat \<Rightarrow> u32"
  iar_pos :: nat
  gic_writes :: "(u64 \<times> u32) list"
  cntfrq :: u64
  tval :: u64

definition gic_init :: "irq_dev \<Rightarrow> irq_dev" where
  "gic_init d = d"

definition timer_init :: "irq_dev \<Rightarrow> irq_dev" where
  "timer_init d = d"

text \<open>A negative shift is undefined.\<close>

definition gic_enable_interrupt :: "int \<Rightarrow> irq_dev \<Rightarrow> irq_dev option" where
  "gic_enable_interrupt irq d =
     (let reg_offset = GICD_ISENABLER + of_int ((irq sdiv 32) * 4)
      in if irq smod 32 < 0 then None
         else Some (d\<lparr>gic_writes := gic_writes d @ [(GICD_BASE + reg_offset, push_bit (nat (irq smod 32)) 1)]\<rparr>))"

definition gic_acknowledge_interrupt :: "irq_dev \<Rightarrow> u32 \<times> irq_dev" where
  "gic_acknowledge_interrupt d = (iar_at d (iar_pos d), d\<lparr>iar_pos := iar_pos d + 1\<rparr>)"

definition gic_end_interrupt :: "u32 \<Rightarrow> irq_dev \<Rightarrow> irq_dev" where
  "gic_end_interrupt irq d = d\<lparr>gic_writes := gic_writes d @ [(GICC_BASE + GICC_EOIR, irq)]\<rparr>"

definition timer_handler :: "irq_dev \<Rightarrow> irq_dev" where
  "timer_handler d =
     (case gic_acknowledge_interrupt d of (irq, d1) \<Rightarrow>
        let interval = cntfrq d1 div 1000
        in gic_end_interrupt irq (d1\<lparr>tval := interval\<rparr>))"

definition enable_timer_interrupt :: "irq_dev \<Rightarrow> irq_dev option" where
  "enable_timer_interrupt d = gic_enable_interrupt 30 d"

text \<open>\<open>irq_status\<close> is \<open>cntp_ctl_el0\<close>.\<close>

definition handle_irq :: "u64 \<Rightarrow> irq_dev \<Rightarrow> irq_dev" where
  "handle_irq irq_status d = (if irq_status AND 4 \<noteq> 0 then timer_handler d else d)"

section \<open>Booting\<close>

text \<open>\<open>be_adr\<close> gives the addresses of the texts, \<open>be_enter\<close> is the address of \<open>enter_usermode\<close>.\<close>

record boot_env =
  be_l1 :: u64
  be_vectors :: u64
  be_adr :: "nat \<Rightarrow> nat"
  be_enter :: u64

datatype boot_end = Enter_usermode u64 u64 | Panic

definition print_mmu_blocks :: "(nat \<Rightarrow> nat) \<Rightarrow> mmu \<Rightarrow> machine \<Rightarrow> machine option" where
  "print_mmu_blocks adr mm m =
     do { b0 \<leftarrow> mmu_get_l1_block 0 mm;
          m1 \<leftarrow> say_items adr [Inl ''MMU L1 Block 0: '', Inr b0, Inl newline] m;
          b1 \<leftarrow> mmu_get_l1_block 1 mm;
          say_items adr [Inl ''MMU L1 Block 1: '', Inr b1, Inl newline] m1 }"

text \<open>The ellipsis and the dash of the texts are their bytes in UTF-8.\<close>

abbreviation ellipsis :: string where
  "ellipsis \<equiv> [CHR 0xE2, CHR 0x80, CHR 0xA6]"

abbreviation em_dash :: string where
  "em_dash \<equiv> [CHR 0xE2, CHR 0x80, CHR 0x94]"

definition boot_banner :: "(string + u64) list" where
  "boot_banner = [Inl (''ChthonOS v0.1.0'' @ newline @ ''----------------'' @ newline @ ''Booting'' @ ellipsis @ newline @ newline)]"

definition shell_notice :: "(string + u64) list" where
  "shell_notice =
     [Inl (newline @ ''=== kernel shell (EL1) '' @ em_dash @ '' type '' @ [CHR 0x22] @ ''exit'' @ [CHR 0x22] @ '' to continue ==='' @ newline),
      Inl (''Shell exited; continuing boot'' @ ellipsis @ newline @ newline)]"

definition jump_report :: "u64 \<Rightarrow> u64 \<Rightarrow> (string + u64) list" where
  "jump_report pc sp = [Inl (''Dropping to EL0!'' @ newline), Inl ''user->ctx.pc: '', Inr pc, Inl newline, Inl ''user->sp:     '', Inr sp, Inl newline]"

definition pre_jump :: "boot_env \<Rightarrow> u64 \<Rightarrow> (string + u64) list" where
  "pre_jump be cur_el =
     [Inl (''=== About to enter_usermode ==='' @ newline), Inl ''Address of enter_usermode: '', Inr (be_enter be), Inl newline,
      Inl (''!!! PRE-JUMP !!!'' @ newline), Inl ''CurrentEL before eret: '', Inr cur_el, Inl newline]"

text \<open>The part from the creation of the first user process to the jump. \<open>process_create\<close> may return a null pointer, which is not tested.\<close>

definition start_user :: "boot_env \<Rightarrow> u64 \<Rightarrow> mmu \<Rightarrow> machine \<Rightarrow> (boot_end \<times> machine) option" where
  "start_user be current_el mm m =
     do { m1 \<leftarrow> say (be_adr be) (''User shell is already at 0x80000000, no copy needed'' @ newline) m;
          let k = kern m1;
          case process_create 0x80000000 (heap_pos (km k)) (pt k) of (user, h, s) \<Rightarrow>
            do { u \<leftarrow> user;
                 let s1 = pupd u (\<lambda>pr. pr\<lparr>proc_sp := 0x80000000 + 0x10000, pstate := PROC_READY\<rparr>) s;
                 let m2 = m1\<lparr>kern := k\<lparr>pt := s1, km := (km k)\<lparr>heap_pos := h\<rparr>\<rparr>\<rparr>;
                 let pc = ctx_pc (ctx (procs s1 u));
                 let sp = proc_sp (procs s1 u);
                 m3 \<leftarrow> say_items (be_adr be) (jump_report pc sp) m2;
                 m4 \<leftarrow> print_mmu_blocks (be_adr be) mm m3;
                 m5 \<leftarrow> say_items (be_adr be) (pre_jump be current_el) m4;
                 if current_el AND 4 = 0 then
                   do { m6 \<leftarrow> say (be_adr be) (''PANIC: not in EL1!'' @ newline) m5; Some (Panic, m6) }
                 else Some (Enter_usermode pc sp, m5) } }"

definition kernel_main ::
  "boot_env \<Rightarrow> u64 \<Rightarrow> mmu \<Rightarrow> irq_dev \<Rightarrow> machine \<Rightarrow> (boot_end \<times> mmu \<times> irq_dev \<times> machine) option" where
  "kernel_main be current_el mm d m =
     do { m1 \<leftarrow> say_items (be_adr be) boot_banner (m\<lparr>con := uart_init (con m)\<rparr>);
          let mm1 = mmu_init (be_l1 be) (be_vectors be) mm;
          let k1 = (kern m1)\<lparr>pt := process_init (pt (kern m1))\<rparr>;
          k2 \<leftarrow> vfs_init k1;
          m2 \<leftarrow> say_items (be_adr be) shell_notice (m1\<lparr>kern := k2\<rparr>);
          let d1 = gic_init (timer_init d);
          (r, m3) \<leftarrow> start_user be current_el mm1 m2;
          Some (r, mm1, d1, m3) }"

section \<open>The first process\<close>

text \<open>The first process is entered at \<open>0x80000000\<close> on a stack of 64 KiB above it; it is the current process, but stays marked ready while it runs.\<close>

lemma process_create_first:
  assumes "kalloc h sizeof_process = (Some a, h')" "current_process s = None"
  obtains s' where "process_create e h s = (Some (Heap a), h', s')" "current_process s' = Some (Heap a)" "process_list s' = Some (Heap a)"
    "ctx_pc (ctx (procs s' (Heap a))) = e" "cwd (procs s' (Heap a)) = ''/''"
proof -
  obtain u h1 s' where c: "process_create e h s = (u, h1, s')" by (metis prod_cases3)
  then have "u = Some (Heap a)" "h1 = h'" "current_process s' = Some (Heap a)" "process_list s' = Some (Heap a)"
    "ctx_pc (ctx (procs s' (Heap a))) = e" "cwd (procs s' (Heap a)) = ''/''"
    using assms by (auto simp: process_create_def Let_def pupd_def split: if_splits)
  with c show thesis by (intro that) simp_all
qed

lemma print_mmu_blocks_ok:
  assumes "uart_fair (con m)" "length (l1 mm) = 512"
  obtains m' where "print_mmu_blocks adr mm m = Some m'"
    "talks m [] (crlf ''MMU L1 Block 0: '' @ ''0x'' @ hex_digits (l1 mm ! 0) @ crlf newline @ crlf ''MMU L1 Block 1: '' @ ''0x'' @ hex_digits (l1 mm ! 1) @ crlf newline) m'"
proof -
  obtain m1 where m1: "say_items adr [Inl ''MMU L1 Block 0: '', Inr (l1 mm ! 0), Inl newline] m = Some m1"
    "talks m [] (concat (map item_out [Inl ''MMU L1 Block 0: '', Inr (l1 mm ! 0), Inl newline])) m1" by (rule say_items_ok [OF assms(1)])
  then have "uart_fair (con m1)" by (simp add: talks_def)
  then obtain m2 where m2: "say_items adr [Inl ''MMU L1 Block 1: '', Inr (l1 mm ! 1), Inl newline] m1 = Some m2"
    "talks m1 [] (concat (map item_out [Inl ''MMU L1 Block 1: '', Inr (l1 mm ! 1), Inl newline])) m2" by (rule say_items_ok)
  have b: "mmu_get_l1_block 0 mm = Some (l1 mm ! 0)" "mmu_get_l1_block 1 mm = Some (l1 mm ! 1)" using assms(2) by (simp_all add: mmu_get_l1_block_def)
  have "print_mmu_blocks adr mm m = Some m2" by (simp only: print_mmu_blocks_def b m1(1) m2(1) bind.bind_lunit)
  then show thesis by (rule that) (use talks_trans [OF m1(2) m2(2)] in \<open>simp add: item_out_def\<close>)
qed

text \<open>What \<open>start_user\<close> sends before the jump.\<close>

definition start_report :: "boot_env \<Rightarrow> u64 \<Rightarrow> mmu \<Rightarrow> byte list" where
  "start_report be el mm =
     crlf (''User shell is already at 0x80000000, no copy needed'' @ newline) @ concat (map item_out (jump_report 0x80000000 0x80010000))
     @ (crlf ''MMU L1 Block 0: '' @ ''0x'' @ hex_digits (l1 mm ! 0) @ crlf newline @ crlf ''MMU L1 Block 1: '' @ ''0x'' @ hex_digits (l1 mm ! 1) @ crlf newline)
     @ concat (map item_out (pre_jump be el))"

lemma start_user_enters:
  assumes "current_process (pt (kern m)) = None" "unat (heap_pos (km (kern m))) + 3672 \<le> 1048576" "el AND 4 \<noteq> 0"
    and f: "uart_fair (con m)" "length (l1 mm) = 512"
  obtains m' u where "start_user be el mm m = Some (Enter_usermode 0x80000000 0x80010000, m')" "current_process (pt (kern m')) = Some u"
    "process_list (pt (kern m')) = Some u" "pstate (procs (pt (kern m')) u) = PROC_READY" "cwd (procs (pt (kern m')) u) = ''/''"
    "tx (con m') = tx (con m) @ start_report be el mm"
proof -
  let ?h = "heap_pos (km (kern m))"
  obtain m1 where m1: "say (be_adr be) (''User shell is already at 0x80000000, no copy needed'' @ newline) m = Some m1"
    "talks m [] (crlf (''User shell is already at 0x80000000, no copy needed'' @ newline)) m1" by (rule say_ok [OF f(1)])
  have "kalloc ?h sizeof_process = (Some ?h, ?h + sizeof_process)"
    using assms(2) kalloc_no_wrap [of ?h sizeof_process]
    by (simp add: kalloc_def HEAP_SIZE_def word_less_nat_alt sizeof_process_def kalloc_request_ok_def)
  from process_create_first [OF this assms(1), of "0x80000000"] obtain s' where
    c: "process_create 0x80000000 ?h (pt (kern m)) = (Some (Heap ?h), ?h + sizeof_process, s')" and
    s': "current_process s' = Some (Heap ?h)" "process_list s' = Some (Heap ?h)" "ctx_pc (ctx (procs s' (Heap ?h))) = 0x80000000"
      "cwd (procs s' (Heap ?h)) = ''/''" by blast
  define s1 where "s1 = pupd (Heap ?h) (\<lambda>pr. pr\<lparr>proc_sp := 0x80010000, pstate := PROC_READY\<rparr>) s'"
  define m2 where "m2 = m1\<lparr>kern := (kern m)\<lparr>pt := s1, km := (km (kern m))\<lparr>heap_pos := ?h + sizeof_process\<rparr>\<rparr>\<rparr>"
  have "uart_fair (con m2)" using m1(2) by (simp add: m2_def talks_def)
  then obtain m3 where m3: "say_items (be_adr be) (jump_report 0x80000000 0x80010000) m2 = Some m3"
    "talks m2 [] (concat (map item_out (jump_report 0x80000000 0x80010000))) m3" by (rule say_items_ok)
  then have "uart_fair (con m3)" by (simp add: talks_def)
  from print_mmu_blocks_ok [OF this f(2)] obtain m4 where m4: "print_mmu_blocks (be_adr be) mm m3 = Some m4"
    "talks m3 [] (crlf ''MMU L1 Block 0: '' @ ''0x'' @ hex_digits (l1 mm ! 0) @ crlf newline @ crlf ''MMU L1 Block 1: '' @ ''0x'' @ hex_digits (l1 mm ! 1) @ crlf newline) m4" .
  then have "uart_fair (con m4)" by (simp add: talks_def)
  then obtain m5 where m5: "say_items (be_adr be) (pre_jump be el) m4 = Some m5" "talks m4 [] (concat (map item_out (pre_jump be el))) m5" by (rule say_items_ok)
  have k: "kern m1 = kern m" "tx (con m2) = tx (con m) @ crlf (''User shell is already at 0x80000000, no copy needed'' @ newline)"
    using m1(2) by (simp_all add: talks_def m2_def)
  have p: "ctx_pc (ctx (procs s1 (Heap ?h))) = 0x80000000" "proc_sp (procs s1 (Heap ?h)) = 0x80010000" using s'(3) by (simp_all add: s1_def pupd_def)
  have u: "0x80000000 + 0x10000 = (0x80010000 :: u64)" by simp
  have t: "kern m5 = kern m2" "tx (con m5) = tx (con m) @ start_report be el mm"
    using m3(2) m4(2) m5(2) k(2) by (simp_all add: talks_def start_report_def)
  have e: "start_user be el mm m = Some (Enter_usermode 0x80000000 0x80010000, m5)"
    using assms(3) unfolding start_user_def m1(1) bind.bind_lunit Let_def k(1) c prod.case u s1_def [symmetric] m2_def [symmetric] p m3(1) m4(1) m5(1) by simp
  show thesis using s' t(2) by (intro that [OF e, of "Heap ?h"]) (simp_all add: t(1) m2_def s1_def pupd_def)
qed

section \<open>Properties of the interrupt code\<close>

text \<open>A pending timer interrupt is acknowledged once and ended with the number that was read.\<close>

lemma handle_irq_ends_interrupt:
  "irq_status AND 4 \<noteq> 0 \<Longrightarrow> handle_irq irq_status d = d\<lparr>iar_pos := iar_pos d + 1, tval := cntfrq d div 1000,
     gic_writes := gic_writes d @ [(GICC_BASE + GICC_EOIR, iar_at d (iar_pos d))]\<rparr>"
  by (simp add: handle_irq_def timer_handler_def gic_acknowledge_interrupt_def gic_end_interrupt_def Let_def)

lemma smod_nat: "int n smod 32 = int (n mod 32)" "int n sdiv 32 = int (n div 32)"
  by (simp_all add: signed_modulo_int_def signed_divide_int_def zmod_int zdiv_int sgn_if)

text \<open>Every interrupt number below 1020 has a register and a bit of its own.\<close>

lemma gic_enable_own_bit:
  assumes "n < 1020"
  shows "gic_enable_interrupt (int n) d = Some (d\<lparr>gic_writes := gic_writes d @ [(0x08000100 + of_nat (4 * (n div 32)), 2 ^ (n mod 32))]\<rparr>)"
  by (simp add: gic_enable_interrupt_def smod_nat Let_def GICD_BASE_def GICD_ISENABLER_def push_bit_eq_mult algebra_simps nat_mod_distrib)

section \<open>The file systems after the start\<close>

text \<open>The process table and the disk when \<open>vfs_init\<close> has made its test file.\<close>

lemma test_abyssfs_root:
  obtains d where "test_abyssfs (Some ''/'') (abyss_format st) = Some d" "abyss_wf d [(''.'', 1), (''..'', 1), (''hello.txt'', 2)]"
proof -
  obtain st1 where a: "alloc_inode (abyss_format st) = (2, st1)"
    using format_inode_2 [of st] by (cases "alloc_inode (abyss_format st)") auto
  note w = alloc_inode_wf [OF abyss_format_wf(1) a]
  have g: "get_inode 2 st1 = Some (inode_addr 2)" using get_inode_ok [OF abyss_wf_sb [OF w(1)], of 2] by simp
  define st2 where "st2 = set_i_blocks (inode_addr 2) 0 (set_i_size (inode_addr 2) 0 (set_i_mode (inode_addr 2) 0x1FF st1))"
  have w2: "abyss_wf st2 [(''.'', 1), (''..'', 1)]"
    by (rule abyss_wf_inode [OF w(1), of 2]) (simp_all add: st2_def inode_frame)
  obtain st3 where "create_file (Some ''/'') ''hello.txt'' 2 st2 = Some (0, st3)" "abyss_wf st3 ([(''.'', 1), (''..'', 1)] @ [(''hello.txt'', 2)])"
    by (rule create_file_root [OF w2, of "''hello.txt''" 2]) (simp_all add: name_ok_def esize_def esize_dots)
  then show thesis using a g by (intro that [of st3]) (simp_all add: test_abyssfs_def st2_def Let_def)
qed

lemma test_abyssfs_null: "test_abyssfs None (abyss_format st) = None"
proof -
  obtain st1 where a: "alloc_inode (abyss_format st) = (2, st1)"
    using format_inode_2 [of st] by (cases "alloc_inode (abyss_format st)") auto
  note w = alloc_inode_wf [OF abyss_format_wf(1) a]
  have g: "get_inode 2 st1 = Some (inode_addr 2)" using get_inode_ok [OF abyss_wf_sb [OF w(1)], of 2] by simp
  have "last_idx CHR ''/'' ''hello.txt'' = None" by (simp add: last_idx_None_iff)
  then show ?thesis using a g by (simp add: test_abyssfs_def create_file_def create_target_def Let_def)
qed

lemma kalloc_room: "unat h + unat n \<le> 1048576 \<Longrightarrow> kalloc h n = (Some h, h + n) \<and> unat (h + n) = unat h + unat n"
  by (simp add: kalloc_def HEAP_SIZE_def word_less_nat_alt unat_add_small)

text \<open>Everything \<open>vfs_init\<close> does before the test file.\<close>

definition mounted :: "kernel \<Rightarrow> kernel" where
  "mounted k = k\<lparr>disk := abyss_format (disk k), ram := ramfs_init (ram k), km := (km k)\<lparr>heap_pos := heap_pos (km k) + 262144 + 32 + 32\<rparr>,
     mount_points := demo_mounts\<rparr>"

lemma vfs_init_mounted:
  assumes "unat (heap_pos (km k)) + 262208 \<le> 1048576" "\<not> abyssfs_initialized (disk k)" "mount_points k = []"
  shows "vfs_init k = Option.bind (test_abyssfs (map_option cwd (cur_proc k)) (abyss_format (disk k))) (\<lambda>d. Some ((mounted k)\<lparr>disk := d\<rparr>))"
proof -
  let ?h = "heap_pos (km k)"
  have a1: "kalloc ?h 262144 = (Some ?h, ?h + 262144)" "unat (?h + 262144) = unat ?h + 262144"
    using kalloc_room [of ?h 262144] assms(1) by simp_all
  have a2: "kalloc (?h + 262144) 32 = (Some (?h + 262144), ?h + 262144 + 32)" "unat (?h + 262144 + 32) = unat ?h + 262144 + 32"
    using kalloc_room [of "?h + 262144" 32] a1(2) assms(1) by simp_all
  have a3: "kalloc (?h + 262144 + 32) 32 = (Some (?h + 262144 + 32), ?h + 262144 + 32 + 32)"
    using kalloc_room [of "?h + 262144 + 32" 32] a2(2) assms(1) by simp
  define k1 where "k1 = k\<lparr>disk := abyss_format (disk k), km := (km k)\<lparr>heap_pos := ?h + 262144\<rparr>, ram := ramfs_init (ram k)\<rparr>"
  have i: "abyssfs_init (disk k) (km k) = (abyss_format (disk k), (km k)\<lparr>heap_pos := ?h + 262144\<rparr>)"
    using assms(2) a1(1) by (simp add: abyssfs_init_def BLOCK_SIZE_def)
  have m1: "snd (vfs_mount ''/'' AbyssFs k1) = k1\<lparr>km := (km k1)\<lparr>heap_pos := ?h + 262144 + 32\<rparr>, mount_points := take 1 demo_mounts\<rparr>"
    using assms(3) a2(1) abyss_format_wf(4) [of "disk k"]
    by (simp add: vfs_mount_def fs_mount_eq abyssfs_mount_def abyssfs_init_def sizeof_vfs_super_block_def k1_def MAX_MOUNTS_def demo_mounts_def)
  have m2: "snd (vfs_mount ''/tmp'' RamFs (snd (vfs_mount ''/'' AbyssFs k1))) = mounted k"
    unfolding m1 using a3
    by (simp add: vfs_mount_def fs_mount_eq ramfs_mount_def sizeof_vfs_super_block_def k1_def MAX_MOUNTS_def demo_mounts_def mounted_def)
  have c: "cur_proc (mounted k) = cur_proc k" "disk (mounted k) = abyss_format (disk k)" by (simp_all add: mounted_def cur_proc_def)
  show ?thesis unfolding vfs_init_def i prod.case Let_def k1_def [symmetric] m2 c ..
qed

text \<open>C26: with a process whose working directory is the root, \<open>vfs_init\<close> on the cleared statics mounts AbyssFS at \<open>/\<close> and an empty RAM disk at \<open>/tmp\<close> and leaves a
  formatted disk whose root directory holds \<open>.\<close>, \<open>..\<close> and the test file \<open>hello.txt\<close>; listing \<open>/\<close> shows them. Without a current process it follows a null
  pointer, and this is the case in \<open>kernel_main\<close>, which clears the process table before it and creates the first process after it.\<close>

theorem vfs_init_starts_file_systems:
  assumes "unat (heap_pos (km k)) + 262208 \<le> 1048576" "\<not> abyssfs_initialized (disk k)" "mount_points k = []"
  shows "(cur_proc k = Some p \<and> cwd p = ''/'' \<and> ns p = [] \<longrightarrow>
      (\<exists>k' ds. vfs_init k = Some k' \<and> map (\<lambda>mp. (mp_path mp, mp_fs mp)) (mount_points k') = [(''/'', AbyssFs), (''/tmp'', RamFs)]
        \<and> abyss_wf (disk k') [(''.'', 1), (''..'', 1), (''hello.txt'', 2)] \<and> (\<forall>q. ram_lookup (ram k') q = None)
        \<and> vfs_read_dir ''/'' 32 k' = Some (Some ds, k') \<and> map d_name ds = [''.'', ''..'', ''hello.txt'']))
    \<and> (cur_proc k = None \<longrightarrow> vfs_init k = None)
    \<and> (kern m = k \<longrightarrow> kernel_main be el mm d m = None)"
proof (intro conjI impI)
  assume c: "cur_proc k = Some p \<and> cwd p = ''/'' \<and> ns p = []"
  obtain d where d: "test_abyssfs (Some ''/'') (abyss_format (disk k)) = Some d" "abyss_wf d [(''.'', 1), (''..'', 1), (''hello.txt'', 2)]"
    by (rule test_abyssfs_root)
  define k' where "k' = (mounted k)\<lparr>disk := d\<rparr>"
  have "vfs_init k = Some k'" using vfs_init_mounted [OF assms] c d(1) by (simp add: k'_def)
  moreover have "ram_lookup (ram k') q = None" for q
  proof -
    have "ram_find q (ramfs_init (ram k)) = None" by (auto simp: ram_find_def ramfs_init_def first_idx_None_iff zero_ramfs_file_def)
    then show ?thesis by (simp add: k'_def mounted_def ram_lookup_def)
  qed
  moreover have "vfs_read_dir ''/'' 32 k' = Some (Some (map as_dirent [(''.'', 1), (''..'', 1), (''hello.txt'', 2)]), k')"
  proof -
    have f: "cur_proc k' = Some p" "disk k' = d" "find_mount ''/'' k' = Some (hd demo_mounts)"
      using c by (simp_all add: k'_def mounted_def cur_proc_def find_mount_def demo_mounts_def)
    have "resolve_namespace_path ''/'' k' = Some (''/'', k')" using c f(1) by (simp add: resolve_namespace_path_def)
    then show ?thesis
      using f read_dir_root [OF d(2), of "''/''" 32] by (simp add: vfs_read_dir_def fs_read_dir_eq demo_mounts_def)
  qed
  moreover have names: "map d_name (map as_dirent [(''.'', 1), (''..'', 1), (''hello.txt'', 2)]) = [''.'', ''..'', ''hello.txt'']"
    by (simp add: as_dirent_def)
  moreover have mp: "map (\<lambda>mp. (mp_path mp, mp_fs mp)) (mount_points k') = [(''/'', AbyssFs), (''/tmp'', RamFs)]" "abyss_wf (disk k') [(''.'', 1), (''..'', 1), (''hello.txt'', 2)]"
    using d(2) by (simp_all add: k'_def mounted_def demo_mounts_def)
  ultimately show "\<exists>k' ds. vfs_init k = Some k' \<and> map (\<lambda>mp. (mp_path mp, mp_fs mp)) (mount_points k') = [(''/'', AbyssFs), (''/tmp'', RamFs)]
      \<and> abyss_wf (disk k') [(''.'', 1), (''..'', 1), (''hello.txt'', 2)] \<and> (\<forall>q. ram_lookup (ram k') q = None)
      \<and> vfs_read_dir ''/'' 32 k' = Some (Some ds, k') \<and> map d_name ds = [''.'', ''..'', ''hello.txt'']"
    by (intro exI [of _ k'] exI [of _ "map as_dirent [(''.'', 1), (''..'', 1), (''hello.txt'', 2)]"] conjI allI)
next
  assume "cur_proc k = None"
  then show "vfs_init k = None" using vfs_init_mounted [OF assms] by (simp add: test_abyssfs_null)
next
  assume "kern m = k"
  then have v: "vfs_init (k\<lparr>pt := process_init (pt k)\<rparr>) = None"
    using vfs_init_mounted [of "k\<lparr>pt := process_init (pt k)\<rparr>"] assms by (simp add: test_abyssfs_null cur_proc_def process_init_def)
  show "kernel_main be el mm d m = None"
  proof (cases "say_items (be_adr be) boot_banner (m\<lparr>con := uart_init (con m)\<rparr>)")
    case (Some m1)
    from say_items_kern [OF this] \<open>kern m = k\<close> v show ?thesis by (simp add: kernel_main_def Let_def Some)
  qed (simp add: kernel_main_def)
qed

definition zero_mmu :: mmu where
  "zero_mmu = \<lparr>l1 = replicate 512 0, mair = 0, tcr = 0, ttbr0 = 0, sctlr = 0, vbar = 0\<rparr>"

definition demo_boot :: boot_env where
  "demo_boot = \<lparr>be_l1 = 0, be_vectors = 0, be_adr = (\<lambda>_. 1), be_enter = 0x40001000\<rparr>"

definition zero_irq :: irq_dev where
  "zero_irq = \<lparr>iar_at = (\<lambda>_. 30), iar_pos = 0, gic_writes = [], cntfrq = 0, tval = 0\<rparr>"

definition boot_kernel :: kernel where
  "boot_kernel = (kernel0 0)\<lparr>pt := ptable0\<lparr>procs := (\<lambda>_. demo_process\<lparr>cwd := ''/''\<rparr>), current_process := Some (Slot 0)\<rparr>\<rparr>"

theorem vfs_init_starts_file_systems_witness:
  "(\<exists>k'. vfs_init boot_kernel = Some k' \<and> abyss_wf (disk k') [(''.'', 1), (''..'', 1), (''hello.txt'', 2)])
    \<and> vfs_init (kernel0 0) = None \<and> kernel_main demo_boot 4 zero_mmu zero_irq (demo_machine\<lparr>kern := kernel0 0\<rparr>) = None"
proof -
  have b: "cur_proc boot_kernel = Some (demo_process\<lparr>cwd := ''/''\<rparr>)" "unat (heap_pos (km boot_kernel)) + 262208 \<le> 1048576"
    "\<not> abyssfs_initialized (disk boot_kernel)" "mount_points boot_kernel = []"
    by (simp_all add: boot_kernel_def kernel0_def cur_proc_def abyss0_def)
  have k: "cur_proc (kernel0 0) = None" "unat (heap_pos (km (kernel0 0))) + 262208 \<le> 1048576"
    "\<not> abyssfs_initialized (disk (kernel0 0))" "mount_points (kernel0 0) = []"
    by (simp_all add: kernel0_def cur_proc_def abyss0_def ptable0_def)
  show ?thesis
    using vfs_init_starts_file_systems [OF b(2-4), THEN conjunct1, of "demo_process\<lparr>cwd := ''/''\<rparr>"] b(1)
      vfs_init_starts_file_systems [OF k(2-4), where m = "demo_machine\<lparr>kern := kernel0 0\<rparr>" and be = "demo_boot" and el = 4 and mm = zero_mmu and d = zero_irq] k(1)
    by auto
qed

end
