(* ===== verification/Self_Tests.thy ===== *)
theory Self_Tests
  imports Shell Sched Boot
begin

text \<open>
  The programs that exercise the kernel: the tests at the end of \<open>src/src/kernel/kernel.c\<close> and the programs of \<open>src/src/user/process_test.c\<close>.

  A test is a function on the machine of \<open>Message\<close>; the console holds what the test itself prints, as in \<open>Shell\<close>. A buffer on the
  stack that is not initialised is an argument. A program ends in \<open>process_exit\<close>, whose outcome is the result; without a current process that
  function returns and the program goes on, so the rest of a program is passed to \<open>exit_then\<close>.
\<close>

section \<open>Tests of the file systems\<close>

text \<open>\<open>ramfs_create_file\<close> on the machine.\<close>

definition on_ram :: "int \<times> ramfs \<Rightarrow> machine \<Rightarrow> int \<times> machine" where
  "on_ram r m = (fst r, m\<lparr>kern := (kern m)\<lparr>ram := snd r\<rparr>\<rparr>)"

definition test_vfs :: "(nat \<Rightarrow> nat) \<Rightarrow> machine \<Rightarrow> machine option" where
  "test_vfs adr m =
     (case on_ram (ramfs_create_file ''/tmp/test.txt'' ''Hello from RAMFS!'' (ram (kern m))) m of (r, m1) \<Rightarrow>
        if r < 0 then say adr (''Failed to create file'' @ newline) m1
        else do { (fd0, m2) \<leftarrow> on_kern (vfs_open ''/tmp/test.txt'' (kern m1)) m1;
                  if fd0 < 0 then say adr (''Failed to open file'' @ newline) m2
                  else do { (n, bs, k) \<leftarrow> vfs_read fd0 128 (kern m2);
                            let m3 = m2\<lparr>kern := k\<rparr>;
                            if n < 0 then say adr (''Failed to read file'' @ newline) m3 else Some m3 } })"

definition test_ramfs :: "(nat \<Rightarrow> nat) \<Rightarrow> machine \<Rightarrow> machine option" where
  "test_ramfs adr m =
     (case on_ram (ramfs_create_file ''/tmp/test.txt'' ''Hello from RAMFS!'' (ram (kern m))) m of (r, m1) \<Rightarrow>
        if r < 0 then say adr (''Failed to create file'' @ newline) m1
        else do { (fd0, m2) \<leftarrow> on_kern (vfs_open ''/tmp/test.txt'' (kern m1)) m1;
                  if fd0 < 0 then say adr (''Failed to open file through VFS'' @ newline) m2
                  else do { (n, bs, k) \<leftarrow> vfs_read fd0 64 (kern m2);
                            let m3 = m2\<lparr>kern := k\<rparr>;
                            if n < 0 then say adr (''Failed to read file'' @ newline) m3 else Some m3 } })"

text \<open>The function is not called.\<close>

definition test_mount :: "kmem \<Rightarrow> vfs_super_block option \<times> kmem" where
  "test_mount m =
     (case kalloc (heap_pos m) sizeof_vfs_super_block of
        (None, h) \<Rightarrow> (None, m\<lparr>heap_pos := h\<rparr>)
      | (Some _, h) \<Rightarrow> (Some \<lparr>s_magic = 0x1234, s_type = ''ramfs''\<rparr>, m\<lparr>heap_pos := h\<rparr>))"

section \<open>Reports on the disk\<close>

definition say_char :: "byte \<Rightarrow> machine \<Rightarrow> machine option" where
  "say_char c m = map_option (\<lambda>u. m\<lparr>con := u\<rparr>) (uart_putc c (con m))"

text \<open>A number is shown as the single character \<open>'0' + n\<close>, cut to eight bits.\<close>

definition digit_char :: "u32 \<Rightarrow> byte" where
  "digit_char n = char_of (48 + unat n)"

definition debug_dir_entry :: "(nat \<Rightarrow> nat) \<Rightarrow> nat \<Rightarrow> machine \<Rightarrow> machine option" where
  "debug_dir_entry adr p m =
     do { require (p + ABYSSFS_DIR_ENTRY_FIXED_SIZE \<le> DISK_SIZE);
          m1 \<leftarrow> say adr ''Dir entry: inode='' m;
          m2 \<leftarrow> say_char (digit_char (de_inode (blocks (disk (kern m))) p)) m1;
          m3 \<leftarrow> say adr '', name='' m2;
          nm \<leftarrow> cstr_at DISK_SIZE (blocks (disk (kern m))) (p + 6);
          m4 \<leftarrow> say adr nm m3;
          say adr newline m4 }"

definition test_inode_alloc :: "(nat \<Rightarrow> nat) \<Rightarrow> machine \<Rightarrow> machine option" where
  "test_inode_alloc adr m =
     (case alloc_inode (disk (kern m)) of (inode, st) \<Rightarrow>
        do { m1 \<leftarrow> say adr ''Allocated inode: '' (m\<lparr>kern := (kern m)\<lparr>disk := st\<rparr>\<rparr>);
             m2 \<leftarrow> say_char (digit_char inode) m1;
             say adr newline m2 })"

section \<open>Tests of the messages\<close>

text \<open>\<open>buf\<close> is the array of 64 bytes; the same message is used for both requests.\<close>

definition test_messages :: "env \<Rightarrow> byte list \<Rightarrow> machine \<Rightarrow> msg_result" where
  "test_messages e buf m =
     do { (_, msg1, m1) \<leftarrow> send_message e ((blank_message (msg_code MSG_OPEN))\<lparr>path := Some ''/hello.txt''\<rparr>) m;
          send_message e (msg1\<lparr>msg_type := msg_code MSG_READ, data := Some buf, msg_size := 64\<rparr>) m1 }"

definition test_namespaces :: "env \<Rightarrow> machine \<Rightarrow> msg_result" where
  "test_namespaces e m =
     do { (_, m1) \<leftarrow> on_kern (bind_ns ''/tmp'' ''/private'' MREPL (kern m)) m;
          (_, msg1, m2) \<leftarrow> send_message e ((blank_message (msg_code MSG_OPEN))\<lparr>path := Some ''/tmp/test.txt'',
               data := Some (''X'' @ [NUL]), msg_size := 1\<rparr>) m1;
          send_message e (msg1\<lparr>path := Some ''/private/test.txt''\<rparr>) m2 }"

definition upd_pt :: "ptable \<Rightarrow> machine \<Rightarrow> machine" where
  "upd_pt s m = m\<lparr>kern := (kern m)\<lparr>pt := s\<rparr>\<rparr>"

text \<open>The message received; \<open>None\<close> inside when the test gave up.\<close>

definition test_ipc :: "(nat \<Rightarrow> nat) \<Rightarrow> machine \<Rightarrow> ((sched_outcome option \<times> int \<times> Message) option \<times> machine) option" where
  "test_ipc adr m =
     (case get_current_process (pt (kern m)) of
        None \<Rightarrow> do { m1 \<leftarrow> say adr (''No current process!'' @ newline) m; Some (None, m1) }
      | Some p \<Rightarrow>
          do { let msg = (blank_message 1)\<lparr>data := Some (''Hi'' @ [NUL]), msg_size := 2\<rparr>;
               let s1 = snd (queue_message p msg (pt (kern m)));
               (out, r, rcv, s2) \<leftarrow> receive_message (blank_message 0) s1;
               Some (Some (out, r, rcv), upd_pt s2 m) })"

section \<open>Tests of the processes\<close>

datatype test_end = Exited sched_outcome | Waited reply Message

definition test_processes :: "env \<Rightarrow> machine \<Rightarrow> (test_end \<times> machine) option" where
  "test_processes e m =
     do { (r, msg1, m1) \<leftarrow> send_message e (blank_message (msg_code MSG_FORK)) m;
          case r of
            Suspend out \<Rightarrow> None
          | Return ret \<Rightarrow>
              if ret = 0
              then do { (out, s) \<leftarrow> exit_process 42 (pt (kern m1)); Some (Exited out, upd_pt s m1) }
              else do { (w, msg2, m2) \<leftarrow> send_message e (msg1\<lparr>msg_type := msg_code MSG_WAIT\<rparr>) m1; Some (Waited w msg2, m2) } }"

definition test_exec :: "env \<Rightarrow> machine \<Rightarrow> msg_result" where
  "test_exec e m =
     send_message e ((blank_message (msg_code MSG_EXEC))\<lparr>path := Some ''/bin/test'', entry := process3 (env_lm e), argv := Some [''test'']\<rparr>) m"

section \<open>Programs\<close>

type_synonym prog_result = "(sched_outcome option \<times> machine) option"

text \<open>\<open>process_exit(st)\<close> followed by the code after it, which runs only when \<open>process_exit\<close> returns.\<close>

definition exit_then :: "int \<Rightarrow> (machine \<Rightarrow> prog_result) \<Rightarrow> machine \<Rightarrow> prog_result" where
  "exit_then st rest m =
     do { (out, s) \<leftarrow> process_exit st (pt (kern m));
          case out of Some o1 \<Rightarrow> Some (Some o1, upd_pt s m) | None \<Rightarrow> rest (upd_pt s m) }"

abbreviation prog_return :: "machine \<Rightarrow> prog_result" where
  "prog_return m \<equiv> Some (None, m)"

definition list_dir :: "(nat \<Rightarrow> nat) \<Rightarrow> string \<Rightarrow> machine \<Rightarrow> machine option" where
  "list_dir adr path0 m =
     do { (r, k) \<leftarrow> vfs_read_dir path0 32 (kern m);
          case r of
            None \<Rightarrow> Some (m\<lparr>kern := k\<rparr>)
          | Some dirents \<Rightarrow> say_all adr (concat (map (\<lambda>d. [d_name d, newline]) dirents)) (m\<lparr>kern := k\<rparr>) }"

text \<open>The parts of \<open>process1\<close> in reverse order. \<open>buf\<close> is the array of 128 bytes.\<close>

definition process1_list :: "(nat \<Rightarrow> nat) \<Rightarrow> machine \<Rightarrow> prog_result" where
  "process1_list adr m =
     do { m1 \<leftarrow> say adr (newline @ ''Listing /tmp/data:'' @ newline) m;
          m2 \<leftarrow> list_dir adr ''/tmp/data'' m1;
          m3 \<leftarrow> say adr (newline @ ''Listing /private:'' @ newline) m2;
          m4 \<leftarrow> list_dir adr ''/private'' m3;
          exit_then 0 prog_return m4 }"

definition process1_show :: "(nat \<Rightarrow> nat) \<Rightarrow> byte list \<Rightarrow> machine \<Rightarrow> prog_result" where
  "process1_show adr buf m =
     do { s \<leftarrow> cstr_of buf;
          m1 \<leftarrow> say_all adr [''Read through namespace: '', s, newline] m;
          process1_list adr m1 }"

definition process1_read :: "(nat \<Rightarrow> nat) \<Rightarrow> byte list \<Rightarrow> int \<Rightarrow> machine \<Rightarrow> prog_result" where
  "process1_read adr buf fd0 m =
     do { (n, bs, k) \<leftarrow> vfs_read fd0 128 (kern m);
          let m1 = m\<lparr>kern := k\<rparr>;
          if n < 0
          then do { m2 \<leftarrow> say adr (''Failed to read file through namespace'' @ newline) m1; exit_then 1 (process1_show adr buf) m2 }
          else process1_show adr (bs @ drop (length bs) buf) m1 }"

definition process1_open :: "(nat \<Rightarrow> nat) \<Rightarrow> byte list \<Rightarrow> machine \<Rightarrow> prog_result" where
  "process1_open adr buf m =
     do { m1 \<leftarrow> say adr (''Accessing file through namespace as /private/test.txt'' @ newline) m;
          (fd0, m2) \<leftarrow> on_kern (vfs_open ''/private/test.txt'' (kern m1)) m1;
          if fd0 < 0
          then do { m3 \<leftarrow> say adr (''Failed to open file through namespace'' @ newline) m2; exit_then 1 (process1_read adr buf fd0) m3 }
          else process1_read adr buf fd0 m2 }"

definition process1_bind :: "(nat \<Rightarrow> nat) \<Rightarrow> byte list \<Rightarrow> machine \<Rightarrow> prog_result" where
  "process1_bind adr buf m =
     do { m1 \<leftarrow> say adr (''Creating bind mount: /private -> /tmp/data'' @ newline) m;
          (r, m2) \<leftarrow> on_kern (bind_ns ''/tmp/data'' ''/private'' MREPL (kern m1)) m1;
          if r < 0
          then do { m3 \<leftarrow> say adr (''Failed to create bind mount'' @ newline) m2; exit_then 1 (process1_open adr buf) m3 }
          else process1_open adr buf m2 }"

definition process1 :: "(nat \<Rightarrow> nat) \<Rightarrow> byte list \<Rightarrow> machine \<Rightarrow> prog_result" where
  "process1 adr buf m =
     do { m1 \<leftarrow> say_all adr [''Process 1: Testing basic namespace binding'' @ newline, ''Creating directories...'' @ newline] m;
          (_, m2) \<leftarrow> on_kern (vfs_mkdir ''/tmp/data'' (kern m1)) m1;
          (_, m3) \<leftarrow> on_kern (vfs_mkdir ''/private'' (kern m2)) m2;
          m4 \<leftarrow> say adr (''Creating test file in /tmp/data/test.txt'' @ newline) m3;
          case on_ram (ramfs_create_file ''/tmp/data/test.txt'' ''Hello from RAMFS!'' (ram (kern m4))) m4 of (r, m5) \<Rightarrow>
            if r < 0
            then do { m6 \<leftarrow> say adr (''Failed to create test file'' @ newline) m5; exit_then 1 (process1_bind adr buf) m6 }
            else process1_bind adr buf m5 }"

text \<open>The loop over the three paths.\<close>

fun process2_loop :: "(nat \<Rightarrow> nat) \<Rightarrow> string list \<Rightarrow> machine \<Rightarrow> machine option" where
  "process2_loop adr [] m = Some m"
| "process2_loop adr (p # ps) m =
     do { (fd0, m1) \<leftarrow> on_kern (vfs_open p (kern m)) m;
          m2 \<leftarrow> (if fd0 \<ge> 0
                then do { (n, bs, k) \<leftarrow> vfs_read fd0 128 (kern m1);
                          if n > 0 then say_all adr [''Successfully read through '', p, newline] (m1\<lparr>kern := k\<rparr>)
                          else Some (m1\<lparr>kern := k\<rparr>) }
                else Some m1);
          process2_loop adr ps m2 }"

definition process2 :: "(nat \<Rightarrow> nat) \<Rightarrow> machine \<Rightarrow> prog_result" where
  "process2 adr m =
     do { m1 \<leftarrow> say adr (''Process 2: Testing multiple namespace bindings'' @ newline) m;
          (_, m2) \<leftarrow> on_kern (bind_ns ''/tmp'' ''/data'' MREPL (kern m1)) m1;
          (_, m3) \<leftarrow> on_kern (bind_ns ''/tmp'' ''/backup'' MREPL (kern m2)) m2;
          let m4 = snd (on_ram (ramfs_create_file ''/tmp/shared.txt'' ''Shared through namespaces'' (ram (kern m3))) m3);
          m5 \<leftarrow> process2_loop adr [''/tmp/shared.txt'', ''/data/shared.txt'', ''/backup/shared.txt''] m4;
          exit_then 0 prog_return m5 }"

function process3_loop :: "(nat \<Rightarrow> nat) \<Rightarrow> u64 \<Rightarrow> machine \<Rightarrow> machine option" where
  "process3_loop adr counter m =
     (if counter < 5 then do { m1 \<leftarrow> say adr ''.'' m; process3_loop adr (counter + 1) m1 } else Some m)"
  by pat_completeness auto
termination
proof (relation "measure (\<lambda>(adr, counter, m). 5 - unat counter)")
  fix counter :: u64
  assume "counter < 5"
  then have "unat counter < 5" by (simp add: word_less_nat_alt)
  moreover from this have "unat (counter + 1) = unat counter + 1" using unat_add_small [of counter 1] by simp
  ultimately show "((adr, counter + 1, m1), adr, counter, m) \<in> measure (\<lambda>(adr, counter, m). 5 - unat counter)" for adr m1 m by simp
qed simp

declare process3_loop.simps [simp del]

text \<open>The code at the address \<open>process3\<close> of the link map.\<close>

definition process3_run :: "(nat \<Rightarrow> nat) \<Rightarrow> machine \<Rightarrow> prog_result" where
  "process3_run adr m =
     do { m1 \<leftarrow> say adr (''Process 3: Testing namespace isolation'' @ newline) m;
          m2 \<leftarrow> process3_loop adr 0 m1;
          m3 \<leftarrow> say adr (newline @ ''Process 3 done'' @ newline) m2;
          exit_then 0 prog_return m3 }"

end
