(* ===== verification/Abyss_Tree.thy ===== *)
theory Abyss_Tree
  imports Abyss_Props
begin

text \<open>
  Directories below the root: \<open>abyssfs_mkdir\<close> of \<open>src/src/fs/abyssfs.c\<close> at any place of the directory tree.

  A part of the tree is a map \<open>D\<close> from inode numbers to directories. \<open>tree_ok\<close> says that the disk holds it: every directory of \<open>D\<close> has a data block of its
  own that is marked as used, and an inode that is not free.
\<close>

section \<open>Trees\<close>






section \<open>The parent of a new directory\<close>







section \<open>Creating a directory\<close>

text \<open>The disk after \<open>mkdir_fill\<close> has set up the inode and the two records of the new directory.\<close>

definition new_dir :: "u32 \<Rightarrow> u32 \<Rightarrow> u32 \<Rightarrow> abyss \<Rightarrow> abyss" where
  "new_dir n q b st =
     (let p = inode_addr n;
          st3 = set_i_size p (of_nat BLOCK_SIZE) (set_i_blocks p b st);
          st4 = set_i_mode p (i_mode st3 p OR 0x4000) st3
      in st4\<lparr>blocks := write_dots (unat b * 4096) n q (blocks st4)\<rparr>)"

lemma new_dir_fields [simp]: "sb (new_dir n q b st) = sb st" "block_bitmap (new_dir n q b st) = block_bitmap st"
  by (simp_all add: new_dir_def Let_def)










end
