(* ===== verification/Abyss_Meta.thy ===== *)
theory Abyss_Meta
  imports Abyss_Tree
begin

text \<open>
  The metadata of AbyssFS under every operation: the inode table, blocks 1 to 8 of the disk, is changed only through the fields of
  an inode, and every inode refers to no block or to a data block. Directory records and file contents, whatever bytes they hold, stay above it.
\<close>

section \<open>The invariant\<close>

definition block_ok :: "u32 \<Rightarrow> bool" where
  "block_ok b \<longleftrightarrow> b = 0 \<or> 9 \<le> unat b \<and> unat b < 64"

definition meta_ok :: "abyss \<Rightarrow> bool" where
  "meta_ok st \<longleftrightarrow> sb_ok st \<and> (\<forall>n. unat n < 512 \<longrightarrow> block_ok (i_blocks st (inode_addr n)))"

lemma meta_ok_sb: "meta_ok st \<Longrightarrow> sb_ok st"
  by (simp add: meta_ok_def)

lemma meta_ok_block: "meta_ok st \<Longrightarrow> unat n < 512 \<Longrightarrow> block_ok (i_blocks st (inode_addr n))"
  by (simp add: meta_ok_def)

lemma block_ok_0 [simp]: "block_ok 0"
  by (simp add: block_ok_def)

text \<open>A change above the inode table.\<close>

lemma meta_ok_data:
  assumes "meta_ok st" "sb_ok st'" "\<And>a. a < 36864 \<Longrightarrow> blocks st' a = blocks st a"
  shows "meta_ok st'"
  unfolding meta_ok_def
proof (intro conjI allI impI)
  fix n :: u32 assume n: "unat n < 512"
  have "i_blocks st' (inode_addr n) = i_blocks st (inode_addr n)"
    by (rule inode_fields_cong(3)) (use inode_addr_bounds [OF n] assms(3) in auto)
  then show "block_ok (i_blocks st' (inode_addr n))" using meta_ok_block [OF assms(1) n] by simp
qed (rule assms(2))

text \<open>A change inside the structure of one inode.\<close>

lemma meta_ok_inode:
  assumes "meta_ok st" "sb_ok st'" "block_ok (i_blocks st' (inode_addr n))"
    and "\<And>a. a < inode_addr n \<or> inode_addr n + 64 \<le> a \<Longrightarrow> blocks st' a = blocks st a"
  shows "meta_ok st'"
  unfolding meta_ok_def
proof (intro conjI allI impI)
  fix k :: u32 assume k: "unat k < 512"
  show "block_ok (i_blocks st' (inode_addr k))"
  proof (cases "k = n")
    case False
    have "i_blocks st' (inode_addr k) = i_blocks st (inode_addr k)"
      by (rule inode_fields_cong(3)) (use inode_addr_apart [OF False] assms(4) in auto)
    then show ?thesis using meta_ok_block [OF assms(1) k] by simp
  qed (simp add: assms(3))
qed (rule assms(2))

lemma sb_ok_inode [simp]:
  "sb_ok (set_i_mode p v st) = sb_ok st" "sb_ok (set_i_size p v st) = sb_ok st" "sb_ok (set_i_blocks p v st) = sb_ok st"
  "sb_ok (clear_inode p st) = sb_ok st"
  by (simp_all add: sb_ok_def)

lemma set_fields_meta [inv_intros]:
  assumes "meta_ok st" "unat n < 512"
  shows "meta_ok (set_i_mode (inode_addr n) v st)" "meta_ok (set_i_size (inode_addr n) v st)"
    "block_ok b \<Longrightarrow> meta_ok (set_i_blocks (inode_addr n) b st)" "meta_ok (clear_inode (inode_addr n) st)"
  using meta_ok_block [OF assms] meta_ok_sb [OF assms(1)]
  by (auto intro!: meta_ok_inode [OF assms(1), of _ n] simp: inode_frame)

section \<open>Allocation\<close>

lemma alloc_block_meta:
  assumes "meta_ok st" "alloc_block st = (b, st')"
  shows "meta_ok st'" "block_ok b" "blocks st' = blocks st"
proof -
  have "meta_ok st' \<and> block_ok b \<and> blocks st' = blocks st"
    using meta_ok_sb [OF assms(1)]
  proof (cases rule: alloc_block_cases)
    case full
    then show ?thesis using assms by simp
  next
    case (ok i)
    then have "b = of_nat i" "blocks st' = blocks st" "sb_ok st'" using assms by (auto simp: sb_ok_def meta_ok_def)
    then show ?thesis using ok(1,2) by (auto simp: block_ok_def unat_of_nat_block intro: meta_ok_data [OF assms(1)])
  qed
  then show "meta_ok st'" "block_ok b" "blocks st' = blocks st" by auto
qed

lemma alloc_inode_meta:
  assumes "meta_ok st" "alloc_inode st = (n, st')"
  shows "meta_ok st'" "unat n < 512"
  by (rule alloc_inode_cases [OF meta_ok_sb [OF assms(1)]]; use assms in \<open>auto intro!: set_fields_meta\<close>)+

lemma release_inode_meta [inv_intros]:
  assumes "meta_ok st"
  shows "meta_ok (release_inode n st)"
proof (cases "unat n < 512")
  case True
  note f = release_inode_facts [OF meta_ok_sb [OF assms] True]
  have "i_blocks (release_inode n st) (inode_addr n) = i_blocks st (inode_addr n)"
    using True by (simp add: release_inode_def get_inode_ok [OF meta_ok_sb [OF assms]] Let_def free_block_def i_blocks_def set_i_mode_def ld32_st32_out)
  then show ?thesis using meta_ok_block [OF assms True] by (intro meta_ok_inode [OF assms f(1), of n]) (simp_all add: f(3))
next
  case False
  then show ?thesis using assms by (simp add: release_inode_def get_inode_ok [OF meta_ok_sb [OF assms]])
qed

section \<open>Directory records\<close>

lemma dir_end_above:
  assumes "dir_end m b prev e = Some (q, e')" "s \<le> e" "\<And>p. prev = Some p \<Longrightarrow> s \<le> p"
  shows "q = Some p \<Longrightarrow> s \<le> p"
  using assms
proof (induction m b prev e rule: dir_end.induct)
  case (1 m b prev e)
  from 1(2-) show ?case
    by (subst (asm) dir_end.simps) (auto split: if_splits intro!: "1.IH"(1) simp del: dir_end.simps)
qed

lemma write_entry_below:
  assumes "write_entry e s n m = Some m'" "a < e"
  shows "m' a = m a"
  using assms by (auto simp: write_entry_def Let_def st32_out mwrite_out)

lemma dir_append_below:
  assumes "dir_append start s n m = Some m'" "a < start"
  shows "m' a = m a"
proof -
  from assms(1) obtain q e0 where d: "dir_end m (start + BLOCK_SIZE) None start = Some (q, e0)"
    by (auto simp: dir_append_def Let_def simp del: dir_end.simps)
  note a = assms(1) [unfolded dir_append_def Let_def d bind.bind_lunit prod.case]
  show ?thesis
  proof (cases q)
    case None
    then show ?thesis using a write_entry_below [OF _ assms(2)] by simp
  next
    case (Some p)
    have p: "start \<le> p" using dir_end_above [OF d, of start p] Some by simp
    define e where "e = p + rec_size (de_name_len m p)"
    have w: "write_entry e s n (mfill (m(p + 5 := char_of (rec_size (de_name_len m p)))) e NUL (start + BLOCK_SIZE - e)) = Some m'"
      using a by (simp add: Some e_def split: if_splits)
    have "a < e" "a < p" using p assms(2) by (simp_all add: e_def)
    then show ?thesis using write_entry_below [OF w] by (simp add: mfill_out)
  qed
qed


lemma dir_find_above:
  assumes "dir_find m p s = Some (Some q)"
  shows "p \<le> q"
  using assms
proof (induction m p s rule: dir_find.induct)
  case (1 m p s)
  from 1(2) show ?case
    by (subst (asm) dir_find.simps) (auto split: if_splits dest: "1.IH" simp del: dir_find.simps)
qed

section \<open>Inodes found by a path\<close>

lemma get_inode_addr: "sb_ok st \<Longrightarrow> get_inode n st = Some i \<Longrightarrow> i = inode_addr n \<and> unat n < 512"
  by (auto simp: get_inode_ok split: if_splits)

definition inode_ptr :: "nat \<Rightarrow> bool" where
  "inode_ptr i \<longleftrightarrow> (\<exists>n. i = inode_addr n \<and> unat n < 512)"

lemma get_inode_ptr: "sb_ok st \<Longrightarrow> get_inode n st = Some i \<Longrightarrow> inode_ptr i"
  unfolding inode_ptr_def using get_inode_addr by blast

lemma path_walk_ptr:
  assumes "sb_ok st" "path_walk st cur ts = Some (Some i)" "\<And>c. cur = Some c \<Longrightarrow> inode_ptr c"
  shows "inode_ptr i"
  using assms(2,3)
proof (induction ts arbitrary: cur)
  case (Cons t ts)
  then obtain c dir p where "cur = Some c" "path_walk st (get_inode (de_inode (blocks st) p) st) ts = Some (Some i)"
    by (auto simp: Let_def split: option.splits if_splits simp del: dir_find.simps)
  then show ?case using Cons.IH get_inode_ptr [OF assms(1)] by blast
qed simp

lemma get_inode_by_path_ptr:
  assumes "sb_ok st" "get_inode_by_path p st = Some (Some i)"
  shows "inode_ptr i"
  using assms(2) get_inode_ptr [OF assms(1)] path_walk_ptr [OF assms(1)]
  by (auto simp: get_inode_by_path_def Let_def split: if_splits)

lemma create_target_ptr:
  assumes "sb_ok st" "create_target wd name st = Some (Some i, f)"
  shows "inode_ptr i"
  using assms(2) get_inode_ptr [OF assms(1)] get_inode_by_path_ptr [OF assms(1)]
  by (auto simp: create_target_def Let_def split: option.splits if_splits)

text \<open>The block of a directory lies above the inode table.\<close>

lemma dir_block_above:
  assumes "meta_ok st" "inode_ptr i" "dir_block_of i st = Some b" "get_block b st = Some start"
  shows "36864 \<le> start" "start + BLOCK_SIZE \<le> DISK_SIZE"
proof -
  have "9 \<le> unat b" "unat b < 64"
    using assms(1-3) meta_ok_sb [OF assms(1)] meta_ok_block [OF assms(1)]
    by (auto simp: inode_ptr_def dir_block_of_def Let_def block_ok_def sb_ok_def split: if_splits)
  then show "36864 \<le> start" "start + BLOCK_SIZE \<le> DISK_SIZE"
    using assms(4) get_block_ok [OF meta_ok_sb [OF assms(1)], of b] by (auto simp: BLOCK_SIZE_def DISK_SIZE_def)
qed

lemma dir_append_meta:
  assumes "meta_ok st" "36864 \<le> start" "dir_append start s n (blocks st) = Some m"
  shows "meta_ok (st\<lparr>blocks := m\<rparr>)"
  using dir_append_below [OF assms(3)] assms(2) meta_ok_sb [OF assms(1)] by (intro meta_ok_data [OF assms(1)]) auto

section \<open>Every operation keeps the invariant\<close>

lemma create_file_meta [inv_intros]:
  assumes "meta_ok st" "create_file wd name n st = Some (r, st')"
  shows "meta_ok st'"
proof -
  from assms(2) obtain d f where t: "create_target wd name st = Some (d, f)" by (auto simp: create_file_def)
  note a = assms(2) [unfolded create_file_def t bind.bind_lunit prod.case]
  show ?thesis
  proof (cases "d = None \<or> dir_block_of (the d) st = None")
    case True
    then show ?thesis using a assms(1) by (auto split: option.splits)
  next
    case False
    then obtain i b where i: "d = Some i" "dir_block_of i st = Some b" by auto
    with a obtain start m where m: "get_block b st = Some start" "dir_append start f n (blocks st) = Some m" "st' = st\<lparr>blocks := m\<rparr>" by auto
    have "inode_ptr i" using create_target_ptr [OF meta_ok_sb [OF assms(1)]] t i(1) by simp
    from dir_block_above(1) [OF assms(1) this i(2) m(1)] show ?thesis unfolding m(3) by (rule dir_append_meta [OF assms(1) _ m(2)])
  qed
qed

lemma abyssfs_create_meta [inv_intros]:
  assumes "meta_ok st" "abyssfs_create wd p st h = Some (a, st', h')"
  shows "meta_ok st'"
proof -
  obtain n st1 where n: "alloc_inode st = (n, st1)" by force
  note m = alloc_inode_meta(1) [OF assms(1) n]
  from assms(2) have "st' = st1 \<or> (\<exists>r. create_file wd (skip_slash p) n st1 = Some (r, st'))"
    by (auto simp: abyssfs_create_def Let_def n split: if_splits prod.splits)
  then show ?thesis using m create_file_meta by blast
qed

lemma write_to_blocks_meta:
  assumes "meta_ok st" "unat n < 512" "write_to_blocks (inode_addr n) buf count st = Some (w, st')"
  shows "meta_ok st'" "unat w \<le> unat count" "unat w \<le> BLOCK_SIZE"
proof -
  let ?n = "if count > of_nat BLOCK_SIZE then of_nat BLOCK_SIZE else count" and ?p = "inode_addr n"
  have sz: "unat ?n \<le> unat count \<and> unat ?n \<le> BLOCK_SIZE"
    by (simp add: BLOCK_SIZE_def word_less_nat_alt)
  define r where "r = (if i_blocks st ?p = 0
     then (case alloc_block st of (b, st1) \<Rightarrow> if b = 0 then (False, st1) else (True, set_i_blocks ?p b st1)) else (True, st))"
  obtain ok st2 where r2: "r = (ok, st2)" by force
  have st2: "meta_ok st2 \<and> (ok \<longrightarrow> i_blocks st2 ?p \<noteq> 0)"
  proof (cases "i_blocks st ?p = 0")
    case True
    obtain b st1 where b: "alloc_block st = (b, st1)" by force
    note ab = alloc_block_meta [OF assms(1) b]
    show ?thesis using r2 True ab(2) set_fields_meta(3) [OF ab(1) assms(2)] ab(1) by (auto simp: r_def b split: if_splits)
  qed (use assms(1) r2 in \<open>auto simp: r_def\<close>)
  note a = assms(3) [unfolded write_to_blocks_def Let_def r_def [symmetric] r2 prod.case]
  have "meta_ok st' \<and> unat w \<le> unat count \<and> unat w \<le> BLOCK_SIZE"
  proof (cases ok)
    case True
    have "9 \<le> unat (i_blocks st2 ?p)" "unat (i_blocks st2 ?p) < 64"
      using st2 True meta_ok_block [of st2 n] assms(2) by (auto simp: block_ok_def)
    then have "36864 \<le> unat (i_blocks st2 ?p * of_nat BLOCK_SIZE)" by (simp add: BLOCK_SIZE_def unat_word_ariths)
    with a True sz st2 show ?thesis
      by (auto split: if_splits simp: mwrite_out meta_ok_sb intro!: meta_ok_data [of st2])
  qed (use a st2 in auto)
  then show "meta_ok st'" "unat w \<le> unat count" "unat w \<le> BLOCK_SIZE" by auto
qed


text \<open>With a buffer as long as announced, writing to a block never leaves the disk.\<close>

lemma write_to_blocks_total:
  assumes "meta_ok st" "unat n < 512" "unat count \<le> length buf"
  obtains w st' where "write_to_blocks (inode_addr n) buf count st = Some (w, st')"
proof -
  let ?n = "if count > of_nat BLOCK_SIZE then of_nat BLOCK_SIZE else count" and ?p = "inode_addr n"
  have sz: "unat ?n \<le> length buf" "unat ?n \<le> 4096"
    using assms(3) by (auto simp: BLOCK_SIZE_def word_less_nat_alt)
  define r where "r = (if i_blocks st ?p = 0
     then (case alloc_block st of (b, st1) \<Rightarrow> if b = 0 then (False, st1) else (True, set_i_blocks ?p b st1)) else (True, st))"
  obtain ok st2 where r2: "r = (ok, st2)" by force
  have b: "unat (i_blocks st2 ?p) < 64"
  proof (cases "i_blocks st ?p = 0 \<and> fst (alloc_block st) \<noteq> 0")
    case True
    then show ?thesis using r2 alloc_block_meta(2) [OF assms(1), of "fst (alloc_block st)" "snd (alloc_block st)"]
      by (auto simp: r_def block_ok_def split: prod.splits)
  next
    case False
    then have "blocks st2 = blocks st" using r2 alloc_block_meta(3) [OF assms(1), of "fst (alloc_block st)" "snd (alloc_block st)"]
      by (auto simp: r_def split: prod.splits if_splits)
    then have "i_blocks st2 ?p = i_blocks st ?p" by (simp add: i_blocks_def)
    then show ?thesis using meta_ok_block [OF assms(1,2)] by (auto simp: block_ok_def)
  qed
  then have "unat (i_blocks st2 ?p * of_nat BLOCK_SIZE) + 4096 \<le> DISK_SIZE"
    by (simp add: BLOCK_SIZE_def DISK_SIZE_def unat_word_ariths)
  with sz that show thesis
    unfolding write_to_blocks_def Let_def r_def [symmetric] r2 prod.case by (cases ok) auto
qed

lemma abyssfs_write_meta [inv_intros]:
  assumes "meta_ok st" "abyssfs_write file buf count st = Some (r, f, st')"
  shows "meta_ok st'" "f = file" "- 1 \<le> r" "r \<le> int (unat count)" "r \<le> int BLOCK_SIZE"
proof -
  have "meta_ok st' \<and> f = file \<and> - 1 \<le> r \<and> r \<le> int (unat count) \<and> r \<le> int BLOCK_SIZE"
  proof (cases "\<exists>n i. file_inode file = Some n \<and> get_inode n st = Some i")
    case True
    then obtain n i where n: "file_inode file = Some n" "get_inode n st = Some i" by blast
    note i = get_inode_addr [OF meta_ok_sb [OF assms(1)] n(2)]
    from assms(2) n i obtain w st1 where w: "write_to_blocks (inode_addr n) buf count st = Some (w, st1)"
        "r = sint w" "f = file" "st' = (if w > 0 then set_i_size (inode_addr n) (i_size st1 (inode_addr n) + ucast w) st1 else st1)"
      by (auto simp: abyssfs_write_def Let_def)
    note m = write_to_blocks_meta [OF assms(1) conjunct2 [OF i] w(1)]
    have "sint w = int (unat w)" using m(3) by (intro sint_small) (simp add: BLOCK_SIZE_def)
    then have "- 1 \<le> r" "r \<le> int (unat count)" "r \<le> int BLOCK_SIZE" using m(2,3) w(2) by linarith+
    then show ?thesis using w(3,4) m(1) set_fields_meta(2) [OF m(1) conjunct2 [OF i]] by auto
  next
    case False
    then have "meta_ok st' \<and> f = file \<and> r = - 1" using assms by (auto simp: abyssfs_write_def split: option.splits)
    moreover have "- 1 \<le> int (unat count)" "- 1 \<le> int BLOCK_SIZE" by linarith+
    ultimately show ?thesis by blast
  qed
  then show "meta_ok st'" "f = file" "- 1 \<le> r" "r \<le> int (unat count)" "r \<le> int BLOCK_SIZE" by auto
qed

lemma abyssfs_write_total:
  assumes "meta_ok st" "private_data file = Num i" "unat count \<le> length buf"
  obtains r st' where "abyssfs_write file buf count st = Some (r, file, st')"
proof (cases "unat (ucast i :: u32) < 512")
  case True
  obtain w st' where "write_to_blocks (inode_addr (ucast i)) buf count st = Some (w, st')"
    by (rule write_to_blocks_total [OF assms(1) True assms(3)])
  then show thesis using True assms(2) that
    by (simp add: abyssfs_write_def file_inode_def get_inode_ok [OF meta_ok_sb [OF assms(1)]] Let_def)
next
  case False
  then show thesis using assms(2) that
    by (simp add: abyssfs_write_def file_inode_def get_inode_ok [OF meta_ok_sb [OF assms(1)]])
qed

lemma abyssfs_unlink_meta [inv_intros]:
  assumes "meta_ok st" "abyssfs_unlink p st = Some (r, st')"
  shows "meta_ok st'"
proof (cases "dir_find (blocks st) 36864 (skip_slash p)")
  case (Some f)
  have g: "get_block (inode_blocks (sb st) + 1) st = Some 36864" by (rule root_block [OF meta_ok_sb [OF assms(1)]])
  note a = assms(2) [unfolded abyssfs_unlink_def Let_def g option.case Some bind.bind_lunit]
  show ?thesis
  proof (cases f)
    case None
    then show ?thesis using a assms(1) by simp
  next
    case [simp]: (Some d)
    have d: "36864 \<le> d" using dir_find_above [OF \<open>dir_find _ _ _ = Some f\<close> [unfolded Some]] .
    let ?s = "release_inode (de_inode (blocks st) d) st"
    have m: "meta_ok ?s" by (rule release_inode_meta [OF assms(1)])
    have "sb_ok st' \<and> (\<forall>a < 36864. blocks st' a = blocks ?s a)"
      using a d meta_ok_sb [OF m] by (auto split: if_splits simp: memmove_eq_mcopy mcopy_out mfill_out)
    then show ?thesis using meta_ok_data [OF m] by blast
  qed
next
  case None
  then show ?thesis using assms root_block [OF meta_ok_sb [OF assms(1)]] by (simp add: abyssfs_unlink_def del: dir_find.simps)
qed


lemma write_dots_below: "a < p \<Longrightarrow> write_dots p i j m a = m a"
  by (simp add: write_dots_def Let_def st32_out mwrite_out)

lemma mkdir_link_meta:
  assumes "meta_ok st" "inode_ptr i" "mkdir_link i s n st = Some (r, st')"
  shows "meta_ok st'"
proof (cases "dir_block_of i st")
  case None
  then show ?thesis using assms by (simp add: mkdir_link_def)
next
  case (Some b)
  with assms(3) obtain start m where m: "get_block b st = Some start" "dir_append start s n (blocks st) = Some m" "st' = st\<lparr>blocks := m\<rparr>"
    by (auto simp: mkdir_link_def)
  from dir_block_above(1) [OF assms(1,2) Some m(1)] show ?thesis unfolding m(3) by (rule dir_append_meta [OF assms(1) _ m(2)])
qed

lemma mkdir_fill_meta:
  assumes "meta_ok st" "inode_ptr i" "unat n < 512" "block_ok b" "b \<noteq> 0"
    "mkdir_fill i pn s n (inode_addr n) b st = Some (r, st')"
  shows "meta_ok st'"
proof -
  let ?p = "inode_addr n"
  define st2 where "st2 = set_i_mode ?p (i_mode (set_i_size ?p (of_nat BLOCK_SIZE) (set_i_blocks ?p b st)) ?p OR 0x4000)
     (set_i_size ?p (of_nat BLOCK_SIZE) (set_i_blocks ?p b st))"
  have m2: "meta_ok st2" unfolding st2_def by (intro set_fields_meta assms)
  note a = assms(6) [unfolded mkdir_fill_def Let_def st2_def [symmetric]]
  have b: "get_block b st2 = Some (unat b * 4096)" "36864 \<le> unat b * 4096"
    using assms(4,5) get_block_ok [OF meta_ok_sb [OF m2], of b] by (auto simp: block_ok_def)
  have "meta_ok (st2\<lparr>blocks := write_dots (unat b * 4096) n pn (blocks st2)\<rparr>)"
    using b(2) meta_ok_sb [OF m2] by (intro meta_ok_data [OF m2]) (simp_all add: write_dots_below)
  from mkdir_link_meta [OF this assms(2)] show ?thesis using a unfolding b(1) option.case by blast
qed

lemma mkdir_alloc_meta:
  assumes "meta_ok st" "inode_ptr i" "mkdir_alloc i pn s st = Some (r, st')"
  shows "meta_ok st'"
proof -
  obtain n st1 where n: "alloc_inode st = (n, st1)" by force
  note m1 = alloc_inode_meta [OF assms(1) n]
  obtain b st2 where b: "alloc_block st1 = (b, st2)" by force
  note m2 = alloc_block_meta [OF m1(1) b]
  have "st' = st1 \<or> st' = st2 \<or> b \<noteq> 0 \<and> mkdir_fill i pn s n (inode_addr n) b st2 = Some (r, st')"
    using assms(3) m1(2) by (auto simp: mkdir_alloc_def n b get_inode_ok [OF meta_ok_sb [OF m1(1)]] split: if_splits)
  then show ?thesis using m1(1) m2 mkdir_fill_meta [OF m2(1) assms(2) m1(2) m2(2)] by blast
qed

lemma abyssfs_mkdir_meta [inv_intros]:
  assumes "meta_ok st" "abyssfs_mkdir p st = Some (r, st')"
  shows "meta_ok st'"
proof -
  note sbk = meta_ok_sb [OF assms(1)]
  have "st' = st \<or> (\<exists>i pn s. inode_ptr i \<and> mkdir_alloc i pn s st = Some (r, st'))"
    using assms(2) get_inode_ptr [OF sbk] get_inode_by_path_ptr [OF sbk]
    by (fastforce simp: abyssfs_mkdir_def mkdir_parent_def Let_def split: option.splits if_splits)
  then show ?thesis using assms(1) mkdir_alloc_meta by blast
qed

lemma remove_recursive_meta_both:
  "(meta_ok st \<longrightarrow> (\<forall>r st'. abyssfs_remove_recursive p st = Some (r, st') \<longrightarrow> meta_ok st'))"
  "(meta_ok st2 \<longrightarrow> (\<forall>st'. remove_entries p2 es st2 = Some st' \<longrightarrow> meta_ok st'))"
proof (induction p st and p2 es st2 rule: abyssfs_remove_recursive_remove_entries.induct)
  case (1 p st)
  show ?case
  proof (intro impI allI)
    fix r st' assume m: "meta_ok st" and a: "abyssfs_remove_recursive p st = Some (r, st')"
    then obtain q where q: "abyssfs_read_dir p 256 st = Some q" by (auto simp: abyssfs_remove_recursive.simps)
    with a obtain st1 where s1: "(case q of None \<Rightarrow> Some st | Some es \<Rightarrow> remove_entries p es st) = Some st1"
      and u: "abyssfs_unlink p st1 = Some (r, st')" by (auto simp: abyssfs_remove_recursive.simps)
    have "meta_ok st1" using s1 m "1.IH" [OF q] by (auto split: option.splits)
    then show "meta_ok st'" using u by (rule abyssfs_unlink_meta)
  qed
next
  case (2 p st)
  then show ?case by simp
next
  case (3 p e es st)
  show ?case
  proof (cases "d_name e = ''.'' \<or> d_name e = ''..''")
    case True
    then show ?thesis using "3.IH"(1) by simp
  next
    case False
    let ?isdir = "case get_inode (ucast (d_inode e)) st of Some inode \<Rightarrow> i_mode st inode AND 0x4000 \<noteq> 0 | None \<Rightarrow> False"
    show ?thesis
    proof (intro impI allI)
      fix st' assume m: "meta_ok st" and a: "remove_entries p (e # es) st = Some st'"
      from a False obtain f where f: "into_buf VFS_MAX_PATH (p @ ''/'' @ d_name e) = Some f" by (auto simp: remove_entries.simps)
      from a False f obtain st1 where s1: "(if ?isdir then map_option snd (abyssfs_remove_recursive f st) else map_option snd (abyssfs_unlink f st)) = Some st1"
        and u: "remove_entries p es st1 = Some st'" by (auto simp: remove_entries.simps)
      have "meta_ok st1"
        using s1 m "3.IH"(2) [OF False f] abyssfs_unlink_meta [OF m] by (cases ?isdir) auto
      then show "meta_ok st'" using "3.IH"(3) [OF False f s1] u by blast
    qed
  qed
qed

lemma abyssfs_remove_recursive_meta [inv_intros]:
  "meta_ok st \<Longrightarrow> abyssfs_remove_recursive p st = Some (r, st') \<Longrightarrow> meta_ok st'"
  using remove_recursive_meta_both(1) by blast


section \<open>The formatted disk\<close>

lemma abyss_format_meta [inv_intros]: "meta_ok (abyss_format st)"
  unfolding meta_ok_def
proof (intro conjI allI impI)
  fix n :: u32 assume n: "unat n < 512"
  show "block_ok (i_blocks (abyss_format st) (inode_addr n))"
  proof (cases "n = 1")
    case True
    then show ?thesis using abyss_format_wf(1) [of st] by (simp add: abyss_wf_def block_ok_def)
  next
    case False
    have "blocks (abyss_format st) a = NUL" if "inode_addr n \<le> a" "a < inode_addr n + 64" for a
      using that inode_addr_apart [OF False] inode_addr_bounds [OF n]
      by (intro abyss_format_wf(5)) (auto simp: inode_addr_1 DISK_SIZE_def)
    then have "i_blocks (abyss_format st) (inode_addr n) = i_blocks (clear_inode (inode_addr n) (abyss_format st)) (inode_addr n)"
      by (intro inode_fields_cong(3)) (simp add: clear_inode_def sizeof_inode_def mfill_def)
    then show ?thesis by simp
  qed
qed (rule abyss_wf_sb [OF abyss_format_wf(1)])

lemma test_abyssfs_meta [inv_intros]:
  assumes "meta_ok st" "test_abyssfs wd st = Some st'"
  shows "meta_ok st'"
proof -
  obtain n st1 where n: "alloc_inode st = (n, st1)" by force
  note m1 = alloc_inode_meta [OF assms(1) n]
  let ?s = "set_i_blocks (inode_addr n) 0 (set_i_size (inode_addr n) 0 (set_i_mode (inode_addr n) 0x1FF st1))"
  have "meta_ok ?s" by (intro set_fields_meta m1 block_ok_0)
  moreover have "\<exists>r. create_file wd ''hello.txt'' n ?s = Some (r, st')"
    using assms(2) m1(2) by (auto simp: test_abyssfs_def n Let_def get_inode_ok [OF meta_ok_sb [OF m1(1)]])
  ultimately show ?thesis using create_file_meta by blast
qed

section \<open>Reading\<close>


text \<open>The number of bytes read is what the buffer is told to hold; the object keeps everything but its position.\<close>

lemma read_count_bound:
  fixes pos count size0 :: u64
  assumes "\<not> pos \<ge> size0" "unat size0 < 2 ^ 32" "unat count < 2 ^ 63"
  defines "n \<equiv> if pos + count > size0 then size0 - pos else count"
  shows "unat n \<le> unat count" "sint n = int (unat n)" "unat pos + unat n \<le> unat size0"
proof -
  have p: "unat pos < unat size0" using assms(1) by (simp add: word_le_nat_alt)
  have "unat (pos + count) = unat pos + unat count" using p assms(2,3) by (intro unat_add_small) simp
  then show n: "unat n \<le> unat count" "unat pos + unat n \<le> unat size0"
    using p by (auto simp: n_def word_less_nat_alt word_le_nat_alt unat_sub_le)
  show "sint n = int (unat n)" using n(1) assms(3) by (intro sint_below) simp
qed

lemma abyssfs_read_cases:
  assumes "abyssfs_read file count st = Some (r, bs, f)"
  obtains (bad) "r = - 1" "bs = []" "f = file"
  | (eof) "r = 0" "bs = []" "f = file"
  | (ok) s src n where "\<not> f_pos file \<ge> (s :: u64)" "unat s < 2 ^ 32" "n = (if f_pos file + count > s then s - f_pos file else count)"
      "r = sint n" "bs = mread (blocks st) src (unat n)" "f = file\<lparr>f_pos := f_pos file + n\<rparr>"
proof -
  from assms obtain k where k: "file_inode file = Some k" by (auto simp: abyssfs_read_def)
  note a = assms [unfolded abyssfs_read_def k bind.bind_lunit Let_def]
  show thesis
  proof (cases "get_inode k st")
    case None
    then show thesis using a bad by simp
  next
    case (Some i)
    let ?s = "ucast (i_size st i) :: u64"
    note b = a [unfolded Some option.case]
    have s: "unat ?s < 2 ^ 32" using unsigned_less [of "i_size st i", where 'a = nat] by (simp add: unat_ucast_32)
    show thesis
    proof (cases "f_pos file \<ge> ?s")
      case True
      then show thesis using b eof by simp
    next
      case False
      show thesis using b [unfolded if_not_P [OF False]] by (intro ok [OF False s refl]) (auto split: if_split_asm)
    qed
  qed
qed

lemma abyssfs_read_obj: "abyssfs_read file count st = Some (r, bs, f) \<Longrightarrow> f = file\<lparr>f_pos := f_pos f\<rparr>"
  by (erule abyssfs_read_cases) simp_all

lemma abyssfs_read_bounds:
  assumes "abyssfs_read file count st = Some (r, bs, f)" "unat count < 2 ^ 63"
  shows "r = - 1 \<and> bs = [] \<or> r = int (length bs) \<and> length bs \<le> unat count"
  using assms(1)
proof (cases rule: abyssfs_read_cases)
  case (ok s src n)
  note c = read_count_bound [OF ok(1,2) assms(2), folded ok(3)]
  show ?thesis using c(1,2) ok(4,5) by (simp del: of_nat_unat)
qed simp_all

text \<open>
  A size beyond the block, as repeated writes record it, makes the bytes of the next block readable, whoever owns it; for the last block of the disk the
  read leaves the disk.
\<close>

lemma abyssfs_read_crosses_block:
  assumes "sb_ok st" "file_inode file = Some n" "unat n < 512" "f_pos file = 4096"
    and "unat (i_blocks st (inode_addr n)) < 64" "unat count \<le> 4096" "4096 + unat count \<le> unat (i_size st (inode_addr n))" "count \<noteq> 0"
  shows "abyssfs_read file count st =
    (if unat (i_blocks st (inode_addr n)) < 63
     then Some (int (unat count), mread (blocks st) ((unat (i_blocks st (inode_addr n)) + 1) * 4096) (unat count), file\<lparr>f_pos := 4096 + count\<rparr>)
     else None)"
proof -
  let ?p = "inode_addr n" let ?s = "ucast (i_size st ?p) :: u64" and ?b = "i_blocks st ?p"
  have f: "file_inode file = Some n" "get_inode n st = Some ?p"
    using assms(2,3) by (simp_all add: get_inode_ok [OF assms(1)])
  have c: "0 < unat count" using assms(8) by (simp add: unat_gt_0)
  have s: "unat ?s = unat (i_size st ?p)" by (rule unat_ucast_32)
  have sum: "unat (4096 + count) = 4096 + unat count" using assms(6) unat_add_small [of 4096 count] by simp
  have pos: "\<not> f_pos file \<ge> ?s" using assms(4,7) s c by (simp add: word_le_nat_alt)
  have n: "(if f_pos file + count > ?s then ?s - f_pos file else count) = count"
    using assms(4,7) s sum by (simp add: word_less_nat_alt)
  have a: "unat (?b * of_nat BLOCK_SIZE) = unat ?b * 4096" using assms(5) by (simp add: BLOCK_SIZE_def unat_word_ariths)
  have e: "unat (f_pos file) = 4096" by (simp add: assms(4))
  have k: "sint count = int (unat count)" using assms(6) by (rule sint_small)
  have d: "unat ?b * 4096 + 4096 + unat count > DISK_SIZE \<longleftrightarrow> \<not> unat ?b < 63"
    using assms(5,6) c by (auto simp: DISK_SIZE_def)
  show ?thesis
    unfolding abyssfs_read_def f bind.bind_lunit option.case Let_def if_not_P [OF pos] n a e d k by (simp add: assms(4) algebra_simps)
qed

end
