(* ===== verification/Kernel_Inv.thy ===== *)
theory Kernel_Inv
  imports Abyss_Meta Message_Props
begin

text \<open>
  The invariant of the whole kernel state: every structure the kernel keeps stays inside its bounds, whatever messages are sent. It is the
  type invariant the C declarations promise but do not enforce: array lengths, indices into the tables, pointers to the right kind of object.
\<close>

section \<open>The invariant\<close>

text \<open>A process structure: 31 registers, a message ring with its indices in range, a terminated working directory.\<close>

definition process_ok :: "process \<Rightarrow> bool" where
  "process_ok p \<longleftrightarrow> length (ctx_x (ctx p)) = 31 \<and> mq_inv (msg_queue p) \<and> length (cwd p) < VFS_MAX_PATH"

text \<open>A file object: \<open>private_data\<close> is what the functions of \<open>f_ops\<close> take it for.\<close>

definition file_obj_ok :: "ramfs \<Rightarrow> vfs_file \<Rightarrow> bool" where
  "file_obj_ok fs f \<longleftrightarrow>
     (case f_ops f of
        None \<Rightarrow> True
      | Some RamFs \<Rightarrow> (case private_data f of Ram i \<Rightarrow> ram_file_ok fs f i | Num _ \<Rightarrow> False)
      | Some AbyssFs \<Rightarrow> (case private_data f of Ram _ \<Rightarrow> False | Num _ \<Rightarrow> True))"

definition procs_ok :: "ptable \<Rightarrow> bool" where
  "procs_ok s \<longleftrightarrow> process_count s \<le> MAX_PROCESSES \<and> (\<forall>p. process_ok (procs s p))"

definition objs_ok :: "ramfs \<Rightarrow> kmem \<Rightarrow> bool" where
  "objs_ok fs m \<longleftrightarrow> (\<forall>a. file_obj_ok fs (fobjs m a))"

definition kernel_ok :: "kernel \<Rightarrow> bool" where
  "kernel_ok k \<longleftrightarrow> procs_ok (pt k) \<and> objs_ok (ram k) (km k) \<and> ramfs_inv (ram k) \<and> meta_ok (disk k) \<and> fd_inv k
     \<and> length (mount_points k) \<le> MAX_MOUNTS"

lemmas kernel_okD = kernel_ok_def [THEN iffD1]

lemma kernel_okI:
  assumes "kernel_ok k" "procs_ok (pt k')" "objs_ok (ram k') (km k')" "ramfs_inv (ram k')" "meta_ok (disk k')"
    "fd_table k' = fd_table k" "next_fd k' = next_fd k" "mount_points k' = mount_points k"
  shows "kernel_ok k'"
  using assms by (simp add: kernel_ok_def fd_inv_def)

lemma objs_ok_length: "length fs' = length fs \<Longrightarrow> objs_ok fs' m = objs_ok fs m"
  by (simp add: objs_ok_def file_obj_ok_def ram_file_ok_def cong: option.case_cong fs_kind.case_cong fdata.case_cong)

lemma objs_ok_heap [simp]: "objs_ok fs (m\<lparr>heap_pos := h\<rparr>) = objs_ok fs m"
  by (simp add: objs_ok_def)

lemma objs_ok_upd: "objs_ok fs m \<Longrightarrow> file_obj_ok fs f \<Longrightarrow> objs_ok fs (m\<lparr>fobjs := (fobjs m)(a := f)\<rparr>)"
  by (simp add: objs_ok_def)

lemma new_file_objs:
  assumes "objs_ok fs m" "file_obj_ok fs f" "new_file f m = (a, m')"
  shows "objs_ok fs m'"
  using assms by (cases f m rule: new_file_cases) (auto simp: objs_ok_def)

section \<open>The RAM disk\<close>

lemma ramfs_read_obj:
  assumes "ramfs_inv fs" "ram_file_ok fs file i" "ramfs_read file count fs = Some (r, bs, f)"
  shows "ram_file_ok fs f i" "f_ops f = f_ops file"
  using assms ramfs_inv_nth [OF assms(1), of i]
  by (auto simp: ramfs_read_def ram_file_ok_def Let_def unat_add_small MAX_CONTENT_def split: if_splits)

lemma ramfs_write_obj:
  assumes "ramfs_inv fs" "ram_file_ok fs file i" "ramfs_write file buf count fs = Some (r, f, fs')"
  shows "ramfs_inv fs'" "ram_file_ok fs' f i" "f_ops f = f_ops file"
proof -
  define n where "n = (if f_pos file + count > of_nat MAX_CONTENT then of_nat MAX_CONTENT - f_pos file else count)"
  have i: "private_data file = Ram i" "i < length fs" using assms(2) by (auto simp: ram_file_ok_def)
  note a = assms(3) [unfolded ramfs_write_def Let_def n_def [symmetric] i(1) fdata.case if_not_P [OF i(2) [unfolded not_le [symmetric]]]]
  have s: "unat (rf_size (fs ! i)) \<le> MAX_CONTENT" "length (rf_path (fs ! i)) < MAX_PATH" using assms(1) i(2) by (auto simp: ramfs_inv_def)
  have "ramfs_inv fs' \<and> ram_file_ok fs' f i \<and> f_ops f = f_ops file"
  proof (cases "n > 0")
    case True
    then have b: "unat (f_pos file) + unat n \<le> MAX_CONTENT" using a i(2) by (auto split: if_splits)
    then have "unat (f_pos file + n) \<le> MAX_CONTENT" by (subst unat_add_small) (simp_all add: MAX_CONTENT_def)
    then show ?thesis using a True i s b assms(1,2) by (auto simp: ram_file_ok_def intro!: ramfs_inv_update split: if_splits)
  qed (use a i(2) assms(1,2) in auto)
  then show "ramfs_inv fs'" "ram_file_ok fs' f i" "f_ops f = f_ops file" by auto
qed

lemma ramfs_create_obj:
  assumes "ramfs_inv fs" "objs_ok fs m" "ramfs_create p fs m = Some (a, fs', m')"
  shows "ramfs_inv fs' \<and> length fs' = length fs \<and> objs_ok fs m'"
proof -
  from assms(3) obtain q where q: "into_buf MAX_PATH (if take 5 p \<noteq> ''/tmp/'' then ''/tmp/'' @ p else p) = Some q"
    unfolding ramfs_create_def by (cases "into_buf MAX_PATH (if take 5 p \<noteq> ''/tmp/'' then ''/tmp/'' @ p else p)") auto
  then have len: "length q < MAX_PATH" by (auto split: if_splits)
  note c = assms(3) [unfolded ramfs_create_def q bind.bind_lunit]
  show ?thesis
  proof (cases "first_idx (\<lambda>rf. \<not> used rf) fs")
    case None
    then show ?thesis using c assms(1,2) by simp
  next
    case (Some i)
    then have i: "i < length fs" by (simp add: first_idx_Some_iff)
    define f where "f = zero_file\<lparr>f_ops := Some RamFs, private_data := Ram i, f_pos := 0\<rparr>"
    obtain a' m1 where n: "new_file f m = (a', m1)" by force
    have "file_obj_ok fs f" using i by (simp add: f_def file_obj_ok_def ram_file_ok_def)
    note m1 = new_file_objs [OF assms(2) this n]
    note d = c [unfolded Some option.case Let_def f_def [symmetric] n prod.case]
    show ?thesis using d m1 len assms(1) by (cases a') (auto intro!: ramfs_inv_update simp: MAX_CONTENT_def)
  qed
qed

lemma ramfs_unlink_keeps: "ramfs_inv fs \<Longrightarrow> ramfs_unlink p fs = (r, fs') \<Longrightarrow> ramfs_inv fs' \<and> length fs' = length fs"
  by (auto simp: ramfs_unlink_def ramfs_inv_def first_idx_Some_iff MAX_CONTENT_def split: option.splits dest!: set_update_subset_insert [THEN subsetD])

lemma ramfs_mkdir_keeps: "ramfs_inv fs \<Longrightarrow> ramfs_mkdir p fs = Some (r, fs') \<Longrightarrow> ramfs_inv fs' \<and> length fs' = length fs"
  by (auto simp: ramfs_mkdir_def MAX_CONTENT_def intro!: ramfs_inv_update split: option.splits)

lemma ramfs_open_obj:
  assumes "objs_ok fs m" "ramfs_open p fs m = (a, m')"
  shows "objs_ok fs m'"
proof (cases "first_idx (\<lambda>rf. used rf \<and> rf_path rf = p) fs")
  case None
  then show ?thesis using assms by (simp add: ramfs_open_def)
next
  case (Some i)
  then have "i < length fs" by (simp add: first_idx_Some_iff)
  then show ?thesis
    using assms(2) unfolding ramfs_open_def Some option.case
    by (intro new_file_objs [OF assms(1)]) (auto simp: file_obj_ok_def ram_file_ok_def)
qed

section \<open>The operation tables\<close>

lemma kernel_ok_parts:
  assumes "kernel_ok k"
  shows "procs_ok (pt k)" "objs_ok (ram k) (km k)" "ramfs_inv (ram k)" "meta_ok (disk k)" "fd_inv k" "length (mount_points k) \<le> MAX_MOUNTS"
  using assms by (simp_all add: kernel_ok_def)

lemma kernel_ok_km: "kernel_ok k \<Longrightarrow> objs_ok (ram k) m \<Longrightarrow> kernel_ok (k\<lparr>km := m\<rparr>)"
  by (rule kernel_okI [of k]) (simp_all add: kernel_ok_parts)

lemma kernel_ok_disk: "kernel_ok k \<Longrightarrow> meta_ok d \<Longrightarrow> kernel_ok (k\<lparr>disk := d\<rparr>)"
  by (rule kernel_okI [of k]) (simp_all add: kernel_ok_parts)

lemma kernel_ok_ram: "kernel_ok k \<Longrightarrow> ramfs_inv r \<Longrightarrow> kernel_ok (k\<lparr>ram := r\<rparr>)"
  by (rule kernel_okI [of k])
     (simp_all add: kernel_ok_parts kernel_ok_parts(2) [THEN objs_ok_length [THEN iffD2, rotated]] ramfs_inv_def [of r] ramfs_inv_def [of "ram k", THEN iffD1, OF kernel_ok_parts(3)])

lemma kernel_ok_pt: "kernel_ok k \<Longrightarrow> procs_ok s \<Longrightarrow> kernel_ok (k\<lparr>pt := s\<rparr>)"
  by (rule kernel_okI [of k]) (simp_all add: kernel_ok_parts)

lemma abyss_obj_ok: "f_ops f = Some AbyssFs \<Longrightarrow> private_data f = Num n \<Longrightarrow> file_obj_ok fs f"
  by (simp add: file_obj_ok_def)

lemma fs_open_ok [inv_intros]:
  assumes "kernel_ok k" "fs_open fs p k = (a, k')"
  shows "kernel_ok k'"
proof (cases fs)
  case RamFs
  then show ?thesis using assms ramfs_open_obj [OF kernel_ok_parts(2) [OF assms(1)]]
    by (auto simp: fs_open_eq intro!: kernel_ok_km split: prod.splits)
next
  case AbyssFs
  then show ?thesis using assms(2)
    by (auto simp: fs_open_eq abyssfs_open_def intro!: kernel_ok_km [OF assms(1)]
        new_file_objs [OF kernel_ok_parts(2) [OF assms(1)]] abyss_obj_ok split: prod.splits)
qed

lemma abyssfs_create_obj:
  assumes "objs_ok fs m" "abyssfs_create wd p st m = Some (a, st', m')"
  shows "objs_ok fs m'"
proof -
  obtain n st1 where n: "alloc_inode st = (n, st1)" by force
  have "m' = m \<or> (\<exists>f a. f_ops f = Some AbyssFs \<and> private_data f = Num (ucast n) \<and> new_file f m = (a, m'))"
    using assms(2) by (fastforce simp: abyssfs_create_def Let_def n split: if_splits prod.splits)
  then show ?thesis using assms(1) new_file_objs abyss_obj_ok by blast
qed

lemma fs_create_ok [inv_intros]:
  assumes "kernel_ok k" "fs_create fs p k = Some (a, k')"
  shows "kernel_ok k'"
proof (cases fs)
  case RamFs
  then obtain r m where r: "ramfs_create p (ram k) (km k) = Some (a, r, m)" "k' = k\<lparr>ram := r, km := m\<rparr>"
    using assms(2) by (auto simp: fs_create_eq)
  note o = ramfs_create_obj [OF kernel_ok_parts(3,2) [OF assms(1)] r(1)]
  show ?thesis unfolding r(2) using kernel_ok_parts [OF assms(1)] o objs_ok_length [of r "ram k" m] by (intro kernel_okI [OF assms(1)]) simp_all
next
  case AbyssFs
  then obtain d m where r: "abyssfs_create (map_option cwd (cur_proc k)) p (disk k) (km k) = Some (a, d, m)" "k' = k\<lparr>disk := d, km := m\<rparr>"
    using assms(2) by (auto simp: fs_create_eq)
  show ?thesis unfolding r(2)
    using kernel_ok_parts [OF assms(1)] abyssfs_create_obj [OF _ r(1)] abyssfs_create_meta [OF _ r(1)] by (intro kernel_okI [OF assms(1)]) simp_all
qed

lemma fs_unlink_ok [inv_intros]:
  assumes "kernel_ok k" "fs_unlink fs p k = Some (r, k')"
  shows "kernel_ok k'"
  using assms ramfs_unlink_keeps [OF kernel_ok_parts(3) [OF assms(1)]] abyssfs_unlink_meta [OF kernel_ok_parts(4) [OF assms(1)]]
  by (cases fs) (auto simp: fs_unlink_eq intro!: kernel_ok_ram kernel_ok_disk split: prod.splits)

lemma fs_mkdir_ok [inv_intros]:
  assumes "kernel_ok k" "fs_mkdir fs p k = Some (r, k')"
  shows "kernel_ok k'"
  using assms ramfs_mkdir_keeps [OF kernel_ok_parts(3) [OF assms(1)]] abyssfs_mkdir_meta [OF kernel_ok_parts(4) [OF assms(1)]]
  by (cases fs) (auto simp: fs_mkdir_eq intro!: kernel_ok_ram kernel_ok_disk)

lemma fs_remove_ok [inv_intros]:
  assumes "kernel_ok k" "fs_remove_recursive fs = Some f" "f p k = Some (r, k')"
  shows "kernel_ok k'"
  using assms abyssfs_remove_recursive_meta [OF kernel_ok_parts(4) [OF assms(1)]]
  by (cases fs) (auto simp: fs_remove_recursive_eq intro!: kernel_ok_disk simp del: abyssfs_remove_recursive.simps)

lemma obj_kind:
  assumes "kernel_ok k" "f_ops (fobjs (km k) a) = Some fs"
  obtains (ram) i where "fs = RamFs" "ram_file_ok (ram k) (fobjs (km k) a) i"
  | (abyss) n where "fs = AbyssFs" "private_data (fobjs (km k) a) = Num n"
proof -
  have "file_obj_ok (ram k) (fobjs (km k) a)" using kernel_ok_parts(2) [OF assms(1)] by (simp add: objs_ok_def)
  then show thesis using assms(2) ram abyss by (cases fs; cases "private_data (fobjs (km k) a)") (auto simp: file_obj_ok_def)
qed

lemma fop_read_ok [inv_intros]:
  assumes "kernel_ok k" "f_ops (fobjs (km k) a) = Some fs" "fop_read fs a count k = Some (r, bs, k')"
  shows "kernel_ok k'"
  using assms(1,2)
proof (cases rule: obj_kind)
  case (ram i)
  with assms(3) obtain f where f: "ramfs_read (fobjs (km k) a) count (ram k) = Some (r, bs, f)"
    "k' = k\<lparr>km := (km k)\<lparr>fobjs := (fobjs (km k))(a := f)\<rparr>\<rparr>" by (auto simp: fop_read_eq)
  note o = ramfs_read_obj [OF kernel_ok_parts(3) [OF assms(1)] ram(2) f(1)]
  have "file_obj_ok (ram k) f" using o assms(2) ram by (auto simp: file_obj_ok_def ram_file_ok_def)
  then show ?thesis unfolding f(2) by (intro kernel_ok_km [OF assms(1)] objs_ok_upd kernel_ok_parts(2) [OF assms(1)])
next
  case (abyss n)
  with assms(3) obtain f where f: "abyssfs_read (fobjs (km k) a) count (disk k) = Some (r, bs, f)"
    "k' = k\<lparr>km := (km k)\<lparr>fobjs := (fobjs (km k))(a := f)\<rparr>\<rparr>" by (auto simp: fop_read_eq)
  have "f_ops f = Some AbyssFs" "private_data f = Num n"
    by (subst abyssfs_read_obj [OF f(1)], use assms(2) abyss in simp)+
  then have "file_obj_ok (ram k) f" by (rule abyss_obj_ok)
  then show ?thesis unfolding f(2) by (intro kernel_ok_km [OF assms(1)] objs_ok_upd kernel_ok_parts(2) [OF assms(1)])
qed

lemma fop_write_ok [inv_intros]:
  assumes "kernel_ok k" "f_ops (fobjs (km k) a) = Some fs" "fop_write fs a buf count k = Some (r, k')"
  shows "kernel_ok k'"
  using assms(1,2)
proof (cases rule: obj_kind)
  case (ram i)
  with assms(3) obtain f r' where f: "ramfs_write (fobjs (km k) a) buf count (ram k) = Some (r, f, r')"
    "k' = k\<lparr>km := (km k)\<lparr>fobjs := (fobjs (km k))(a := f)\<rparr>, ram := r'\<rparr>" by (auto simp: fop_write_eq)
  note o = ramfs_write_obj [OF kernel_ok_parts(3) [OF assms(1)] ram(2) f(1)]
  have len: "length r' = length (ram k)" using o(1) kernel_ok_parts(3) [OF assms(1)] by (simp add: ramfs_inv_def)
  have "file_obj_ok r' f" using o assms(2) ram by (auto simp: file_obj_ok_def ram_file_ok_def)
  moreover have "objs_ok r' (km k)" using objs_ok_length [OF len] kernel_ok_parts(2) [OF assms(1)] by simp
  ultimately have "objs_ok r' ((km k)\<lparr>fobjs := (fobjs (km k))(a := f)\<rparr>)" by (intro objs_ok_upd)
  then show ?thesis unfolding f(2) using kernel_ok_parts [OF assms(1)] o(1) by (intro kernel_okI [OF assms(1)]) simp_all
next
  case (abyss n)
  with assms(3) obtain f d where f: "abyssfs_write (fobjs (km k) a) buf count (disk k) = Some (r, f, d)"
    "k' = k\<lparr>km := (km k)\<lparr>fobjs := (fobjs (km k))(a := f)\<rparr>, disk := d\<rparr>" by (auto simp: fop_write_eq)
  note m = abyssfs_write_meta [OF kernel_ok_parts(4) [OF assms(1)] f(1)]
  show ?thesis unfolding f(2) m(2) using kernel_ok_parts [OF assms(1)] m(1) by (intro kernel_okI [OF assms(1)]) simp_all
qed

section \<open>Descriptors and paths\<close>

lemma vfs_read_ok [inv_intros]: "kernel_ok k \<Longrightarrow> vfs_read d n k = Some (r, bs, k') \<Longrightarrow> kernel_ok k'"
  unfolding vfs_read_def by (auto split: option.splits if_splits dest: fop_read_ok)

lemma vfs_write_ok [inv_intros]: "kernel_ok k \<Longrightarrow> vfs_write d b n k = Some (r, k') \<Longrightarrow> kernel_ok k'"
  by (auto simp: vfs_write_def split: option.splits dest: fop_write_ok)

lemma kernel_ok_tables:
  assumes "kernel_ok k" "fd_inv k'" "pt k' = pt k" "km k' = km k" "ram k' = ram k" "disk k' = disk k" "mount_points k' = mount_points k"
  shows "kernel_ok k'"
  using assms by (simp add: kernel_ok_def)

lemma alloc_fd_ok [inv_intros]: "kernel_ok k \<Longrightarrow> alloc_fd a k = (d, k') \<Longrightarrow> kernel_ok k'"
  using alloc_fd_grows(2) [of a k d k']
  by (cases a k rule: alloc_fd_cases) (auto intro!: kernel_ok_tables [of k] simp: kernel_ok_parts)

lemma vfs_close_ok [inv_intros]: "kernel_ok k \<Longrightarrow> vfs_close d k = (r, k') \<Longrightarrow> kernel_ok k'"
  using vfs_close_grows [of d k r k']
  by (auto simp: vfs_close_def kernel_ok_parts split: if_splits intro!: kernel_ok_tables [of k])

lemma snd_vfs_close_ok [inv_intros]: "kernel_ok k \<Longrightarrow> kernel_ok (snd (vfs_close d k))"
  by (rule vfs_close_ok [of k d "fst (vfs_close d k)"]) simp_all

lemma vfs_open_ok [inv_intros]:
  assumes "kernel_ok k" "vfs_open p k = Some (d, k')"
  shows "kernel_ok k'"
proof -
  from assms(2) obtain q where q: "resolve_path p k = Some q" unfolding vfs_open_def by (cases "resolve_path p k") auto
  obtain a k1 where o: "fs_open (if take 5 q = ''/tmp/'' then RamFs else AbyssFs) q k = (a, k1)" by (metis surj_pair)
  have "kernel_ok k1" by (rule fs_open_ok [OF assms(1) o])
  then show ?thesis using assms(2) alloc_fd_ok unfolding vfs_open_def q bind.bind_lunit Let_def o by (cases a) auto
qed

lemma vfs_create_ok [inv_intros]:
  assumes "kernel_ok k" "vfs_create p k = Some (d, k')"
  shows "kernel_ok k'"
proof -
  from assms(2) obtain q where q: "make_full_path p k = Some q" unfolding vfs_create_def by (cases "make_full_path p k") auto
  have new: "kernel_ok k'"
    if "Option.bind (fs_create fs q k) (\<lambda>(file, k1). case file of None \<Rightarrow> Some (-1, k1) | Some f \<Rightarrow> Some (alloc_fd f k1)) = Some (d, k')" for fs
  proof -
    from that obtain fl k1 where c: "fs_create fs q k = Some (fl, k1)" by (cases "fs_create fs q k") auto
    show ?thesis using that fs_create_ok [OF assms(1) c] alloc_fd_ok unfolding c by (cases fl) auto
  qed
  show ?thesis
  proof (cases "take 5 q = ''/tmp/'' \<or> q = ''/tmp''")
    case True
    from assms(2) [unfolded vfs_create_def q bind.bind_lunit if_P [OF True]] show ?thesis by (rule new)
  next
    case False
    note a = assms(2) [unfolded vfs_create_def q bind.bind_lunit if_not_P [OF False]]
    show ?thesis
    proof (cases "find_mount q k")
      case None
      with a assms(1) show ?thesis by simp
    next
      case (Some mp)
      from a [unfolded Some option.case] show ?thesis by (rule new)
    qed
  qed
qed

lemma vfs_unlink_ok [inv_intros]: "kernel_ok k \<Longrightarrow> vfs_unlink p k = Some (r, k') \<Longrightarrow> kernel_ok k'"
  by (auto simp: vfs_unlink_def split: option.splits dest: fs_unlink_ok)

lemma vfs_mkdir_ok [inv_intros]: "kernel_ok k \<Longrightarrow> vfs_mkdir p k = Some (r, k') \<Longrightarrow> kernel_ok k'"
  by (auto simp: vfs_mkdir_def split: option.splits dest: fs_mkdir_ok)

lemma vfs_remove_recursive_ok [inv_intros]: "kernel_ok k \<Longrightarrow> vfs_remove_recursive p k = Some (r, k') \<Longrightarrow> kernel_ok k'"
  by (auto simp: vfs_remove_recursive_def split: option.splits dest: fs_remove_ok)

lemma ns_resolve_objs: "ns_resolve p es m = Some (r, m') \<Longrightarrow> fobjs m' = fobjs m"
  by (induction p es m rule: ns_resolve.induct) (auto simp: Let_def split: if_splits prod.splits option.splits)

lemma resolve_namespace_ok [inv_intros]: "kernel_ok k \<Longrightarrow> resolve_namespace_path p k = Some (r, k') \<Longrightarrow> kernel_ok k'"
  using kernel_ok_parts(2) [of k]
  by (auto simp: resolve_namespace_path_def objs_ok_def split: option.splits dest!: ns_resolve_objs intro!: kernel_ok_km)

lemma vfs_read_dir_ok [inv_intros]: "kernel_ok k \<Longrightarrow> vfs_read_dir p n k = Some (r, k') \<Longrightarrow> kernel_ok k'"
  by (auto simp: vfs_read_dir_def split: option.splits dest: resolve_namespace_ok)

section \<open>Processes and name spaces\<close>

lemma procs_ok_pupd [inv_intros]:
  "procs_ok s \<Longrightarrow> (\<And>pr. process_ok pr \<Longrightarrow> process_ok (f pr)) \<Longrightarrow> procs_ok (pupd q f s)"
  by (simp add: procs_ok_def pupd_def)

lemma procs_ok_fields [simp]:
  "procs_ok (s\<lparr>current_process := c\<rparr>) = procs_ok s" "procs_ok (s\<lparr>process_list := c\<rparr>) = procs_ok s" "procs_ok (s\<lparr>next_pid := i\<rparr>) = procs_ok s"
  by (simp_all add: procs_ok_def)

lemma process_ok_fields [simp]:
  "process_ok (p\<lparr>pid := i\<rparr>) = process_ok p" "process_ok (p\<lparr>parent_pid := i\<rparr>) = process_ok p" "process_ok (p\<lparr>pstate := st\<rparr>) = process_ok p"
  "process_ok (p\<lparr>nxt := n\<rparr>) = process_ok p" "process_ok (p\<lparr>ns := es\<rparr>) = process_ok p" "process_ok (p\<lparr>proc_sp := w\<rparr>) = process_ok p"
  "process_ok (p\<lparr>exit_status := i\<rparr>) = process_ok p"
  by (simp_all add: process_ok_def)

lemma dispatch_ok [inv_intros]: "procs_ok s \<Longrightarrow> procs_ok (dispatch n s)"
  by (auto simp: dispatch_def Let_def intro!: procs_ok_pupd split: option.splits)

lemma schedule_ok [inv_intros]: "procs_ok s \<Longrightarrow> schedule s = Some (out, s') \<Longrightarrow> procs_ok s'"
  by (auto simp: schedule_def intro: dispatch_ok split: option.splits)

lemma create_process_ok [inv_intros]:
  assumes "procs_ok s" "create_process lm s = Some (new, s')"
  shows "procs_ok s'"
proof -
  from assms(2) obtain c where c: "current_process s = Some c" "process_count s < MAX_PROCESSES"
    by (auto simp: create_process_def get_current_process_def Let_def split: if_splits)
  have "length (ctx_x (ctx (procs s c))) = 31" using assms(1) by (simp add: procs_ok_def process_ok_def)
  then show ?thesis
    using assms c by (auto simp: create_process_def get_current_process_def Let_def procs_ok_def pupd_def process_ok_def)
qed

lemma handle_exec_ok [inv_intros]: "procs_ok s \<Longrightarrow> handle_exec_message a msg s = Some (r, s') \<Longrightarrow> procs_ok s'"
  by (auto simp: handle_exec_message_def Let_def process_ok_def intro!: procs_ok_pupd split: if_splits option.splits)

lemma upd_cur_ok [inv_intros]:
  assumes "kernel_ok k" "\<And>p. process_ok p \<Longrightarrow> process_ok (f p)"
  shows "kernel_ok (upd_cur f k)"
  using assms kernel_ok_parts(1) [OF assms(1)] by (auto simp: upd_cur_def intro!: kernel_ok_pt procs_ok_pupd split: option.splits)

lemma create_namespace_objs: "create_namespace old new fl m = (e, m') \<Longrightarrow> fobjs m' = fobjs m"
  by (auto simp: create_namespace_def split: option.splits prod.splits if_splits)

lemma bind_ns_ok [inv_intros]:
  assumes "kernel_ok k" "bind_ns old new fl k = Some (r, k')"
  shows "kernel_ok k'"
proof -
  from assms(2) obtain r1 k1 where r1: "vfs_read_dir old 1 k = Some (r1, k1)"
    unfolding bind_ns_def by (cases "vfs_read_dir old 1 k") auto
  note k1 = vfs_read_dir_ok [OF assms(1) r1]
  show ?thesis
  proof (cases "r1 = None")
    case True
    then show ?thesis using assms(2) k1 unfolding bind_ns_def r1 by simp
  next
    case False
    with assms(2) obtain r2 k2 where r2: "vfs_read_dir new 1 k1 = Some (r2, k2)"
      unfolding bind_ns_def r1 by (cases "vfs_read_dir new 1 k1") auto
    note k2 = vfs_read_dir_ok [OF k1 r2]
    obtain e m where e: "create_namespace old new fl (km k2) = (e, m)" by force
    have m: "kernel_ok (k2\<lparr>km := m\<rparr>)"
      using kernel_ok_parts(2) [OF k2] create_namespace_objs [OF e] by (intro kernel_ok_km [OF k2]) (simp add: objs_ok_def)
    show ?thesis
      using assms(2) False k2 m unfolding bind_ns_def r1 bind.bind_lunit prod.case r2 e
      by (cases e) (auto split: if_splits intro!: upd_cur_ok)
  qed
qed

lemma unbind_ok [inv_intros]: "kernel_ok k \<Longrightarrow> unbind p k = (r, k') \<Longrightarrow> kernel_ok k'"
  by (auto simp: unbind_def intro!: upd_cur_ok split: option.splits)

section \<open>Messages\<close>

lemma on_kern_ok: "on_kern x m = Some (r, m') \<Longrightarrow> (\<And>k'. x = Some (r, k') \<Longrightarrow> kernel_ok k') \<Longrightarrow> kernel_ok (kern m')"
  by (auto simp: on_kern_def)

lemma copy_loop_ok [inv_intros]:
  assumes "copy_loop src dst t k = Some (ok, n, k')" "kernel_ok k"
  shows "kernel_ok k'"
proof -
  have "kernel_ok k \<longrightarrow> kernel_ok (snd (snd y))" if "copy_loop src dst t k = Some y" for y
    using that
  proof (induction rule: copy_loop.raw_induct [rotated, consumes 1])
    case (1 cl src dst t k y)
    then obtain r buf k1 where r: "vfs_read src 1024 k = Some (r, buf, k1)" by auto
    show ?case
    proof (intro impI)
      assume "kernel_ok k"
      then have k1: "kernel_ok k1" using r by (rule vfs_read_ok)
      show "kernel_ok (snd (snd y))"
      proof (cases "c_int r > 0")
        case True
        with 1(2) r obtain w k2 where w: "vfs_write dst buf (of_int (c_int r)) k1 = Some (w, k2)" by (auto simp: Let_def)
        have k2: "kernel_ok k2" by (rule vfs_write_ok [OF k1 w])
        show ?thesis using 1 True r w k2 by (auto simp: Let_def split: if_splits)
      qed (use 1(2) r k1 in \<open>auto simp: Let_def\<close>)
    qed
  qed
  from this [OF assms(1)] assms(2) show ?thesis by simp
qed

lemma copy_files_ok [inv_intros]:
  assumes "kernel_ok k" "copy_files s d k = Some (r, k')"
  shows "kernel_ok k'"
proof -
  from assms(2) obtain f1 k1 where 1: "vfs_open s k = Some (f1, k1)" unfolding copy_files_def by (cases "vfs_open s k") auto
  note k1 = vfs_open_ok [OF assms(1) 1]
  show ?thesis
  proof (cases "f1 < 0")
    case True
    then show ?thesis using assms(2) k1 by (simp add: copy_files_def 1)
  next
    case False
    with assms(2) obtain f2 k2 where 2: "vfs_create d k1 = Some (f2, k2)"
      unfolding copy_files_def 1 by (cases "vfs_create d k1") auto
    note k2 = vfs_create_ok [OF k1 2]
    show ?thesis
    proof (cases "f2 < 0")
      case True
      then show ?thesis using assms(2) False k2 by (auto simp: copy_files_def 1 2 intro: snd_vfs_close_ok)
    next
      case f2: False
      with assms(2) False obtain ok t k3 where 3: "copy_loop f1 f2 0 k2 = Some (ok, t, k3)"
        unfolding copy_files_def 1 bind.bind_lunit prod.case 2 by (cases "copy_loop f1 f2 0 k2") auto
      show ?thesis using assms(2) False f2 copy_loop_ok [OF 3 k2] by (auto simp: copy_files_def 1 2 3 intro!: snd_vfs_close_ok)
    qed
  qed
qed

lemma handle_read_dir_ok [inv_intros]:
  assumes "kernel_ok k" "handle_read_dir_message msg k = Some (r, ds, msg', k')"
  shows "kernel_ok k'"
proof (cases "path msg")
  case None
  then show ?thesis using assms by (simp add: handle_read_dir_message_def)
next
  case (Some p)
  with assms(2) obtain x k1 where x: "vfs_read_dir p 32 k = Some (x, k1)" by (auto simp: handle_read_dir_message_def)
  note a = assms(2) [unfolded handle_read_dir_message_def Some option.case x bind.bind_lunit prod.case]
  have "k' = k1" using a by (cases x; cases "data msg") (simp_all split: if_splits)
  then show ?thesis using vfs_read_dir_ok [OF assms(1) x] by simp
qed

lemma send_open_read_ok:
  assumes "kernel_ok (kern m)"
  shows "msg_open msg m = Some (r, msg', m') \<Longrightarrow> kernel_ok (kern m')"
    and "msg_read msg m = Some (r, msg', m') \<Longrightarrow> kernel_ok (kern m')"
    and "msg_read_dir msg m = Some (r, msg', m') \<Longrightarrow> kernel_ok (kern m')"
proof -
  show "kernel_ok (kern m')" if "msg_open msg m = Some (r, msg', m')"
    using that vfs_open_ok [OF assms] by (auto simp: msg_open_def on_kern_def)
  show "kernel_ok (kern m')" if "msg_read msg m = Some (r, msg', m')"
    using that vfs_read_ok [OF assms] by (auto simp: msg_read_def Let_def split: if_splits)
  show "kernel_ok (kern m')" if "msg_read_dir msg m = Some (r, msg', m')"
    using that handle_read_dir_ok [OF assms] by (auto simp: msg_read_dir_def)
qed

lemma send_path_ok:
  assumes "kernel_ok (kern m)"
  shows "msg_create msg m = Some (r, msg', m') \<Longrightarrow> kernel_ok (kern m')"
    and "msg_mkdir msg m = Some (r, msg', m') \<Longrightarrow> kernel_ok (kern m')"
    and "msg_remove msg m = Some (r, msg', m') \<Longrightarrow> kernel_ok (kern m')"
proof -
  show "kernel_ok (kern m')" if "msg_create msg m = Some (r, msg', m')"
    using that vfs_create_ok [OF assms] by (auto simp: msg_create_def intro!: snd_vfs_close_ok split: if_splits)
  show "kernel_ok (kern m')" if "msg_mkdir msg m = Some (r, msg', m')"
    using that vfs_mkdir_ok [OF assms] by (auto simp: msg_mkdir_def on_kern_def)
  show "kernel_ok (kern m')" if "msg_remove msg m = Some (r, msg', m')"
    using that assms vfs_unlink_ok [OF assms] by (auto simp: msg_remove_def on_kern_def split: option.splits)
qed

lemma send_process_ok:
  assumes "kernel_ok (kern m)"
  shows "msg_fork e msg m = Some (r, msg', m') \<Longrightarrow> kernel_ok (kern m')"
    and "msg_exec e msg m = Some (r, msg', m') \<Longrightarrow> kernel_ok (kern m')"
    and "msg_wait msg m = Some (r, msg', m') \<Longrightarrow> kernel_ok (kern m')"
proof -
  note p = kernel_ok_parts(1) [OF assms]
  show "kernel_ok (kern m')" if "msg_fork e msg m = Some (r, msg', m')"
    using that create_process_ok [OF p] by (auto simp: msg_fork_def intro!: kernel_ok_pt [OF assms])
  show "kernel_ok (kern m')" if "msg_exec e msg m = Some (r, msg', m')"
    using that handle_exec_ok [OF p] by (auto simp: msg_exec_def intro!: kernel_ok_pt [OF assms])
  have "procs_ok (pupd c (\<lambda>pr. pr\<lparr>pstate := PROC_BLOCKED\<rparr>) (pt (kern m)))" for c by (intro procs_ok_pupd p) simp
  note b = schedule_ok [OF this]
  show "kernel_ok (kern m')" if "msg_wait msg m = Some (r, msg', m')"
    using that assms b by (auto simp: msg_wait_def Let_def intro!: kernel_ok_pt [OF assms] split: option.splits)
qed

lemma send_cwd_ok:
  assumes "kernel_ok (kern m)"
  shows "msg_getcwd msg m = Some (r, msg', m') \<Longrightarrow> kernel_ok (kern m')"
    and "msg_chdir msg m = Some (r, msg', m') \<Longrightarrow> kernel_ok (kern m')"
proof -
  show "kernel_ok (kern m')" if "msg_getcwd msg m = Some (r, msg', m')"
    using that assms by (auto simp: msg_getcwd_def Let_def split: option.splits if_splits)
  show "kernel_ok (kern m')" if a: "msg_chdir msg m = Some (r, msg', m')"
  proof (cases "cur_proc (kern m)")
    case None
    then show ?thesis using a assms by (simp add: msg_chdir_def)
  next
    case (Some p)
    with a obtain p0 full0 q d k where "vfs_read_dir q 1 (kern m) = Some (d, k)"
      "m' = m\<lparr>kern := k\<rparr> \<or> m' = m\<lparr>kern := upd_cur (\<lambda>pr. pr\<lparr>cwd := take 255 q\<rparr>) k\<rparr>"
      by (auto simp: msg_chdir_def split: if_splits)
    then show ?thesis using vfs_read_dir_ok [OF assms] by (auto intro!: upd_cur_ok simp: process_ok_def VFS_MAX_PATH_def)
  qed
qed

lemma send_copy_move_ok:
  assumes "kernel_ok (kern m)"
  shows "msg_copy msg m = Some (r, msg', m') \<Longrightarrow> kernel_ok (kern m')"
    and "msg_move msg m = Some (r, msg', m') \<Longrightarrow> kernel_ok (kern m')"
proof -
  show "kernel_ok (kern m')" if "msg_copy msg m = Some (r, msg', m')"
    using that assms copy_files_ok [OF assms] by (auto simp: msg_copy_def split: if_splits)
  show "kernel_ok (kern m')" if a: "msg_move msg m = Some (r, msg', m')"
  proof (cases "path msg = None \<or> data msg = None")
    case True
    then show ?thesis using a assms by (auto simp: msg_move_def)
  next
    case False
    then obtain s b where sb: "path msg = Some s" "data msg = Some b" by auto
    with a obtain d where d: "cstr_of b = Some d" by (auto simp: msg_move_def)
    with a sb obtain x k where x: "copy_files s d (kern m) = Some (x, k)" unfolding msg_move_def by (cases "copy_files s d (kern m)") auto
    note k = copy_files_ok [OF assms x]
    note c = a [unfolded msg_move_def sb option.simps if_False simp_thms bind.bind_lunit d x prod.case]
    consider "x = None" | "x = Some False" | "x = Some True" by (cases x) auto
    then show ?thesis
    proof cases
      case 3
      with c obtain u k1 where u: "vfs_unlink s k = Some (u, k1)" by auto
      show ?thesis using c 3 u vfs_unlink_ok [OF vfs_unlink_ok [OF k u]] vfs_unlink_ok [OF k u] by (auto split: if_splits)
    qed (use c k vfs_unlink_ok [OF k] in auto)
  qed
qed

lemma send_ns_ok:
  assumes "kernel_ok (kern m)"
  shows "msg_bind msg m = Some (r, msg', m') \<Longrightarrow> kernel_ok (kern m')"
    and "msg_unbind msg m = Some (r, msg', m') \<Longrightarrow> kernel_ok (kern m')"
proof -
  show "kernel_ok (kern m')" if "msg_bind msg m = Some (r, msg', m')"
    using that assms bind_ns_ok [OF assms] by (auto simp: msg_bind_def on_kern_def split: if_splits)
  show "kernel_ok (kern m')" if "msg_unbind msg m = Some (r, msg', m')"
    using that assms unbind_ok [OF assms] by (auto simp: msg_unbind_def on_kern_def split: if_splits prod.splits)
qed

lemma send_console_ok:
  assumes "kernel_ok (kern m)"
  shows "msg_putc msg m = Some (r, msg', m') \<Longrightarrow> kernel_ok (kern m')"
    and "msg_getc msg m = Some (r, msg', m') \<Longrightarrow> kernel_ok (kern m')"
    and "msg_puts e msg m = Some (r, msg', m') \<Longrightarrow> kernel_ok (kern m')"
  using assms by (auto simp: msg_putc_def msg_getc_def msg_puts_def)

lemmas send_handlers_ok =
  send_open_read_ok send_path_ok send_process_ok send_cwd_ok send_copy_move_ok send_ns_ok send_console_ok

lemma send_message_ok [inv_intros]:
  assumes "kernel_ok (kern m)" "send_message e msg m = Some (r, msg', m')"
  shows "kernel_ok (kern m')"
proof (cases "msg_type_of (msg_type msg)")
  case None
  then show ?thesis using assms by (simp add: send_message_def)
next
  case (Some k)
  show ?thesis
    using assms(2) send_handlers_ok [OF assms(1)] assms(1) unfolding send_message_def Some option.case
    by (cases k) simp_all
qed

end
