(* ===== verification/Shell_Inv.thy ===== *)
theory Shell_Inv
  imports Kernel_Inv Shell Syscall Sched
begin

text \<open>
  The shell and the system calls keep the invariant of the kernel: every command, whatever its arguments, and every exception from user mode,
  whatever the registers and the memory of the program hold, leaves the structures of the kernel inside their bounds.
\<close>

section \<open>Console output\<close>

lemma say_kern: "say adr s m = Some m' \<Longrightarrow> kern m' = kern m"
  by (auto simp: say_def)

lemma say_all_kern: "say_all adr ss m = Some m' \<Longrightarrow> kern m' = kern m"
  by (induction ss arbitrary: m) (auto simp: say_kern split: Option.bind_splits)

text \<open>A report after an operation, the pattern of every command.\<close>

lemma reported_ok:
  assumes "kernel_ok (kern m)"
  shows "say adr s m = Some m' \<Longrightarrow> kernel_ok (kern m')" "say_all adr ss m = Some m' \<Longrightarrow> kernel_ok (kern m')"
  using assms by (simp_all add: say_kern say_all_kern)

section \<open>Directories\<close>

lemma parent_len_le: "parent_len p n \<le> n"
  by (induction n) auto

lemma get_parent_dir_length: "length p < VFS_MAX_PATH \<Longrightarrow> length (get_parent_dir p) < VFS_MAX_PATH"
  by (auto simp: get_parent_dir_def Let_def VFS_MAX_PATH_def split: if_splits)

lemma cd_walk_length: "cd_walk t cs = Some t' \<Longrightarrow> length t < VFS_MAX_PATH \<Longrightarrow> length t' < VFS_MAX_PATH"
proof (induction cs arbitrary: t)
  case (Cons c cs)
  show ?case
  proof (cases "c = ''.'' \<or> c = ''..''")
    case True
    then show ?thesis using Cons get_parent_dir_length [of t] by (auto split: if_splits)
  next
    case False
    with Cons.prems(1) obtain u where "into_buf VFS_MAX_PATH ((if t \<noteq> ''/'' then t @ ''/'' else t) @ c) = Some u" "cd_walk u cs = Some t'"
      by (auto split: Option.bind_splits)
    then show ?thesis using Cons.IH [of u] by (auto simp: into_buf_def split: if_splits)
  qed
qed simp

lemma cwd_upd_ok: "kernel_ok k \<Longrightarrow> length q < VFS_MAX_PATH \<Longrightarrow> kernel_ok (upd_cur (\<lambda>pr. pr\<lparr>cwd := q\<rparr>) k)"
  by (rule upd_cur_ok) (simp_all add: process_ok_def)

lemma cmd_cd_ok:
  assumes "kernel_ok (kern m)" "cmd_cd adr args m = Some m'"
  shows "kernel_ok (kern m')"
proof -
  from assms(2) obtain p where p: "cur_proc (kern m) = Some p" by (auto simp: cmd_cd_def)
  have len: "length (cwd p) < VFS_MAX_PATH"
    using kernel_ok_parts(1) [OF assms(1)] p by (auto simp: cur_proc_def procs_ok_def process_ok_def)
  note root = cwd_upd_ok [OF assms(1), of "''/''"]
  note c = assms(2) [unfolded cmd_cd_def p bind.bind_lunit]
  consider "args = None \<or> args = Some []" | "args = Some ''.''" | "args = Some ''..''"
    | q where "args = Some q" "q \<noteq> []" "q \<noteq> ''.''" "q \<noteq> ''..''" by (cases args) auto
  then show ?thesis
  proof cases
    case 3
    have "process_ok (pr\<lparr>cwd := get_parent_dir (cwd pr)\<rparr>)" if "process_ok pr" for pr
      using that get_parent_dir_length by (simp add: process_ok_def)
    then show ?thesis using c 3 upd_cur_ok [OF assms(1)] by auto
  next
    case (4 q)
    define a where "a = (cs_nth q 0 = CHR ''/'')"
    note c4 = c [unfolded 4(1) option.case if_not_P [OF 4(2)] if_not_P [OF 4(3)] if_not_P [OF 4(4)] a_def [symmetric] Let_def]
    from c4 obtain pc t where t: "into_buf VFS_MAX_PATH (if a then drop 1 q else q) = Some pc" "cd_walk (if a then ''/'' else cwd p) (tokens ''/'' pc) = Some t"
      by (auto split: Option.bind_splits)
    from c4 t obtain d k where d: "vfs_open t (kern m) = Some (d, k)" by (auto split: Option.bind_splits)
    note k = vfs_open_ok [OF assms(1) d]
    have "length t < VFS_MAX_PATH" using cd_walk_length [OF t(2)] len by (simp add: VFS_MAX_PATH_def split: if_splits)
    then show ?thesis
      using c4 cwd_upd_ok [OF k] reported_ok(2) [of "m\<lparr>kern := k\<rparr>"] k
      unfolding t bind.bind_lunit d prod.case by (auto split: if_splits simp del: say_all.simps)
  qed (use c root assms(1) in \<open>auto simp: VFS_MAX_PATH_def\<close>)
qed

lemma cmd_ls_ok:
  assumes "kernel_ok (kern m)" "cmd_ls adr e args m = Some m'"
  shows "kernel_ok (kern m')"
proof -
  from assms(2) obtain p r msg m1 where r: "(if args = None \<or> args = Some [] then map_option cwd (cur_proc (kern m)) else args) = Some p"
    "send_message e ((blank_message (msg_code MSG_READ_DIR))\<lparr>path := Some p\<rparr>) m = Some (r, msg, m1)"
    unfolding cmd_ls_def by (auto split: Option.bind_splits)
  note m1 = send_message_ok [OF assms(1) r(2)]
  show ?thesis using assms(2) m1 reported_ok(2) [OF m1] unfolding cmd_ls_def r bind.bind_lunit prod.case
    by (auto split: reply.splits if_splits simp del: say_all.simps)
qed

lemma cmd_show_ok:
  assumes "kernel_ok (kern m)"
  shows "cmd_echo adr args m = Some m' \<Longrightarrow> kernel_ok (kern m')" "cmd_pwd adr args m = Some m' \<Longrightarrow> kernel_ok (kern m')"
proof -
  show "kernel_ok (kern m')" if "cmd_echo adr args m = Some m'"
    using that assms by (auto simp: cmd_echo_def say_kern split: option.splits Option.bind_splits)
  show "kernel_ok (kern m')" if "cmd_pwd adr args m = Some m'"
    using that reported_ok [OF assms] by (auto simp: cmd_pwd_def split: if_splits simp del: say_all.simps)
qed

section \<open>Files\<close>

lemma cp_loop_ok:
  assumes "cp_loop src dst k = Some (r, k')" "kernel_ok k"
  shows "kernel_ok k'"
proof -
  have "kernel_ok k \<longrightarrow> kernel_ok (snd y)" if "cp_loop src dst k = Some y" for y
    using that
  proof (induction rule: cp_loop.raw_induct [rotated, consumes 1])
    case (1 cl src dst k y)
    then obtain n buf k1 where r: "vfs_read src 1024 k = Some (n, buf, k1)" by auto
    show ?case
    proof (intro impI)
      assume "kernel_ok k"
      then have k1: "kernel_ok k1" using r by (rule vfs_read_ok)
      show "kernel_ok (snd y)"
      proof (cases "n > 0")
        case True
        with 1(2) r obtain w k2 where w: "vfs_write dst buf (of_int n) k1 = Some (w, k2)" by auto
        have k2: "kernel_ok k2" by (rule vfs_write_ok [OF k1 w])
        show ?thesis using 1 True r w k2 by (auto split: if_splits)
      qed (use 1(2) r k1 in auto)
    qed
  qed
  from this [OF assms(1)] assms(2) show ?thesis by simp
qed

lemma cmd_cp_ok:
  assumes "kernel_ok (kern m)" "cmd_cp adr args m = Some m'"
  shows "kernel_ok (kern m')"
proof -
  obtain sa da where w: "two_words args = Some (sa, da)" using assms(2) by (auto simp: cmd_cp_def)
  show ?thesis
  proof (cases "sa = None \<or> da = None")
    case True
    then show ?thesis using assms(2) reported_ok(1) [OF assms(1)] unfolding cmd_cp_def w bind.bind_lunit prod.case if_P [OF True] by blast
  next
    case False
    note c = assms(2) [unfolded cmd_cp_def w bind.bind_lunit prod.case if_not_P [OF False]]
    from c obtain s d where sd: "Option.bind sa (into_buf VFS_MAX_PATH) = Some s" "Option.bind da (into_buf VFS_MAX_PATH) = Some d"
      by (auto split: Option.bind_splits)
    note c1 = c [unfolded sd bind.bind_lunit]
    from c1 obtain f1 k1 where f1: "vfs_open s (kern m) = Some (f1, k1)" by (cases "vfs_open s (kern m)") auto
    have k1: "kernel_ok (kern (m\<lparr>kern := k1\<rparr>))" using vfs_open_ok [OF assms(1) f1] by simp
    note c2 = c1 [unfolded f1 bind.bind_lunit prod.case]
    show ?thesis
    proof (cases "f1 < 0")
      case True
      from reported_ok(2) [OF k1 c2 [unfolded if_P [OF True]]] show ?thesis .
    next
      case f: False
      note c3 = c2 [unfolded if_not_P [OF f]]
      from c3 obtain f2 k2 where f2: "vfs_create d k1 = Some (f2, k2)" by (cases "vfs_create d k1") auto
      have k2: "kernel_ok k2" using vfs_create_ok [OF _ f2] k1 by simp
      then have k2': "kernel_ok (kern (m\<lparr>kern := k2\<rparr>))" by simp
      note c4 = c3 [unfolded f2 bind.bind_lunit prod.case]
      show ?thesis
      proof (cases "f2 < 0")
        case True
        from reported_ok(2) [OF k2' c4 [unfolded if_P [OF True]]] show ?thesis .
      next
        case g: False
        note c5 = c4 [unfolded if_not_P [OF g]]
        from c5 obtain b n k3 where l: "cp_loop f1 f2 k2 = Some ((b, n), k3)" by (cases "cp_loop f1 f2 k2") auto
        have "kernel_ok k3" by (rule cp_loop_ok [OF l k2])
        then show ?thesis using c5 unfolding l bind.bind_lunit prod.case
          by (cases b; cases "n < 0") (auto simp: say_kern split: Option.bind_splits)
      qed
    qed
  qed
qed

text \<open>The report of a failure after an operation on the file system.\<close>

lemma report_ok:
  assumes "kernel_ok k"
  shows "(if b then say adr t (m\<lparr>kern := k\<rparr>) else x) = Some m' \<Longrightarrow> (x = Some m' \<Longrightarrow> kernel_ok (kern m')) \<Longrightarrow> kernel_ok (kern m')"
    and "(if b then say_all adr ts (m\<lparr>kern := k\<rparr>) else x) = Some m' \<Longrightarrow> (x = Some m' \<Longrightarrow> kernel_ok (kern m')) \<Longrightarrow> kernel_ok (kern m')"
  using assms say_kern [of adr t "m\<lparr>kern := k\<rparr>" m'] say_all_kern [of adr ts "m\<lparr>kern := k\<rparr>" m'] by (cases b; simp)+

lemma cmd_touch_ok:
  assumes "kernel_ok (kern m)" "cmd_touch adr args m = Some m'"
  shows "kernel_ok (kern m')"
proof (cases "args = None \<or> args = Some []")
  case True
  then show ?thesis using assms(2) reported_ok(1) [OF assms(1)] by (auto simp: cmd_touch_def)
next
  case False
  then obtain a where a: "args = Some a" "a \<noteq> []" by auto
  note c = assms(2) [unfolded cmd_touch_def a(1) option.case if_not_P [OF a(2)]]
  from c obtain d k where d: "vfs_create a (kern m) = Some (d, k)" by (cases "vfs_create a (kern m)") auto
  note k = vfs_create_ok [OF assms(1) d]
  show ?thesis using c [unfolded d bind.bind_lunit prod.case] by (rule report_ok(2) [OF k]) (use snd_vfs_close_ok [OF k, of d] in auto)
qed

lemma cmd_mkdir_ok:
  assumes "kernel_ok (kern m)" "cmd_mkdir adr args m = Some m'"
  shows "kernel_ok (kern m')"
proof (cases "args = None \<or> args = Some []")
  case True
  then show ?thesis using assms(2) reported_ok(1) [OF assms(1)] by (auto simp: cmd_mkdir_def)
next
  case False
  then obtain a where a: "args = Some a" "a \<noteq> []" by auto
  note c = assms(2) [unfolded cmd_mkdir_def a(1) option.case if_not_P [OF a(2)]]
  from c obtain r k where r: "vfs_mkdir a (kern m) = Some (r, k)" by (cases "vfs_mkdir a (kern m)") auto
  note k = vfs_mkdir_ok [OF assms(1) r]
  show ?thesis using c [unfolded r bind.bind_lunit prod.case] by (rule report_ok(2) [OF k]) (use k in auto)
qed

lemma cmd_mv_ok:
  assumes "kernel_ok (kern m)" "cmd_mv adr args m = Some m'"
  shows "kernel_ok (kern m')"
proof -
  obtain sa da where w: "two_words args = Some (sa, da)" using assms(2) by (auto simp: cmd_mv_def)
  show ?thesis
  proof (cases "sa = None \<or> da = None")
    case True
    then show ?thesis using assms(2) reported_ok(1) [OF assms(1)] unfolding cmd_mv_def w bind.bind_lunit prod.case if_P [OF True] by blast
  next
    case False
    note c = assms(2) [unfolded cmd_mv_def w bind.bind_lunit prod.case if_not_P [OF False]]
    from c obtain s d t where sd: "Option.bind sa (into_buf VFS_MAX_PATH) = Some s" "Option.bind da (into_buf VFS_MAX_PATH) = Some d"
      "into_buf (VFS_MAX_PATH * 2) (s @ '' '' @ d) = Some t"
      by (auto split: Option.bind_splits)
    note c1 = c [unfolded sd bind.bind_lunit]
    from c1 obtain m1 where m1: "cmd_cp adr (Some t) m = Some m1" by (cases "cmd_cp adr (Some t) m") auto
    from c1 [unfolded m1 bind.bind_lunit] obtain r k where r: "vfs_unlink s (kern m1) = Some (r, k)" by (cases "vfs_unlink s (kern m1)") auto
    note k = vfs_unlink_ok [OF cmd_cp_ok [OF assms(1) m1] r]
    show ?thesis using c1 [unfolded m1 bind.bind_lunit r prod.case] by (rule report_ok(1) [OF k]) (use k in auto)
  qed
qed

lemma rm_target_ok:
  assumes "kernel_ok (kern m)" "rm_target adr b t m = Some m'"
  shows "kernel_ok (kern m')"
proof (cases b)
  case True
  note c = assms(2) [unfolded rm_target_def if_P [OF True]]
  from c obtain r k where r: "vfs_remove_recursive (Some t) (kern m) = Some (r, k)" by (cases "vfs_remove_recursive (Some t) (kern m)") auto
  note k = vfs_remove_recursive_ok [OF assms(1) r]
  show ?thesis using c [unfolded r bind.bind_lunit prod.case] by (rule report_ok(2) [OF k]) (use k in auto)
next
  case False
  note c = assms(2) [unfolded rm_target_def if_not_P [OF False]]
  from c obtain r k where r: "vfs_unlink t (kern m) = Some (r, k)" by (cases "vfs_unlink t (kern m)") auto
  note k = vfs_unlink_ok [OF assms(1) r]
  show ?thesis using c [unfolded r bind.bind_lunit prod.case] by (rule report_ok(2) [OF k]) (use k in auto)
qed

lemma cmd_rm_ok:
  assumes "kernel_ok (kern m)" "cmd_rm adr args m = Some m'"
  shows "kernel_ok (kern m')"
  using assms(2) rm_target_ok [OF assms(1)] reported_ok(1) [OF assms(1)]
  by (auto simp: cmd_rm_def split: option.splits if_splits)

lemma cmd_bind_ok:
  assumes "kernel_ok (kern m)" "cmd_bind adr args m = Some m'"
  shows "kernel_ok (kern m')"
proof -
  obtain old new where w: "two_words args = Some (old, new)" using assms(2) by (auto simp: cmd_bind_def)
  show ?thesis
  proof (cases "old = None \<or> new = None")
    case True
    then show ?thesis using assms(2) reported_ok(1) [OF assms(1)] unfolding cmd_bind_def w bind.bind_lunit prod.case if_P [OF True] by blast
  next
    case False
    then obtain a b where ab: "old = Some a" "new = Some b" by auto
    note c = assms(2) [unfolded cmd_bind_def w bind.bind_lunit prod.case if_not_P [OF False], unfolded ab bind.bind_lunit]
    from c obtain r k where r: "bind_ns a b MREPL (kern m) = Some (r, k)" by (cases "bind_ns a b MREPL (kern m)") auto
    note k = bind_ns_ok [OF assms(1) r]
    show ?thesis using c [unfolded r bind.bind_lunit prod.case]
      by (rule report_ok(1) [OF k]) (erule reported_ok(2) [rotated], simp add: k)
  qed
qed

lemma cmd_unbind_ok:
  assumes "kernel_ok (kern m)" "cmd_unbind adr e args m = Some m'"
  shows "kernel_ok (kern m')"
proof (cases args)
  case None
  then show ?thesis using assms(2) reported_ok(1) [OF assms(1)] by (simp add: cmd_unbind_def)
next
  case (Some a)
  note c = assms(2) [unfolded cmd_unbind_def Some option.case]
  let ?msg = "(blank_message (msg_code MSG_UNBIND))\<lparr>path := Some a\<rparr>"
  from c obtain r msg m1 where r: "send_message e ?msg m = Some (r, msg, m1)" by (cases "send_message e ?msg m") auto
  note m1 = send_message_ok [OF assms(1) r]
  show ?thesis using c [unfolded r bind.bind_lunit prod.case] reported_ok [OF m1]
    by (auto split: reply.splits if_splits simp del: say_all.simps)
qed

section \<open>The main loop\<close>

lemma exit_process_ok [inv_intros]:
  assumes "procs_ok s" "exit_process st s = Some (out, s')"
  shows "procs_ok s'"
proof -
  from assms(2) obtain c s1 s2 where s1: "s1 = pupd c (\<lambda>pr. pr\<lparr>pstate := PROC_ZOMBIE, exit_status := st\<rparr>) s"
    and s2: "s2 = s1 \<or> (\<exists>q. pstate (procs s1 q) = PROC_BLOCKED \<and> s2 = pupd q (\<lambda>pr. pr\<lparr>pstate := PROC_READY\<rparr>) s1)"
    and sch: "schedule s2 = Some (out, s')" by (rule exit_process_cases)
  have "procs_ok s1" unfolding s1 by (intro procs_ok_pupd assms(1)) simp
  then have "procs_ok s2" using s2 by (auto intro: procs_ok_pupd)
  then show ?thesis using sch by (rule schedule_ok)
qed

lemma cmd_exit_ok: "kernel_ok (kern m) \<Longrightarrow> cmd_exit m = Some (out, m') \<Longrightarrow> kernel_ok (kern m')"
  by (auto simp: cmd_exit_def intro!: kernel_ok_pt exit_process_ok [OF kernel_ok_parts(1)])

lemma run_command_ok:
  assumes "kernel_ok (kern m)" "run_command adr e cmd args m = Some (out, m')"
  shows "kernel_ok (kern m')"
proof (cases "cmd = ''exit''")
  case True
  then show ?thesis using assms cmd_exit_ok by (simp add: run_command_def)
next
  case False
  note c = assms(2) [unfolded run_command_def if_not_P [OF False]]
  note ok = cmd_show_ok cmd_cd_ok cmd_ls_ok cmd_cp_ok cmd_touch_ok cmd_mv_ok cmd_rm_ok cmd_mkdir_ok cmd_bind_ok cmd_unbind_ok
  obtain x where x: "map_option (Pair None) x = Some (out, m')" and "x = Some m' \<Longrightarrow> kernel_ok (kern m')"
    using c by (rule that) (auto intro: ok [OF assms(1)] reported_ok(2) [OF assms(1)] split: if_splits simp del: say_all.simps)
  then show ?thesis by auto
qed

lemma read_line_kern:
  assumes "read_line adr input m = Some (line, m')"
  shows "kern m' = kern m"
proof -
  have "kern (snd y) = kern m" if "read_line adr input m = Some y" for y
    using that
    by (induction rule: read_line.raw_induct [rotated, consumes 1]) (auto simp: Let_def say_kern split: if_splits Option.bind_splits)
  from this [OF assms] show ?thesis by simp
qed

lemma shell_iter_ok:
  assumes "kernel_ok (kern m)" "shell_iter adr e m = Some (out, m')"
  shows "kernel_ok (kern m')"
proof -
  from assms(2) obtain m1 l m2 where m1: "say adr PROMPT m = Some m1" "read_line adr [] m1 = Some (l, m2)"
    by (auto simp: shell_iter_def split: Option.bind_splits)
  have m2: "kernel_ok (kern m2)" using say_kern [OF m1(1)] read_line_kern [OF m1(2)] assms(1) by simp
  obtain cmd args where "split_line l = (cmd, args)" by force
  then have "run_command adr e cmd args m2 = Some (out, m')" using assms(2) by (simp add: shell_iter_def m1)
  with m2 show ?thesis by (rule run_command_ok)
qed

section \<open>System calls\<close>

text \<open>The machine when the handler is left.\<close>

fun sys_machine :: "sys_outcome \<Rightarrow> machine" where
  "sys_machine (SysReturn w msg m) = m"
| "sys_machine (SysSuspend out msg m) = m"

lemma sys_reply_ok:
  assumes "kernel_ok (kern m)" "sys_reply f (send_message e msg m) = Some r"
  shows "kernel_ok (kern (sys_machine r))"
proof -
  obtain rep msg' m' where s: "send_message e msg m = Some (rep, msg', m')" using assms(2) by (auto simp: sys_reply_def)
  show ?thesis using assms(2) send_message_ok [OF assms(1) s] by (cases rep) (auto simp: sys_reply_def s)
qed

lemma syscall_ok:
  assumes "kernel_ok (kern m)" "syscall e um x m = Some r"
  shows "kernel_ok (kern (sys_machine r))"
proof -
  consider msg f where "sys_reply f (send_message e msg m) = Some r"
    | xs m1 where "say_items (env_adr e) xs m = Some m1" "sys_machine r = m1"
    using assms(2) unfolding syscall_def by (auto simp del: say_items.simps split: if_splits Option.bind_splits)
  then show ?thesis using assms(1) sys_reply_ok say_items_kern by cases auto
qed

lemma handle_sync_exception_ok:
  assumes "kernel_ok (kern m)" "handle_sync_exception e um esr x0 x1 x2 x8 x m = Some (r, x')"
  shows "kernel_ok (kern (sys_machine r))"
proof -
  define ec where "ec = drop_bit 26 esr AND 0x3F"
  consider y where "syscall e um y m = Some r" | m1 where "report_exception e esr ec m = Some m1" "sys_machine r = m1"
    using assms(2) unfolding handle_sync_exception_def Let_def ec_def [symmetric] by (auto split: if_splits Option.bind_splits)
  then show ?thesis
  proof cases
    case 1
    with assms(1) show ?thesis by (rule syscall_ok)
  next
    case 2
    then show ?thesis using assms(1) say_items_kern [OF 2(1) [unfolded report_exception_def]] by simp
  qed
qed

end
