(* ===== verification/Sched_Runs.thy ===== *)
theory Sched_Runs
  imports Proc_Props
begin

text \<open>
  Runs of the process operations from both starts of the table: \<open>init_process\<close>, and the path of \<open>kernel_main\<close> in \<open>src/src/kernel/kernel.c\<close>, which calls \<open>process_init\<close>
  and creates the user shell with \<open>process_create\<close>, marked as ready and not as running. A state is the heap position and the table, with a flag
  that is set once an operation has ended in the idle loop \<open>while(1)\<close>: nothing follows then.

  The operations are those of \<open>process.c\<close> and \<open>message.c\<close> except \<open>switch_to_process\<close> and \<open>init_processes\<close>, which nothing calls and which break what is shown here.
\<close>

section \<open>Operations and runs\<close>

text \<open>One operation, with what \<open>schedule\<close> did in it. \<open>MSG_FORK\<close> of \<open>send_message\<close> is \<open>create\<close>, its \<open>MSG_WAIT\<close> writes the table as \<open>wait_child\<close> does; \<open>main_create\<close> is what
  \<open>kernel_main\<close> does; \<open>alloc\<close> stands for the other allocations from the same heap, of sizes that do not wrap its bounds check, \<open>set_cwd\<close> and \<open>set_ns\<close> for changes of the working directory and of the bindings.\<close>

inductive proc_call :: "link_map \<Rightarrow> u64 \<times> ptable \<Rightarrow> sched_outcome option \<Rightarrow> u64 \<times> ptable \<Rightarrow> bool" for lm where
  create: "create_process lm s = Some (p, s') \<Longrightarrow> proc_call lm (h, s) None (h, s')"
| fork: "handle_fork_message lm msg s = Some (r, msg', s') \<Longrightarrow> proc_call lm (h, s) None (h, s')"
| heap_create: "process_create en h s = (r, h', s') \<Longrightarrow> proc_call lm (h, s) None (h', s')"
| main_create: "process_create en h s = (Some p, h', s') \<Longrightarrow>
    proc_call lm (h, s) None (h', pupd p (\<lambda>pr. pr\<lparr>proc_sp := sp, pstate := PROC_READY\<rparr>) s')"
| yield: "schedule s = Some (out, s') \<Longrightarrow> proc_call lm (h, s) (Some out) (h, s')"
| exit: "exit_process st s = Some (out, s') \<Longrightarrow> proc_call lm (h, s) (Some out) (h, s')"
| leave: "process_exit st s = Some (out, s') \<Longrightarrow> proc_call lm (h, s) out (h, s')"
| wait: "handle_wait_message msg s = Some (out, r, msg', s') \<Longrightarrow> proc_call lm (h, s) out (h, s')"
| wait_child: "wait_for_child s = Some (out, s') \<Longrightarrow> proc_call lm (h, s) (Some out) (h, s')"
| queue: "queue_message p msg s = (r, s') \<Longrightarrow> proc_call lm (h, s) None (h, s')"
| receive: "receive_message msg s = Some (out, r, msg', s') \<Longrightarrow> proc_call lm (h, s) out (h, s')"
| exec: "handle_exec_message a msg s = Some (r, s') \<Longrightarrow> proc_call lm (h, s) None (h, s')"
| set_cwd: "length q < 256 \<Longrightarrow> proc_call lm (h, s) None (h, pupd p (\<lambda>pr. pr\<lparr>cwd := q\<rparr>) s)"
| set_ns: "proc_call lm (h, s) None (h, pupd p (\<lambda>pr. pr\<lparr>ns := es\<rparr>) s)"
| alloc: "kalloc_request_ok n \<Longrightarrow> kalloc h n = (r, h') \<Longrightarrow> proc_call lm (h, s) None (h', s)"

inductive proc_step :: "link_map \<Rightarrow> bool \<times> u64 \<times> ptable \<Rightarrow> bool \<times> u64 \<times> ptable \<Rightarrow> bool" for lm where
  call: "proc_call lm (h, s) out (h', s') \<Longrightarrow> proc_step lm (False, h, s) (out = Some Idle, h', s')"

inductive_cases proc_stepE: "proc_step lm x y"

section \<open>The invariant of a run\<close>

text \<open>The list part: structures on the list have been allocated, the memory after the heap position has not been written, and \<open>ready_queue\<close> is never used.\<close>

definition heap_inv :: "u64 \<Rightarrow> ptable \<Rightarrow> proc_ptr list \<Rightarrow> bool" where
  "heap_inv h s xs \<longleftrightarrow> list_inv s xs \<and> ready_queue s = None \<and> unat h \<le> 1048576 \<and> (\<forall>a. Heap a \<in> set xs \<longrightarrow> unat a < unat h)
     \<and> (\<forall>a. unat h \<le> unat a \<longrightarrow> nxt (procs s (Heap a)) = None \<and> pstate (procs s (Heap a)) = PROC_READY)"

definition only_current :: "ptable \<Rightarrow> proc_ptr list \<Rightarrow> bool" where
  "only_current s xs \<longleftrightarrow> (\<forall>p \<in> set xs. pstate (procs s p) = PROC_RUNNING \<longrightarrow> current_process s = Some p)"

text \<open>The current process is on the list and is running; when \<open>strict\<close> does not hold it may be marked as ready, or there may be no process yet.\<close>

definition cur_inv :: "bool \<Rightarrow> ptable \<Rightarrow> proc_ptr list \<Rightarrow> bool" where
  "cur_inv strict s xs \<longleftrightarrow> (case current_process s of None \<Rightarrow> xs = [] \<and> \<not> strict
     | Some c \<Rightarrow> c \<in> set xs \<and> (pstate (procs s c) = PROC_RUNNING \<or> \<not> strict \<and> pstate (procs s c) = PROC_READY))"

definition runs_inv :: "bool \<Rightarrow> bool \<Rightarrow> u64 \<Rightarrow> ptable \<Rightarrow> proc_ptr list \<Rightarrow> bool" where
  "runs_inv strict halted h s xs \<longleftrightarrow> heap_inv h s xs \<and> only_current s xs \<and> (\<not> halted \<longrightarrow> cur_inv strict s xs)"

definition terminated :: "ptable \<Rightarrow> proc_ptr \<Rightarrow> bool" where
  "terminated s p \<longleftrightarrow> pstate (procs s p) \<in> {PROC_ZOMBIE, PROC_DEAD}"

text \<open>What one operation keeps: the invariant for a list that may have grown at its head, and the processes that have ended.\<close>

definition step_keeps :: "bool \<Rightarrow> bool \<Rightarrow> ptable \<Rightarrow> u64 \<Rightarrow> ptable \<Rightarrow> proc_ptr list \<Rightarrow> bool" where
  "step_keeps strict halted s h' s' xs \<longleftrightarrow>
     (\<exists>ys. runs_inv strict halted h' s' (ys @ xs)) \<and> (\<forall>p \<in> set xs. terminated s p \<longrightarrow> terminated s' p)"

lemma step_keeps_same:
  "runs_inv strict halted h' s' xs \<Longrightarrow> (\<And>p. p \<in> set xs \<Longrightarrow> terminated s p \<Longrightarrow> terminated s' p) \<Longrightarrow> step_keeps strict halted s h' s' xs"
  unfolding step_keeps_def by (metis append_Nil)

lemma heap_inv_pupd:
  assumes "\<And>pr. nxt (f pr) = nxt pr" "\<And>pr. pid (f pr) = pid pr" "p \<in> set xs \<or> (\<forall>pr. pstate (f pr) = pstate pr)"
  shows "heap_inv h s xs \<Longrightarrow> heap_inv h (pupd p f s) xs"
  using assms(3) by (auto simp: heap_inv_def list_inv_pupd assms(1,2) procs_pupd)

lemma heap_inv_current [simp]: "heap_inv h (s\<lparr>current_process := c\<rparr>) xs = heap_inv h s xs"
  by (simp add: heap_inv_def)

text \<open>An update that leaves the links, the numbers and the states.\<close>

lemma runs_pupd:
  assumes "\<And>pr. nxt (f pr) = nxt pr" "\<And>pr. pid (f pr) = pid pr" "\<And>pr. pstate (f pr) = pstate pr" "runs_inv strict halted h s xs"
  shows "runs_inv strict halted h (pupd p f s) xs" "terminated (pupd p f s) q = terminated s q"
proof -
  have st: "pstate (procs (pupd p f s) q) = pstate (procs s q)" for q by (simp add: procs_pupd assms(3))
  then show "terminated (pupd p f s) q = terminated s q" by (simp add: terminated_def)
  show "runs_inv strict halted h (pupd p f s) xs"
    using assms(4) heap_inv_pupd [OF assms(1,2), of p xs h s] by (simp add: runs_inv_def only_current_def cur_inv_def st assms(3) split: option.splits)
qed

section \<open>Scheduling\<close>

lemma schedule_runs:
  assumes "heap_inv h s xs" "only_current s xs" "\<And>c. strict \<Longrightarrow> current_process s = Some c \<Longrightarrow> pstate (procs s c) \<noteq> PROC_READY"
    and "schedule s = Some (out, s')"
  shows "runs_inv strict (out = Idle) h s' xs" "terminated s p \<Longrightarrow> terminated s' p"
proof -
  have l: "plist s xs" using assms(1) by (simp add: heap_inv_def list_inv_def)
  have "runs_inv strict (out = Idle) h s' xs \<and> (terminated s p \<longrightarrow> terminated s' p)"
  proof (cases "find (\<lambda>p. pstate (procs s p) = PROC_READY) xs")
    case None
    with schedule_find [OF l] assms show ?thesis by (auto simp: runs_inv_def)
  next
    case (Some n)
    with schedule_find [OF l] assms(4) have s': "out = Switch (current_process s) n" "s' = dispatch n s" by auto
    have n: "n \<in> set xs" "pstate (procs s n) = PROC_READY" using Some by (auto simp: find_Some_iff)
    have "Heap a \<noteq> n" if "unat h \<le> unat a" for a using that n(1) assms(1) unfolding heap_inv_def by (metis not_le)
    then have "heap_inv h s' xs"
      using assms(1) by (simp add: heap_inv_def s' list_inv_dispatch dispatch_procs)
    moreover have "only_current s' xs"
      unfolding only_current_def
    proof (intro ballI impI)
      fix q assume "q \<in> set xs" "pstate (procs s' q) = PROC_RUNNING"
      then show "current_process s' = Some q"
        using bspec [OF assms(2) [unfolded only_current_def], of q] by (cases "q = n"; cases "pstate (procs s q)") (simp_all add: s' dispatch_procs)
    qed
    moreover have "cur_inv strict s' xs" using n assms(3) [of n] by (auto simp: cur_inv_def s' dispatch_procs)
    moreover have "terminated s p \<longrightarrow> terminated s' p" using n(2) by (auto simp: terminated_def s' dispatch_procs)
    ultimately show ?thesis by (simp add: runs_inv_def s'(1))
  qed
  then show "runs_inv strict (out = Idle) h s' xs" "terminated s p \<Longrightarrow> terminated s' p" by auto
qed

text \<open>The current process takes the state \<open>st\<close>, neither ready nor running, before the scheduler is called.\<close>

lemma leave_runs:
  assumes "runs_inv strict False h s xs" "current_process s = Some c" "st \<notin> {PROC_READY, PROC_RUNNING}"
    and f: "\<And>pr. nxt (f pr) = nxt pr" "\<And>pr. pid (f pr) = pid pr" "\<And>pr. pstate (f pr) = st"
  shows "heap_inv h (pupd c f s) xs" "only_current (pupd c f s) xs" "pstate (procs (pupd c f s) c) = st" "\<not> terminated s c" "c \<in> set xs"
    "\<And>p. p \<in> set xs \<Longrightarrow> pstate (procs (pupd c f s) p) \<noteq> PROC_RUNNING" "\<And>p. terminated s p \<Longrightarrow> terminated (pupd c f s) p"
proof -
  have c: "c \<in> set xs" "pstate (procs s c) \<in> {PROC_RUNNING, PROC_READY}" using assms(1,2) by (auto simp: runs_inv_def cur_inv_def)
  then show "c \<in> set xs" "\<not> terminated s c" by (auto simp: terminated_def)
  show "heap_inv h (pupd c f s) xs" using assms(1) c(1) by (intro heap_inv_pupd f) (auto simp: runs_inv_def)
  show run: "pstate (procs (pupd c f s) p) \<noteq> PROC_RUNNING" if "p \<in> set xs" for p
    using that assms(1-3) by (auto simp: procs_pupd f runs_inv_def only_current_def)
  then show "only_current (pupd c f s) xs" by (simp add: only_current_def)
  show "pstate (procs (pupd c f s) c) = st" by (simp add: f)
  show "terminated (pupd c f s) p" if "terminated s p" for p using that \<open>\<not> terminated s c\<close> by (cases "p = c") (auto simp: procs_pupd terminated_def)
qed

lemma block_runs:
  assumes "runs_inv strict False h s xs" "current_process s = Some c" "schedule (pupd c (\<lambda>pr. pr\<lparr>pstate := PROC_BLOCKED\<rparr>) s) = Some (out, s')"
  shows "step_keeps strict (out = Idle) s h s' xs"
proof -
  note l = leave_runs [OF assms(1,2), of PROC_BLOCKED "\<lambda>pr. pr\<lparr>pstate := PROC_BLOCKED\<rparr>", simplified]
  have nr: "pstate (procs (pupd c (\<lambda>pr. pr\<lparr>pstate := PROC_BLOCKED\<rparr>) s) d) \<noteq> PROC_READY"
    if "current_process (pupd c (\<lambda>pr. pr\<lparr>pstate := PROC_BLOCKED\<rparr>) s) = Some d" for d using that assms(2) by auto
  from schedule_runs [OF l(1,2) nr assms(3)] show ?thesis using l by (intro step_keeps_same) auto
qed

text \<open>Waking the parent of a process that ends.\<close>

lemma exit_runs:
  assumes "runs_inv strict False h s xs" "exit_process st s = Some (out, s')"
  shows "step_keeps strict (out = Idle) s h s' xs"
proof -
  from assms(2) obtain c s1 s2 where c: "current_process s = Some c"
    and s1: "s1 = pupd c (\<lambda>pr. pr\<lparr>pstate := PROC_ZOMBIE, exit_status := st\<rparr>) s"
    and s2: "s2 = s1 \<or> (\<exists>q. pstate (procs s1 q) = PROC_BLOCKED \<and> s2 = pupd q (\<lambda>pr. pr\<lparr>pstate := PROC_READY\<rparr>) s1)"
    and sch: "schedule s2 = Some (out, s')"
    by (rule exit_process_cases)
  note l = leave_runs [OF assms(1) c, of PROC_ZOMBIE "\<lambda>pr. pr\<lparr>pstate := PROC_ZOMBIE, exit_status := st\<rparr>", folded s1, simplified]
  have "heap_inv h s2 xs \<and> only_current s2 xs \<and> pstate (procs s2 c) = PROC_ZOMBIE \<and> current_process s2 = Some c
      \<and> (\<forall>p. terminated s1 p \<longrightarrow> terminated s2 p)"
    using s2
  proof
    assume "s2 = s1"
    then show ?thesis using l(1-3) c s1 by simp
  next
    assume "\<exists>q. pstate (procs s1 q) = PROC_BLOCKED \<and> s2 = pupd q (\<lambda>pr. pr\<lparr>pstate := PROC_READY\<rparr>) s1"
    then obtain q where q: "pstate (procs s1 q) = PROC_BLOCKED" "s2 = pupd q (\<lambda>pr. pr\<lparr>pstate := PROC_READY\<rparr>) s1" by blast
    have "heap_inv h s2 xs" using l(1) by (auto simp: heap_inv_def q(2) list_inv_pupd procs_pupd)
    moreover have "only_current s2 xs" using l(6) by (simp add: only_current_def q(2) procs_pupd)
    moreover have "c \<noteq> q" using l(3) q(1) by auto
    ultimately show ?thesis using l(3) c q(1) s1 by (simp add: q(2) procs_pupd terminated_def)
  qed
  note e = this
  then have "pstate (procs s2 d) \<noteq> PROC_READY" if "current_process s2 = Some d" for d using that by auto
  from schedule_runs [OF _ _ this sch, of h xs strict] e l(7) show ?thesis by (intro step_keeps_same) blast+
qed

text \<open>\<open>process_exit\<close> has nothing to unlink, and clears \<open>current_process\<close> before it schedules.\<close>

lemma leave_exit_runs:
  assumes "runs_inv strict False h s xs" "process_exit st s = Some (out, s')"
  shows "step_keeps strict (out = Some Idle) s h s' xs"
proof (cases "current_process s")
  case None
  then show ?thesis using assms by (auto simp: process_exit_def intro: step_keeps_same)
next
  case (Some c)
  define s1 where "s1 = pupd c (\<lambda>pr. pr\<lparr>pstate := PROC_ZOMBIE, exit_status := st\<rparr>) s"
  note l = leave_runs [OF assms(1) Some, of PROC_ZOMBIE "\<lambda>pr. pr\<lparr>pstate := PROC_ZOMBIE, exit_status := st\<rparr>", folded s1_def, simplified]
  have "ready_queue s1 = None" using l(1) by (simp add: heap_inv_def)
  then have "ready_remove s1 c None (ready_queue s1) = Some s1" by (simp add: ready_remove.simps)
  then obtain o1 where o1: "out = Some o1" "schedule (s1\<lparr>current_process := None\<rparr>) = Some (o1, s')"
    using assms(2) by (auto simp: process_exit_def Some Let_def s1_def [symmetric])
  have "only_current (s1\<lparr>current_process := None\<rparr>) xs" using l(6) by (simp add: only_current_def)
  moreover have "heap_inv h (s1\<lparr>current_process := None\<rparr>) xs" using l(1) by simp
  moreover have "terminated (s1\<lparr>current_process := None\<rparr>) p = terminated s1 p" for p by (simp add: terminated_def)
  ultimately show ?thesis
    using schedule_runs [OF _ _ _ o1(2), of h xs strict] l(7) unfolding o1(1) by (intro step_keeps_same) auto
qed

lemma wait_runs:
  assumes "runs_inv strict False h s xs" "handle_wait_message msg s = Some (out, r, msg', s')"
  shows "step_keeps strict (out = Some Idle) s h s' xs"
  using assms(2)
proof (cases rule: handle_wait_cases)
  case (reap c p)
  from assms(1) have "plist s xs" by (simp add: runs_inv_def heap_inv_def list_inv_def)
  then have p: "p \<in> set xs" "pstate (procs s p) = PROC_ZOMBIE" using child_walk.walk_hit [OF _ reap(4)] by (auto simp: plist_def)
  have "heap_inv h s' xs" unfolding reap(5) using assms(1) p(1) by (intro heap_inv_pupd) (auto simp: runs_inv_def)
  moreover have "only_current s' xs" using assms(1) by (simp add: reap(5) runs_inv_def only_current_def procs_pupd)
  moreover have "c \<noteq> p" using assms(1) p(2) reap(1) by (auto simp: runs_inv_def cur_inv_def)
  then have "cur_inv strict s' xs" using assms(1) reap(1) by (simp add: reap(5) runs_inv_def cur_inv_def)
  ultimately have "runs_inv strict (out = Some Idle) h s' xs" by (simp add: runs_inv_def)
  then show ?thesis by (rule step_keeps_same) (simp add: reap(5) procs_pupd terminated_def)
next
  case (sleep c o1)
  then show ?thesis using block_runs [OF assms(1) sleep(1,6)] by simp
qed

lemma receive_runs:
  assumes "runs_inv strict False h s xs" "receive_message msg s = Some (out, r, msg', s')"
  shows "step_keeps strict (out = Some Idle) s h s' xs"
proof -
  from assms(2) obtain c where c: "current_process s = Some c" by (auto simp: receive_message_def get_current_process_def)
  consider "s' = s" "out = None" | q where "s' = pupd c (\<lambda>pr. pr\<lparr>msg_queue := q\<rparr>) s" "out = None"
    | o1 where "out = Some o1" "schedule (pupd c (\<lambda>pr. pr\<lparr>msg_blocked := True\<rparr>) s) = Some (o1, s')"
    using assms(2) c by (auto simp: receive_message_def get_current_process_def split: option.splits if_splits)
  then show ?thesis
  proof cases
    case 1
    then show ?thesis using assms(1) by (auto intro: step_keeps_same)
  next
    case (2 q)
    then show ?thesis using runs_pupd [OF _ _ _ assms(1), of "\<lambda>pr. pr\<lparr>msg_queue := q\<rparr>" c] by (auto intro: step_keeps_same)
  next
    case (3 o1)
    let ?s = "pupd c (\<lambda>pr. pr\<lparr>msg_blocked := True\<rparr>) s"
    note b = runs_pupd [OF _ _ _ assms(1), of "\<lambda>pr. pr\<lparr>msg_blocked := True\<rparr>" c, simplified]
    then have "heap_inv h ?s xs" "only_current ?s xs" "\<And>d. strict \<Longrightarrow> current_process ?s = Some d \<Longrightarrow> pstate (procs ?s d) \<noteq> PROC_READY"
      by (simp_all add: runs_inv_def cur_inv_def split: option.splits)
    from schedule_runs [OF this 3(2)] b(2) show ?thesis unfolding 3(1) by (intro step_keeps_same) auto
  qed
qed

section \<open>New processes\<close>

text \<open>A structure that is not on the list, with a fresh number, is put at its head.\<close>

lemma push_runs:
  assumes run: "runs_inv strict False h s xs" and new: "new \<notin> set xs" "process_list s' = Some new" "nxt (procs s' new) = process_list s"
      "pid (procs s' new) = next_pid s" "next_pid s' = next_pid s + 1" "pstate (procs s' new) = PROC_READY"
    and rest: "\<And>q. q \<noteq> new \<Longrightarrow> procs s' q = procs s q" "ready_queue s' = None" "process_count s \<le> process_count s'" "process_count s' \<le> MAX_PROCESSES"
    and slot: "\<And>i. new = Slot i \<Longrightarrow> i < process_count s'"
    and heap: "\<And>a. new = Heap a \<Longrightarrow> unat a < unat h'" "unat h \<le> unat h'" "unat h' \<le> 1048576"
    and cur: "current_process s' = (case current_process s of None \<Rightarrow> Some new | Some c \<Rightarrow> Some c)"
  shows "step_keeps strict False s h' s' xs"
proof -
  have same: "procs s' q = procs s q" if "q \<in> set xs" for q using rest(1) new(1) that by metis
  have l: "list_inv s xs" and hp: "heap_inv h s xs" using run by (auto simp: runs_inv_def heap_inv_def)
  have "list_inv s' (new # xs)"
    unfolding list_inv_def plist_def
  proof (intro conjI ballI allI impI)
    have "chain (\<lambda>p. nxt (procs s' p)) (process_list s) xs"
      using l same by (simp add: list_inv_def plist_def cong: chain_cong)
    then show "chain (\<lambda>p. nxt (procs s' p)) (process_list s') (new # xs)" by (simp add: new)
    show "process_count s' \<le> MAX_PROCESSES" by (rule rest)
    show "i < process_count s'" if "Slot i \<in> set (new # xs)" for i using that l rest(3) slot by (fastforce simp: list_inv_def)
    have m: "map (\<lambda>p. pid (procs s' p)) xs = map (\<lambda>p. pid (procs s p)) xs" using same by simp
    have "distinct (map (\<lambda>p. pid (procs s' p)) xs)" unfolding m using l by (simp add: list_inv_def)
    moreover have "next_pid s \<notin> (\<lambda>p. pid (procs s' p)) ` set xs" using l same by (auto simp: list_inv_def)
    ultimately show "distinct (map (\<lambda>p. pid (procs s' p)) (new # xs))" by (simp add: new)
    show "pid (procs s' p) < next_pid s'" if "p \<in> set (new # xs)" for p using that l same by (fastforce simp: list_inv_def new)
  qed
  moreover have "Heap a \<noteq> new" if "unat h' \<le> unat a" for a using heap(1) [of a] that by auto
  then have heap_fresh: "procs s' (Heap a) = procs s (Heap a)" if "unat h' \<le> unat a" for a using that rest(1) by blast
  have "unat a < unat h'" if "Heap a \<in> set xs" for a using that hp heap(2) unfolding heap_inv_def by (metis le_trans not_le)
  ultimately have "heap_inv h' s' (new # xs)" using hp rest(2) heap_fresh heap by (auto simp: heap_inv_def)
  moreover have "only_current s' (new # xs)"
    using run same cur by (auto simp: runs_inv_def only_current_def new split: option.splits)
  moreover have "cur_inv strict s' (new # xs)"
    using run same cur new(6) by (auto simp: runs_inv_def cur_inv_def split: option.splits)
  ultimately have "runs_inv strict False h' s' ([new] @ xs)" by (simp add: runs_inv_def)
  then show ?thesis unfolding step_keeps_def terminated_def using same by metis
qed

lemma create_runs:
  assumes "runs_inv strict False h s xs" "create_process lm s = Some (new, s')"
  shows "step_keeps strict False s h s' xs"
  using assms(2)
proof (rule create_process_Some)
  fix cur
  assume a: "current_process s = Some cur" "new = Slot (process_count s)" "process_count s < MAX_PROCESSES" "process_count s' = process_count s + 1"
    "next_pid s' = next_pid s + 1" "current_process s' = Some cur" "process_list s' = Some new" "\<And>q. q \<noteq> new \<Longrightarrow> procs s' q = procs s q"
    "pid (procs s' new) = next_pid s" "pstate (procs s' new) = PROC_READY" "nxt (procs s' new) = process_list s" "ready_queue s' = ready_queue s"
  have "new \<notin> set xs" "ready_queue s = None" "unat h \<le> 1048576" using assms(1) a(2) by (auto simp: runs_inv_def heap_inv_def list_inv_def)
  then show ?thesis using a(1-7,9-12) by (intro push_runs [OF assms(1), of new] a(8)) simp_all
qed

lemma fork_runs:
  assumes "runs_inv strict False h s xs" "handle_fork_message lm msg s = Some (r, msg', s')"
  shows "step_keeps strict False s h s' xs"
proof -
  from assms(2) obtain cur new s1 where c: "current_process s = Some cur" "create_process lm s = Some (new, s1)"
    by (auto simp: handle_fork_message_def get_current_process_def)
  with assms(2) have rq: "ready_queue s' = ready_queue s1" by (auto simp: handle_fork_message_def get_current_process_def Let_def)
  from c(2) have rq1: "ready_queue s1 = ready_queue s" by (rule create_process_Some)
  from assms(2) show ?thesis
  proof (cases rule: handle_fork_Some)
    case (1 c n)
    have "n \<notin> set xs" "ready_queue s = None" "unat h \<le> 1048576" using assms(1) 1(2) by (auto simp: runs_inv_def heap_inv_def list_inv_def)
    then show ?thesis using 1(1-7,9-11) rq rq1 by (intro push_runs [OF assms(1), of n] 1(8)) simp_all
  qed
qed

text \<open>\<open>process_create\<close>: the structure comes from the heap, where nothing has been written.\<close>

lemma process_create_Some:
  assumes "process_create en h s = (r, h', s')" "unat h \<le> 1048576" "nxt (procs s (Heap h)) = None"
  obtains "r = None" "h' = h" "s' = s"
  | "r = Some (Heap h)" "unat h' = unat h + 3672" "unat h' \<le> 1048576" "process_list s' = Some (Heap h)" "nxt (procs s' (Heap h)) = process_list s"
    "pid (procs s' (Heap h)) = next_pid s" "next_pid s' = next_pid s + 1" "pstate (procs s' (Heap h)) = pstate (procs s (Heap h))"
    "\<And>q. q \<noteq> Heap h \<Longrightarrow> procs s' q = procs s q" "ready_queue s' = ready_queue s" "process_count s' = process_count s"
    "current_process s' = (case current_process s of None \<Rightarrow> Some (Heap h) | Some c \<Rightarrow> Some c)"
proof (cases rule: kalloc_cases [of h sizeof_process])
  case fail
  then show thesis using assms(1) by (intro that(1)) (simp_all add: process_create_def)
next
  case ok
  have "kalloc_request_ok sizeof_process" by (simp add: kalloc_request_ok_def sizeof_process_def)
  from kheap.alloc_Some [OF assms(2) this ok] have h: "unat (h + sizeof_process) = unat h + 3672" "unat (h + sizeof_process) \<le> 1048576"
    by (simp_all add: sizeof_process_def)
  have e: "r = Some (Heap h)" "h' = h + sizeof_process" "s' = snd (snd (process_create en h s))" using assms(1) ok by (auto simp: process_create_def Let_def)
  show thesis
    by (rule that(2)) (use h assms(3) in \<open>simp_all add: e(1,2) e(3) process_create_def ok Let_def procs_pupd split: option.split\<close>)
qed

lemma process_create_runs:
  assumes "runs_inv strict False h s xs" "process_create en h s = (r, h', s')"
  shows "step_keeps strict False s h' s' xs"
    and "r = Some p \<Longrightarrow> step_keeps strict False s h' (pupd p (\<lambda>pr. pr\<lparr>proc_sp := sp, pstate := PROC_READY\<rparr>) s') xs"
proof -
  have h: "unat h \<le> 1048576" "nxt (procs s (Heap h)) = None" "pstate (procs s (Heap h)) = PROC_READY" "Heap h \<notin> set xs" "ready_queue s = None"
    "process_count s \<le> MAX_PROCESSES"
    using assms(1) by (auto simp: runs_inv_def heap_inv_def list_inv_def)
  note same = step_keeps_same [OF assms(1)]
  note push = push_runs [OF assms(1) h(4)]
  show "step_keeps strict False s h' s' xs"
    using assms(2) h(1,2)
  proof (cases rule: process_create_Some)
    case 1
    then show ?thesis by (auto intro: same)
  next
    case 2
    then show ?thesis using h by (intro push 2(9)) simp_all
  qed
  show "step_keeps strict False s h' (pupd p (\<lambda>pr. pr\<lparr>proc_sp := sp, pstate := PROC_READY\<rparr>) s') xs" if "r = Some p"
    using assms(2) h(1,2)
  proof (cases rule: process_create_Some)
    case 1
    then show ?thesis using that by simp
  next
    case 2
    then have "p = Heap h" using that by simp
    then show ?thesis using h 2 by (intro push) (simp_all split: option.split)
  qed
qed

section \<open>Every operation\<close>

lemma runs_update:
  assumes "runs_inv strict False h s xs" "\<And>pr. nxt (f pr) = nxt pr" "\<And>pr. pid (f pr) = pid pr" "\<And>pr. pstate (f pr) = pstate pr"
  shows "step_keeps strict False s h (pupd p f s) xs"
  using runs_pupd [OF assms(2-4,1)] by (intro step_keeps_same) auto

lemma queue_exec_runs:
  assumes "runs_inv strict False h s xs"
  shows "queue_message p msg s = (r, s') \<Longrightarrow> step_keeps strict False s h s' xs"
    and "handle_exec_message a msg s = Some (r, s') \<Longrightarrow> step_keeps strict False s h s' xs"
proof -
  have same: "step_keeps strict False s h s xs" by (rule step_keeps_same [OF assms])
  show "step_keeps strict False s h s' xs" if "queue_message p msg s = (r, s')"
    using that same by (auto simp: queue_message_def intro!: runs_update [OF assms] split: option.splits)
  have two: "pupd c g (pupd c f s) = pupd c (\<lambda>pr. g (f pr)) s" for c f g by (simp add: pupd_def)
  show "step_keeps strict False s h s' xs" if "handle_exec_message a msg s = Some (r, s')"
    using that same by (auto simp: handle_exec_message_def Let_def two intro!: runs_update [OF assms] split: if_splits option.splits)
qed

lemma alloc_runs:
  assumes "runs_inv strict False h s xs" "kalloc_request_ok n" "kalloc h n = (r, h')"
  shows "step_keeps strict False s h' s xs"
proof -
  have h: "unat h \<le> 1048576" using assms(1) by (simp add: runs_inv_def heap_inv_def)
  have "unat h \<le> unat h' \<and> unat h' \<le> 1048576"
  proof (cases r)
    case None
    then show ?thesis using kheap.alloc_None [OF h assms(2)] assms(3) h by auto
  next
    case (Some p)
    then show ?thesis using kheap.alloc_Some [OF h assms(2)] assms(3) by auto
  qed
  then have "runs_inv strict False h' s xs" using assms(1) by (fastforce simp: runs_inv_def heap_inv_def)
  then show ?thesis by (rule step_keeps_same)
qed

lemma proc_call_keeps:
  assumes "proc_call lm (h, s) out (h', s')" "runs_inv strict False h s xs"
  shows "step_keeps strict (out = Some Idle) s h' s' xs"
  using assms(1)
proof cases
  case (yield o1)
  have "heap_inv h s xs" "only_current s xs" "\<And>c. strict \<Longrightarrow> current_process s = Some c \<Longrightarrow> pstate (procs s c) \<noteq> PROC_READY"
    using assms(2) by (auto simp: runs_inv_def cur_inv_def)
  from schedule_runs [OF this yield(3)] yield(1,2) show ?thesis by (intro step_keeps_same) auto
next
  case (wait_child o1)
  then show ?thesis using block_runs [OF assms(2)] by (auto simp: wait_for_child_def get_current_process_def)
qed (use assms(2) in \<open>auto intro: create_runs fork_runs process_create_runs exit_runs leave_exit_runs wait_runs queue_exec_runs receive_runs runs_update alloc_runs\<close>)

interpretation run_kept: kept "\<lambda>(halted, h, s). \<exists>xs. runs_inv strict halted h s xs" "proc_step lm" for strict lm
  by unfold_locales (auto elim!: proc_stepE dest!: proc_call_keeps simp: step_keeps_def)

interpretation end_kept: kept "\<lambda>(halted, h, s). \<exists>xs. runs_inv strict halted h s xs \<and> p \<in> set xs \<and> terminated s p" "proc_step lm" for strict p lm
proof unfold_locales
  fix x y :: "bool \<times> u64 \<times> ptable"
  assume st: "proc_step lm x y" and inv: "case x of (halted, h, s) \<Rightarrow> \<exists>xs. runs_inv strict halted h s xs \<and> p \<in> set xs \<and> terminated s p"
  obtain h s out h' s' where xy: "x = (False, h, s)" "y = (out = Some Idle, h', s')" "proc_call lm (h, s) out (h', s')" using st by (cases rule: proc_step.cases) auto
  obtain xs where xs: "runs_inv strict False h s xs" "p \<in> set xs" "terminated s p" using inv xy(1) by auto
  from proc_call_keeps [OF xy(3) xs(1)] obtain ys where "runs_inv strict (out = Some Idle) h' s' (ys @ xs)" "terminated s' p"
    unfolding step_keeps_def using xs(2,3) by blast
  then show "case y of (halted, h, s) \<Rightarrow> \<exists>xs. runs_inv strict halted h s xs \<and> p \<in> set xs \<and> terminated s p"
    using xs(2) unfolding xy(2) by (intro exI [of _ "ys @ xs"] case_prodI2) auto
qed

section \<open>The two starts\<close>

lemma init_process_runs: "unat h \<le> 1048576 \<Longrightarrow> runs_inv True False h (init_process lm ptable0) [Slot 0]"
  by (simp add: runs_inv_def heap_inv_def only_current_def cur_inv_def list_inv_def plist_def init_process_def Let_def MAX_PROCESSES_def procs_pupd ptable0_def zero_process_def)

lemma process_init_runs: "unat h \<le> 1048576 \<Longrightarrow> runs_inv False False h (process_init ptable0) []"
  by (simp add: runs_inv_def heap_inv_def only_current_def cur_inv_def list_inv_def plist_def process_init_def ptable0_def zero_process_def)

lemma run_invariant:
  assumes "s0 \<in> {init_process lm ptable0, process_init ptable0}" "unat h0 \<le> 1048576" "(proc_step lm)\<^sup>*\<^sup>* (False, h0, s0) (halted, h, s)"
  shows "\<exists>xs. runs_inv (s0 = init_process lm ptable0) halted h s xs"
proof (cases "s0 = init_process lm ptable0")
  case True
  then show ?thesis using run_kept.steps_inv [OF assms(3), of True] init_process_runs [OF assms(2), of lm] by auto
next
  case False
  then show ?thesis using run_kept.steps_inv [OF assms(3), of False] process_init_runs [OF assms(2)] assms(1) by auto
qed

section \<open>Properties\<close>

text \<open>C3: in every state that process operations reach, from \<open>init_process\<close> and from the table \<open>process_init\<close> leaves at boot, the process list is a proper
  list (no cycle), process numbers are distinct, and no process but the current one is running. As long as the kernel has not ended in the idle loop, there is a current process once
  there is any, ready or running; from \<open>init_process\<close> on exactly one process is running, the current one. At boot it may not be: \<open>process_create\<close> leaves the user shell, which is
  current, ready. \<open>switch_to_process\<close> and \<open>init_processes\<close> are not among the operations: nothing calls them.\<close>

theorem one_running_process:
  assumes "s0 \<in> {init_process lm ptable0, process_init ptable0}" "unat h0 \<le> 1048576" "(proc_step lm)\<^sup>*\<^sup>* (False, h0, s0) (halted, h, s)"
  shows "\<exists>xs. plist s xs \<and> distinct xs \<and> distinct (map (get_pid s) xs)
    \<and> (\<forall>p \<in> set xs. pstate (procs s p) = PROC_RUNNING \<longrightarrow> current_process s = Some p)
    \<and> (\<not> halted \<and> xs \<noteq> [] \<longrightarrow> (\<exists>c \<in> set xs. current_process s = Some c \<and> pstate (procs s c) \<in> {PROC_READY, PROC_RUNNING}))
    \<and> (\<not> halted \<and> s0 = init_process lm ptable0 \<longrightarrow>
         (\<exists>c. current_process s = Some c \<and> {p. p \<in> set xs \<and> pstate (procs s p) = PROC_RUNNING} = {c}))"
proof -
  from run_invariant [OF assms] obtain xs where r: "runs_inv (s0 = init_process lm ptable0) halted h s xs" ..
  then have l: "list_inv s xs" and o: "only_current s xs" by (simp_all add: runs_inv_def heap_inv_def)
  have p: "plist s xs" "distinct (map (get_pid s) xs)" using l by (simp_all add: list_inv_def get_pid_def [abs_def])
  have d: "distinct xs" using p(1) by (auto simp: plist_def dest: chain_distinct)
  have c1: "\<exists>c \<in> set xs. current_process s = Some c \<and> pstate (procs s c) \<in> {PROC_READY, PROC_RUNNING}" if "\<not> halted" "xs \<noteq> []"
    using r that by (auto simp: runs_inv_def cur_inv_def split: option.splits)
  have c2: "\<exists>c. current_process s = Some c \<and> {p. p \<in> set xs \<and> pstate (procs s p) = PROC_RUNNING} = {c}"
    if "\<not> halted" "s0 = init_process lm ptable0"
  proof -
    have "cur_inv True s xs" using r that by (simp add: runs_inv_def)
    then obtain c where c: "current_process s = Some c" "c \<in> set xs" "pstate (procs s c) = PROC_RUNNING" by (auto simp: cur_inv_def split: option.splits)
    have "p = c" if "p \<in> set xs" "pstate (procs s p) = PROC_RUNNING" for p
      using bspec [OF o [unfolded only_current_def] that(1)] that(2) c(1) by simp
    then show ?thesis using c by (intro exI [of _ c] conjI) blast+
  qed
  show ?thesis
    by (intro exI [of _ xs] conjI impI p d o [unfolded only_current_def]) (erule conjE, rule c1 c2, assumption+)+
qed

text \<open>C4: a process that has exited never runs again. From both starts, whatever process operations follow, a zombie stays a
  zombie until its parent reaps it, and then it stays dead. \<open>switch_to_process\<close> and \<open>init_processes\<close>, which nothing calls, are not among the operations.\<close>

theorem terminated_never_runs:
  assumes "s0 \<in> {init_process lm ptable0, process_init ptable0}" "unat h0 \<le> 1048576" "(proc_step lm)\<^sup>*\<^sup>* (False, h0, s0) (halted, h, s)"
    and "plist s xs" "p \<in> set xs" "pstate (procs s p) \<in> {PROC_ZOMBIE, PROC_DEAD}" "(proc_step lm)\<^sup>*\<^sup>* (halted, h, s) (halted', h', s')"
  shows "pstate (procs s' p) \<in> {PROC_ZOMBIE, PROC_DEAD}"
proof -
  from run_invariant [OF assms(1-3)] obtain ys where r: "runs_inv (s0 = init_process lm ptable0) halted h s ys" ..
  then have "plist s ys" by (simp add: runs_inv_def heap_inv_def list_inv_def)
  with assms(4) have "ys = xs" by (auto simp: plist_def dest: chain_unique)
  then show ?thesis
    using end_kept.steps_inv [OF assms(7), of "s0 = init_process lm ptable0" p] r assms(5,6) by (auto simp: terminated_def)
qed

section \<open>Witnesses\<close>

text \<open>The path of \<open>kernel_main\<close>: the user shell it creates is the current process and is marked as ready.\<close>

lemma boot_current_ready:
  "\<exists>s. (proc_step lm)\<^sup>*\<^sup>* (False, 0, process_init ptable0) (False, sizeof_process, s) \<and> current_process s = Some (Heap 0) \<and> pstate (procs s (Heap 0)) = PROC_READY"
proof -
  let ?s1 = "snd (snd (process_create 0x80000000 0 (process_init ptable0)))"
  have p: "process_create 0x80000000 0 (process_init ptable0) = (Some (Heap 0), sizeof_process, ?s1)"
    by (simp add: process_create_def kalloc_def HEAP_SIZE_def sizeof_process_def Let_def)
  let ?s = "pupd (Heap 0) (\<lambda>pr. pr\<lparr>proc_sp := 0x80010000, pstate := PROC_READY\<rparr>) ?s1"
  have "proc_step lm (False, 0, process_init ptable0) (False, sizeof_process, ?s)" using proc_step.call [OF proc_call.main_create [OF p]] by simp
  moreover have "current_process ?s = Some (Heap 0)" by (simp add: process_create_def kalloc_def HEAP_SIZE_def sizeof_process_def Let_def process_init_def ptable0_def)
  ultimately show ?thesis by (intro exI [of _ ?s]) auto
qed

lemma demo_fork_step: "proc_step demo_link (False, h, demo_table) (False, h, demo_forked)"
proof -
  from demo_forked_fork obtain m where "handle_fork_message demo_link (blank_message 8) demo_table = Some (0, m, demo_forked)" ..
  from proc_step.call [OF proc_call.fork [OF this]] show ?thesis by simp
qed

theorem one_running_process_witness:
  "\<exists>xs c. plist demo_forked xs \<and> distinct (map (get_pid demo_forked) xs) \<and> current_process demo_forked = Some c
    \<and> {p. p \<in> set xs \<and> pstate (procs demo_forked p) = PROC_RUNNING} = {c}"
  using one_running_process [of demo_table demo_link 0 False 0 demo_forked] demo_fork_step [of 0] by (auto simp: demo_table_def)

lemma demo_exited_steps: "(proc_step demo_link)\<^sup>*\<^sup>* (False, h, demo_table) (False, h, demo_exited)"
proof -
  have "proc_step demo_link (False, h, demo_forked) (False, h, dispatch (Slot 1) demo_forked)"
    "proc_step demo_link (False, h, dispatch (Slot 1) demo_forked) (False, h, demo_exited)"
    using proc_step.call [OF proc_call.yield [OF demo_yield]] proc_step.call [OF proc_call.exit [OF demo_exit]] by simp_all
  then show ?thesis using demo_fork_step [of h] by (meson converse_rtranclp_into_rtranclp rtranclp.rtrancl_refl)
qed

theorem terminated_never_runs_witness:
  "pstate (procs (pupd (Slot 1) (\<lambda>pr. pr\<lparr>pstate := PROC_DEAD\<rparr>) demo_exited) (Slot 1)) \<in> {PROC_ZOMBIE, PROC_DEAD}"
proof -
  let ?s = "pupd (Slot 1) (\<lambda>pr. pr\<lparr>pstate := PROC_DEAD\<rparr>) demo_exited"
  have "wait_scan demo_exited 1 (process_list demo_exited)
      = Some (find (\<lambda>p. parent_pid (procs demo_exited p) = 1 \<and> pstate (procs demo_exited p) = PROC_ZOMBIE) [Slot 1, Slot 0])"
    by (rule child_walk.walk_find) (rule demo_exited_simps(1) [unfolded plist_def])
  also have "\<dots> = Some (Some (Slot 1))"
    by (simp only: find.simps demo_exited_simps simp_thms if_True)
  finally have "\<exists>m. handle_wait_message (blank_message 10) demo_exited = Some (None, 0, m, ?s)"
    by (simp add: handle_wait_message_def get_current_process_def demo_exited_simps)
  then obtain m where "handle_wait_message (blank_message 10) demo_exited = Some (None, 0, m, ?s)" ..
  from proc_step.call [OF proc_call.wait [OF this]] have "(proc_step demo_link)\<^sup>*\<^sup>* (False, 0, demo_exited) (False, 0, ?s)" by auto
  then show ?thesis
    using terminated_never_runs [of demo_table demo_link 0 False 0 demo_exited "[Slot 1, Slot 0]" "Slot 1" False 0 ?s] demo_exited_steps [of 0]
      demo_exited_simps(1,2) by (simp add: demo_table_def)
qed

section \<open>The two operations that nothing calls\<close>

text \<open>\<open>switch_to_process\<close> writes no state: the process it leaves stays marked as running beside the one it switches to, and the new one keeps its state, a zombie included. A wait after that
  marks the zombie as blocked.\<close>

theorem switch_to_process_leaves_running:
  assumes "current_process s = Some c" "pstate (procs s c) = PROC_RUNNING" "n \<noteq> c"
  shows "\<exists>s'. switch_to_process n s = Some (Switch (Some c) n, s') \<and> current_process s' = Some n \<and> pstate (procs s' c) = PROC_RUNNING
    \<and> pstate (procs s' n) = pstate (procs s n)"
  using assms by (simp add: switch_to_process_def)

text \<open>\<open>init_processes\<close> takes slot 0 without counting it: the next new process gets slot 0 again and becomes its own successor in the list, on which the loop of \<open>schedule\<close> never ends
  once the process is not ready.\<close>

theorem init_processes_then_create_cycles:
  "\<exists>s'. create_process lm (init_processes ptable0) = Some (Slot 0, s') \<and> process_list s' = Some (Slot 0) \<and> nxt (procs s' (Slot 0)) = Some (Slot 0)"
  by (simp add: create_process_def init_processes_def get_current_process_def ptable0_def Let_def MAX_PROCESSES_def procs_pupd)

end
