(* ===== verification/Kernel_Safe.thy ===== *)
theory Kernel_Safe
  imports Shell_Inv Boot Sched_Runs
begin

text \<open>
  Runs of the whole kernel: the messages, the operations of the virtual file system, those of the process table, the rounds of the shell and the exceptions from user mode
  are the steps of one relation. The invariant \<open>kernel_ok\<close> holds when \<open>vfs_init\<close> has run with a process and is kept by every step with defined behaviour; under it
  no access through a descriptor leaves the structures it belongs to. The steps whose behaviour is not defined, because the code does not test a bound, are
  characterised with it.
\<close>

section \<open>The steps of the kernel\<close>

inductive kernel_step :: "env \<Rightarrow> machine \<Rightarrow> machine \<Rightarrow> bool" for e where
  message: "send_message e msg m = Some (r, msg', m') \<Longrightarrow> kernel_step e m m'"
| vfs: "vfs_step (kern m) k \<Longrightarrow> kernel_step e m (m\<lparr>kern := k\<rparr>)"
| process: "proc_call (env_lm e) (heap_pos (km (kern m)), pt (kern m)) out (h, s) \<Longrightarrow>
    kernel_step e m (m\<lparr>kern := (kern m)\<lparr>pt := s, km := (km (kern m))\<lparr>heap_pos := h\<rparr>\<rparr>\<rparr>)"
| switch: "switch_to_process p (pt (kern m)) = Some (out, s) \<Longrightarrow> kernel_step e m (m\<lparr>kern := (kern m)\<lparr>pt := s\<rparr>\<rparr>)"
| reset: "s \<in> {process_init (pt (kern m)), init_process (env_lm e) (pt (kern m)), init_processes (pt (kern m))} \<Longrightarrow>
    kernel_step e m (m\<lparr>kern := (kern m)\<lparr>pt := s\<rparr>\<rparr>)"
| ramfile: "ramfs_create_file p c (ram (kern m)) = (r, f) \<Longrightarrow> kernel_step e m (m\<lparr>kern := (kern m)\<lparr>ram := f\<rparr>\<rparr>)"
| shell: "shell_iter adr e m = Some (out, m') \<Longrightarrow> kernel_step e m m'"
| exception: "handle_sync_exception e um esr x0 x1 x2 x8 x m = Some (r, x') \<Longrightarrow> kernel_step e m (sys_machine r)"

inductive_cases kernel_stepE: "kernel_step e m m'"

lemma vfs_step_ok: "vfs_step k k' \<Longrightarrow> kernel_ok k \<Longrightarrow> kernel_ok k'"
  by (induction rule: vfs_step.induct) (blast intro: inv_intros)+

lemma state_schedule_ok:
  assumes "procs_ok s" "schedule (pupd c (\<lambda>pr. pr\<lparr>pstate := st\<rparr>) s) = Some (out, s')"
  shows "procs_ok s'"
  by (rule schedule_ok [OF procs_ok_pupd [OF assms(1)] assms(2)]) simp

lemma queue_ok_pupd: "procs_ok s \<Longrightarrow> mq_inv q \<Longrightarrow> procs_ok (pupd p (\<lambda>pr. pr\<lparr>msg_queue := q, msg_blocked := b\<rparr>) s)"
  "procs_ok s \<Longrightarrow> mq_inv q \<Longrightarrow> procs_ok (pupd p (\<lambda>pr. pr\<lparr>msg_queue := q\<rparr>) s)"
  "procs_ok s \<Longrightarrow> procs_ok (pupd p (\<lambda>pr. pr\<lparr>msg_blocked := b\<rparr>) s)"
  by (rule procs_ok_pupd; simp add: process_ok_def)+

lemma procs_ok_queue: "procs_ok s \<Longrightarrow> mq_inv (msg_queue (procs s p))"
  by (simp add: procs_ok_def process_ok_def)

lemma receive_ok:
  assumes "procs_ok s" "receive_message msg s = Some (out, r, msg', s')"
  shows "procs_ok s'"
proof -
  obtain c where c: "current_process s = Some c" using assms(2) by (auto simp: receive_message_def get_current_process_def)
  show ?thesis
  proof (cases "mq_get (msg_queue (procs s c))")
    case None
    then show ?thesis using assms c queue_ok_pupd(3) [OF assms(1)]
      by (auto simp: receive_message_def get_current_process_def split: if_splits elim!: schedule_ok [rotated])
  next
    case (Some x)
    then show ?thesis using assms c mq_get_Some [OF procs_ok_queue [OF assms(1), of c]]
      by (cases x) (auto simp: receive_message_def get_current_process_def intro!: queue_ok_pupd)
  qed
qed

text \<open>Creating and ending processes.\<close>

lemma process_create_ok:
  assumes "procs_ok s" "process_create en h s = (r, h', s')"
  shows "procs_ok s'"
proof (cases rule: kalloc_cases [of h sizeof_process])
  case fail
  then show ?thesis using assms by (simp add: process_create_def)
next
  case ok
  then have "s' = snd (snd (process_create en h s))" using assms(2) by simp
  then show ?thesis using assms(1) ok by (simp add: process_create_def Let_def procs_ok_def pupd_def process_ok_def VFS_MAX_PATH_def)
qed

lemma ready_remove_ok:
  assumes "ready_remove s c prev t = Some s'" "procs_ok s"
  shows "procs_ok s'"
proof -
  have "procs_ok s \<longrightarrow> procs_ok y" if "ready_remove s c prev t = Some y" for y
    using that
  proof (induction rule: ready_remove.raw_induct [rotated, consumes 1])
    case (1 rr s c prev t y)
    then show ?case
      by (auto simp: ready_unlink_def procs_ok_def pupd_def split: if_splits option.splits)
  qed
  then show ?thesis using assms by blast
qed

lemma process_exit_ok:
  assumes "procs_ok s" "process_exit st s = Some (out, s')"
  shows "procs_ok s'"
proof (cases "current_process s")
  case None
  then show ?thesis using assms by (simp add: process_exit_def)
next
  case (Some c)
  let ?s1 = "pupd c (\<lambda>pr. pr\<lparr>pstate := PROC_ZOMBIE, exit_status := st\<rparr>) s"
  have s1: "procs_ok ?s1" by (rule procs_ok_pupd [OF assms(1)]) simp
  from assms(2) Some obtain s2 o1 where s2: "ready_remove ?s1 c None (ready_queue ?s1) = Some s2" "schedule (s2\<lparr>current_process := None\<rparr>) = Some (o1, s')"
    unfolding process_exit_def by (auto simp: Let_def simp del: pupd_frame)
  from schedule_ok [OF _ s2(2)] ready_remove_ok [OF s2(1) s1] show ?thesis by simp
qed

lemma proc_call_ok:
  assumes "proc_call lm (h, s) out (h', s')" "procs_ok s"
  shows "procs_ok s'"
  using assms(1)
proof cases
  case (fork msg r msg')
  then obtain c new s1 where c: "create_process lm s = Some (new, s1)" and s': "procs_ok s1 \<Longrightarrow> procs_ok s'"
    by (auto simp: handle_fork_message_def Let_def procs_ok_def process_ok_def pupd_def)
  show ?thesis by (rule s' [OF create_process_ok [OF assms(2) c]])
next
  case (wait msg r msg')
  from wait(2) show ?thesis
    by (cases rule: handle_wait_cases) (use assms(2) in \<open>auto intro: procs_ok_pupd state_schedule_ok\<close>)
next
  case (wait_child o1)
  then show ?thesis using assms(2) by (auto simp: wait_for_child_def intro: state_schedule_ok)
next
  case (queue p msg r)
  then show ?thesis
    using assms(2) mq_put_Some [OF procs_ok_queue [OF assms(2), of p], of msg]
    by (auto simp: queue_message_def split: option.splits intro!: queue_ok_pupd)
next
  case (set_cwd q p)
  then show ?thesis using procs_ok_pupd [OF assms(2), of "\<lambda>pr. pr\<lparr>cwd := q\<rparr>"] by (simp add: process_ok_def VFS_MAX_PATH_def)
next
  case (main_create en p s1 sp)
  then show ?thesis using process_create_ok [OF assms(2)] by (auto intro!: procs_ok_pupd)
qed (use assms(2) in \<open>auto intro: create_process_ok process_create_ok process_exit_ok receive_ok schedule_ok exit_process_ok handle_exec_ok procs_ok_pupd\<close>)

lemma proc_reset_ok:
  assumes "procs_ok s"
  shows "s' \<in> {process_init s, init_process lm s, init_processes s} \<Longrightarrow> procs_ok s'" "switch_to_process p s = Some (out, s') \<Longrightarrow> procs_ok s'"
  using assms by (auto simp: procs_ok_def process_init_def init_process_def init_processes_def Let_def procs_pupd process_ok_def MAX_PROCESSES_def switch_to_process_def)

lemma ramfs_create_file_keeps: "ramfs_inv fs \<Longrightarrow> ramfs_create_file p c fs = (r, fs') \<Longrightarrow> ramfs_inv fs'"
  by (auto simp: ramfs_create_file_def Let_def MAX_PATH_def MAX_CONTENT_def unat_of_nat min_def intro!: ramfs_inv_update split: option.splits)

lemma process_step_ok:
  assumes "proc_call lm (heap_pos (km k), pt k) out (h, s)" "kernel_ok k"
  shows "kernel_ok (k\<lparr>pt := s, km := (km k)\<lparr>heap_pos := h\<rparr>\<rparr>)"
proof -
  note k = kernel_ok_pt [OF assms(2) proc_call_ok [OF assms(1) kernel_ok_parts(1) [OF assms(2)]]]
  from kernel_ok_km [OF this, of "(km k)\<lparr>heap_pos := h\<rparr>"] kernel_ok_parts(2) [OF k] show ?thesis by simp
qed

lemma kernel_step_ok: "kernel_step e m m' \<Longrightarrow> kernel_ok (kern m) \<Longrightarrow> kernel_ok (kern m')"
  by (induction rule: kernel_step.induct)
     (auto intro: send_message_ok vfs_step_ok kernel_ok_pt kernel_ok_parts(1) kernel_ok_ram ramfs_create_file_keeps kernel_ok_parts(3)
       shell_iter_ok handle_sync_exception_ok process_step_ok proc_reset_ok)

interpretation kernel_kept: kept "\<lambda>m. kernel_ok (kern m)" "kernel_step e" for e
  by unfold_locales (rule kernel_step_ok)

section \<open>The invariant after the start\<close>

lemma cleared_objs: "objs_ok fs \<lparr>heap_pos = h, fobjs = (\<lambda>_. zero_file)\<rparr>"
  by (simp add: objs_ok_def file_obj_ok_def zero_file_def)

lemma ramfs_init_inv: "ramfs_inv (ramfs_init fs)"
  by (simp add: ramfs_inv_def ramfs_init_def zero_ramfs_file_def MAX_PATH_def)

lemma vfs_init_ok:
  assumes "unat h + 262208 \<le> 1048576" "procs_ok s" "vfs_init ((kernel0 h)\<lparr>pt := s\<rparr>) = Some k"
  shows "kernel_ok k"
proof -
  let ?k = "(kernel0 h)\<lparr>pt := s\<rparr>"
  have "vfs_init ?k = Option.bind (test_abyssfs (map_option cwd (cur_proc ?k)) (abyss_format (disk ?k))) (\<lambda>d. Some ((mounted ?k)\<lparr>disk := d\<rparr>))"
    using assms(1) by (intro vfs_init_mounted) (simp_all add: kernel0_def abyss0_def)
  with assms(3) obtain d where d: "test_abyssfs (map_option cwd (cur_proc ?k)) (abyss_format (disk ?k)) = Some d" "k = (mounted ?k)\<lparr>disk := d\<rparr>"
    by auto
  have "meta_ok d" using abyss_format_meta d(1) by (rule test_abyssfs_meta)
  moreover have "objs_ok (ramfs_init (ram ?k)) ((km ?k)\<lparr>heap_pos := h'\<rparr>)" for h'
    by (simp add: kernel0_def cleared_objs)
  ultimately show ?thesis
    using assms(2) ramfs_init_inv
    by (simp add: kernel_ok_def d(2) mounted_def demo_mounts_def MAX_MOUNTS_def fd_inv_def kernel0_def)
qed

section \<open>Access through descriptors\<close>

lemma ramfs_write_total:
  assumes "ramfs_inv fs" "ram_file_ok fs file i" "unat count \<le> length buf" "unat count < 2 ^ 63"
  obtains n f fs' where "ramfs_write file buf count fs = Some (n, f, fs')" "0 \<le> n" "n \<le> int (unat count)" "n \<le> int MAX_CONTENT"
proof -
  let ?p = "f_pos file"
  define n where "n = (if ?p + count > of_nat MAX_CONTENT then of_nat MAX_CONTENT - ?p else count)"
  have i: "i < length fs" "private_data file = Ram i" "unat ?p \<le> MAX_CONTENT" using assms(2) by (auto simp: ram_file_ok_def)
  have "unat (?p + count) = unat ?p + unat count" using i(3) assms(4) by (intro unat_add_small) (simp add: MAX_CONTENT_def)
  then have le: "unat ?p + unat n \<le> MAX_CONTENT" "unat n \<le> unat count"
    using i(3) by (auto simp: n_def word_less_nat_alt unat_sub_le word_le_nat_alt MAX_CONTENT_def)
  then have sn: "sint n = int (unat n)" using sint_small [of n, folded MAX_CONTENT_def] by simp
  obtain f fs' where "ramfs_write file buf count fs = Some (sint n, f, fs')"
    using i(1) le assms(3) unfolding ramfs_write_def Let_def i(2) fdata.case n_def [symmetric] by (cases "n > 0") auto
  then show thesis unfolding sn by (rule that) (use le in linarith)+
qed

text \<open>A write never leaves the file, whatever the descriptor.\<close>

lemma vfs_write_total:
  assumes "kernel_ok k" "unat count \<le> length buf" "unat count < 2 ^ 63"
  obtains n k' where "vfs_write d buf count k = Some (n, k')" "- 1 \<le> n" "n \<le> int (unat count)" "n \<le> 4096"
proof (cases "get_file d k")
  case None
  have "- 1 \<le> int (unat count)" by linarith
  then show thesis using None by (intro that [of "- 1" k]) (simp_all add: vfs_write_def)
next
  case (Some a)
  let ?f = "fobjs (km k) a"
  have c: "- 1 \<le> int (unat count)" by linarith
  show thesis
  proof (cases "f_ops ?f")
    case None
    then show thesis using Some c by (intro that [of "- 1" k]) (simp_all add: vfs_write_def)
  next
    case fs: (Some fs)
    have "\<exists>n k1. fop_write fs a buf count k = Some (n, k1) \<and> - 1 \<le> n \<and> n \<le> int (unat count) \<and> n \<le> 4096"
      using assms(1) fs
    proof (cases rule: obj_kind)
      case (ram i)
      obtain n f r where "ramfs_write ?f buf count (ram k) = Some (n, f, r)" "0 \<le> n" "n \<le> int (unat count)" "n \<le> int MAX_CONTENT"
        by (rule ramfs_write_total [OF kernel_ok_parts(3) [OF assms(1)] ram(2) assms(2,3)])
      then show ?thesis by (auto simp: fop_write_eq ram(1) MAX_CONTENT_def)
    next
      case (abyss i)
      note m = kernel_ok_parts(4) [OF assms(1)]
      obtain n st' where w: "abyssfs_write ?f buf count (disk k) = Some (n, ?f, st')"
        by (rule abyssfs_write_total [OF m abyss(2) assms(2)])
      then show ?thesis using abyssfs_write_meta(3-5) [OF m w] by (auto simp: fop_write_eq abyss(1) BLOCK_SIZE_def)
    qed
    then obtain n k1 where n: "fop_write fs a buf count k = Some (n, k1)" "- 1 \<le> n" "n \<le> int (unat count)" "n \<le> 4096" by blast
    have "c_int n = n" using n(2,4) by (simp add: c_int_def signed_take_bit_int_eq_self)
    then show thesis using n Some fs by (intro that [of n k1]) (simp_all add: vfs_write_def)
  qed
qed

lemma vfs_read_get_file:
  "vfs_read d count k = (case get_file d k of None \<Rightarrow> Some (- 1, [], k)
     | Some a \<Rightarrow> (case f_ops (fobjs (km k) a) of None \<Rightarrow> Some (- 1, [], k) | Some fs \<Rightarrow> fop_read fs a count k))"
  by (simp add: vfs_read_def get_file_def)

text \<open>What is read fits the buffer.\<close>

lemma vfs_read_bounds:
  assumes "kernel_ok k" "unat count < 2 ^ 63" "vfs_read d count k = Some (n, bs, k')"
  shows "n = - 1 \<and> bs = [] \<or> n = int (length bs) \<and> length bs \<le> unat count"
proof (cases "\<exists>a fs. get_file d k = Some a \<and> f_ops (fobjs (km k) a) = Some fs")
  case True
  then obtain a fs where a: "get_file d k = Some a" "f_ops (fobjs (km k) a) = Some fs" by blast
  with assms(3) have r: "fop_read fs a count k = Some (n, bs, k')" by (simp add: vfs_read_get_file)
  from assms(1) a(2) show ?thesis
  proof (cases rule: obj_kind)
    case (ram i)
    then show ?thesis
      using r ramfs_read_spec [OF kernel_ok_parts(3) [OF assms(1)] ram(2), of count] assms(2) by (auto simp: fop_read_eq)
  next
    case (abyss i)
    then obtain f where "abyssfs_read (fobjs (km k) a) count (disk k) = Some (n, bs, f)" using r by (auto simp: fop_read_eq)
    from abyssfs_read_bounds [OF this assms(2)] show ?thesis .
  qed
next
  case False
  then show ?thesis using assms(3) by (auto simp: vfs_read_get_file split: option.splits)
qed

text \<open>A read fails to stay in bounds only for a file of AbyssFS whose recorded size is larger than its block.\<close>

lemma abyssfs_read_total:
  assumes "meta_ok st" "private_data file = Num i" "unat count < 2 ^ 63"
    "unat (i_size st (inode_addr (ucast i))) \<le> 4096"
  shows "abyssfs_read file count st \<noteq> None"
proof (cases "unat (ucast i :: u32) < 512")
  case True
  let ?p = "inode_addr (ucast i)" let ?s = "ucast (i_size st ?p) :: u64"
  have f: "file_inode file = Some (ucast i)" "get_inode (ucast i) st = Some ?p"
    using assms(2) True by (simp_all add: file_inode_def get_inode_ok [OF meta_ok_sb [OF assms(1)]])
  note u = abyssfs_read_def f bind.bind_lunit option.case Let_def
  show ?thesis
  proof (cases "f_pos file \<ge> ?s")
    case True
    then show ?thesis by (simp add: u)
  next
    case False
    have s: "unat ?s \<le> 4096" using assms(4) by (simp add: unat_ucast_32)
    have "unat (i_blocks st ?p) < 64" using meta_ok_block [OF assms(1) \<open>unat (ucast i) < 512\<close>] by (auto simp: block_ok_def)
    then have "unat (i_blocks st ?p * of_nat BLOCK_SIZE) + 4096 \<le> DISK_SIZE" by (simp add: BLOCK_SIZE_def DISK_SIZE_def unat_word_ariths)
    then have "unat (i_blocks st ?p * of_nat BLOCK_SIZE) + unat (f_pos file)
        + unat (if f_pos file + count > ?s then ?s - f_pos file else count) \<le> DISK_SIZE"
      using read_count_bound(3) [OF False _ assms(3)] s by simp
    then show ?thesis unfolding u if_not_P [OF False] by (simp only: not_less [symmetric] if_False option.distinct not_False_eq_True)
  qed
next
  case False
  then show ?thesis using assms(2) by (simp add: abyssfs_read_def file_inode_def get_inode_ok [OF meta_ok_sb [OF assms(1)]])
qed

lemma vfs_read_None:
  assumes "kernel_ok k" "unat count < 2 ^ 63" "vfs_read d count k = None"
  shows "\<exists>a i. get_file d k = Some a \<and> f_ops (fobjs (km k) a) = Some AbyssFs \<and> private_data (fobjs (km k) a) = Num i
    \<and> 4096 < unat (i_size (disk k) (inode_addr (ucast i)))"
proof -
  from assms(3) obtain a fs where a: "get_file d k = Some a" "f_ops (fobjs (km k) a) = Some fs" "fop_read fs a count k = None"
    by (auto simp: vfs_read_get_file split: option.splits)
  from assms(1) a(2) show ?thesis
  proof (cases rule: obj_kind)
    case (ram i)
    then show ?thesis using a(3) ramfs_read_spec [OF kernel_ok_parts(3) [OF assms(1)] ram(2), of count] assms(2) by (simp add: fop_read_eq)
  next
    case (abyss i)
    then have "abyssfs_read (fobjs (km k) a) count (disk k) = None" using a(3) by (auto simp: fop_read_eq bind_None_iff)
    then have "4096 < unat (i_size (disk k) (inode_addr (ucast i)))"
      using abyssfs_read_total [OF kernel_ok_parts(4) [OF assms(1)] abyss(2) assms(2)] by force
    then show ?thesis using a abyss by blast
  qed
qed

text \<open>Where a fork is not defined.\<close>

lemma fork_message_None:
  "send_message e (blank_message (msg_code MSG_FORK)) m = None \<longleftrightarrow> current_process (pt (kern m)) = None \<or> 4 \<le> process_count (pt (kern m))"
proof -
  have "send_message e (blank_message (msg_code MSG_FORK)) m = None \<longleftrightarrow> create_process (env_lm e) (pt (kern m)) = None"
    by (cases "create_process (env_lm e) (pt (kern m))") (auto simp: send_message_def blank_message_def msg_fork_def)
  moreover have "create_process lm s = None \<longleftrightarrow> current_process s = None \<or> 4 \<le> process_count s" for lm s
    by (cases "current_process s") (simp_all add: create_process_def get_current_process_def Let_def MAX_PROCESSES_def)
  ultimately show ?thesis by simp
qed

section \<open>Properties\<close>

text \<open>C1: a well-formed state stays well formed through every sequence of messages, calls of the virtual file system, operations of the process table, lines
  typed to the shell and exceptions from user mode (with any registers and user memory) whose behaviour is defined: at most four processes, each with 31 registers, a message ring with its indices in range and a working directory that
  fits its array; every file object refers to a file of the RAM disk with a position inside it, or to an inode number; the 16 files of the RAM disk have paths and sizes that fit; the
  inodes of AbyssFS refer to no block or to one of the data blocks 9 to 63; the descriptor table has no entry at or after \<open>next_fd\<close>. The code does not guard all of this: in such a state a fork is
  undefined exactly when four processes have been created (it writes after the array), and creating a file or a directory of the RAM disk exactly when its path does not fit the
  32 bytes of its array. \<open>vfs_init\<close> leaves a well-formed state when it is run with a process; \<open>kernel_main\<close> runs it with none, and then it is undefined.\<close>

theorem kernel_state_stays_well_formed:
  assumes "kernel_ok (kern m)" "(kernel_step e)\<^sup>*\<^sup>* m m'"
  shows "kernel_ok (kern m')
    \<and> (current_process (pt (kern m')) \<noteq> None \<longrightarrow>
         (send_message e (blank_message (msg_code MSG_FORK)) m' = None \<longleftrightarrow> process_count (pt (kern m')) = 4))
    \<and> (ramfs_create p (ram (kern m')) (km (kern m')) = None \<longleftrightarrow> 32 \<le> length (if take 5 p = ''/tmp/'' then p else ''/tmp/'' @ p))
    \<and> (ramfs_mkdir p (ram (kern m')) = None \<longleftrightarrow> list_ex (\<lambda>rf. \<not> used rf) (ram (kern m')) \<and> 32 \<le> length p)
    \<and> (\<forall>h s k. unat h + 262208 \<le> 1048576 \<and> procs_ok s \<and> vfs_init ((kernel0 h)\<lparr>pt := s\<rparr>) = Some k \<longrightarrow> kernel_ok k)"
proof -
  have k: "kernel_ok (kern m')" using assms(2,1) by (rule kernel_kept.steps_inv)
  then have "process_count (pt (kern m')) \<le> 4" using kernel_ok_parts(1) by (simp add: procs_ok_def MAX_PROCESSES_def)
  then have "send_message e (blank_message (msg_code MSG_FORK)) m' = None \<longleftrightarrow> process_count (pt (kern m')) = 4"
    if "current_process (pt (kern m')) \<noteq> None"
    using that fork_message_None [of e m'] by auto
  then show ?thesis using k vfs_init_ok ramfs_path_overflow [of p "ram (kern m')" "km (kern m')"] by blast
qed

text \<open>C2: in a well-formed state every write through a descriptor, valid or not, returns, with a count between -1 and both the number of bytes given and
  4096, and leaves a well-formed state. A read returns at most as many bytes as asked for; it stays inside the
  disk except when the size recorded in an inode of AbyssFS is larger than the one block a file has.\<close>

theorem descriptor_io_in_bounds:
  assumes "kernel_ok k" "unat count \<le> length buf" "unat count < 2 ^ 63"
  shows "(\<exists>n k'. vfs_write d buf count k = Some (n, k') \<and> - 1 \<le> n \<and> n \<le> int (unat count) \<and> n \<le> 4096 \<and> kernel_ok k')
    \<and> (\<forall>n bs k'. vfs_read d count k = Some (n, bs, k') \<longrightarrow>
         (n = - 1 \<and> bs = [] \<or> n = int (length bs) \<and> length bs \<le> unat count) \<and> kernel_ok k')
    \<and> (vfs_read d count k = None \<longrightarrow> (\<exists>a i. get_file d k = Some a \<and> f_ops (fobjs (km k) a) = Some AbyssFs
         \<and> private_data (fobjs (km k) a) = Num i \<and> 4096 < unat (i_size (disk k) (inode_addr (ucast i)))))"
proof (intro conjI allI impI)
  obtain n k' where w: "vfs_write d buf count k = Some (n, k')" "- 1 \<le> n" "n \<le> int (unat count)" "n \<le> 4096"
    by (rule vfs_write_total [OF assms])
  then show "\<exists>n k'. vfs_write d buf count k = Some (n, k') \<and> - 1 \<le> n \<and> n \<le> int (unat count) \<and> n \<le> 4096 \<and> kernel_ok k'"
    using vfs_write_ok [OF assms(1)] by blast
qed (use vfs_read_bounds [OF assms(1,3)] vfs_read_ok [OF assms(1)] vfs_read_None [OF assms(1,3)] in blast)+

section \<open>Witnesses\<close>

lemma boot_kernel_start: "(kernel0 0)\<lparr>pt := pt boot_kernel\<rparr> = boot_kernel"
  by (simp add: boot_kernel_def kernel0_def)

lemma boot_procs_ok: "procs_ok (pt boot_kernel)"
  by (simp add: boot_kernel_def kernel0_def procs_ok_def ptable0_def process_ok_def demo_process_def zero_process_def zero_context_def
      mq_inv_empty VFS_MAX_PATH_def MAX_PROCESSES_def)

lemma boot_kernel_init:
  obtains k where "vfs_init ((kernel0 0)\<lparr>pt := pt boot_kernel\<rparr>) = Some k"
proof -
  have c: "map_option cwd (cur_proc boot_kernel) = Some ''/''" by (simp add: boot_kernel_def kernel0_def cur_proc_def)
  have "vfs_init boot_kernel = Option.bind (test_abyssfs (Some ''/'') (abyss_format (disk boot_kernel))) (\<lambda>d. Some ((mounted boot_kernel)\<lparr>disk := d\<rparr>))"
    unfolding c [symmetric] by (rule vfs_init_mounted) (simp_all add: boot_kernel_def kernel0_def abyss0_def)
  moreover obtain d where "test_abyssfs (Some ''/'') (abyss_format (disk boot_kernel)) = Some d" by (rule test_abyssfs_root)
  ultimately have "vfs_init boot_kernel = Some ((mounted boot_kernel)\<lparr>disk := d\<rparr>)" by simp
  then show thesis using that unfolding boot_kernel_start by blast
qed

theorem kernel_state_stays_well_formed_witness:
  "\<exists>k k'. vfs_init ((kernel0 0)\<lparr>pt := pt boot_kernel\<rparr>) = Some k \<and> k' = k\<lparr>pt := snd (queue_message (Slot 0) (blank_message 3) (pt k))\<rparr> \<and> kernel_ok k'"
proof -
  obtain k where k: "vfs_init ((kernel0 0)\<lparr>pt := pt boot_kernel\<rparr>) = Some k" by (rule boot_kernel_init)
  let ?m = "demo_machine\<lparr>kern := k\<rparr>" and ?s = "snd (queue_message (Slot 0) (blank_message 3) (pt k))"
  let ?m' = "?m\<lparr>kern := (kern ?m)\<lparr>pt := ?s, km := (km (kern ?m))\<lparr>heap_pos := heap_pos (km (kern ?m))\<rparr>\<rparr>\<rparr>"
  have "proc_call (env_lm demo_env) (heap_pos (km (kern ?m)), pt (kern ?m)) None (heap_pos (km (kern ?m)), ?s)"
    by (rule proc_call.queue [of "Slot 0" "blank_message 3" _ "fst (queue_message (Slot 0) (blank_message 3) (pt k))"]) simp
  then have "kernel_step demo_env ?m ?m'" by (rule kernel_step.process)
  then have "(kernel_step demo_env)\<^sup>*\<^sup>* ?m ?m'" by (rule r_into_rtranclp)
  moreover have "kernel_ok (kern ?m)" using vfs_init_ok [of 0 "pt boot_kernel" k] k boot_procs_ok by simp
  ultimately have "kernel_ok (kern ?m')" using kernel_state_stays_well_formed [of ?m demo_env ?m'] by blast
  with k show ?thesis by simp
qed

lemma demo_kernel_ok: "kernel_ok demo_kernel"
proof -
  have "procs_ok (pt demo_kernel)"
    by (simp add: demo_kernel_def procs_ok_def ptable0_def process_ok_def demo_process_def zero_process_def zero_context_def
        mq_inv_empty VFS_MAX_PATH_def MAX_PROCESSES_def)
  moreover have "objs_ok fs (km demo_kernel)" for fs by (simp add: demo_kernel_def kernel0_def cleared_objs)
  moreover have "meta_ok (disk demo_kernel)" by (simp add: demo_disk_def abyss_format_meta)
  ultimately show ?thesis using demo_kernel_fd by (simp add: kernel_ok_def demo_ram_inv demo_mounts_def MAX_MOUNTS_def)
qed

theorem descriptor_io_in_bounds_witness:
  "\<exists>k n k'. vfs_open ''/tmp/a'' demo_kernel = Some (0, k) \<and> vfs_write 0 ''abc'' 3 k = Some (n, k') \<and> - 1 \<le> n \<and> n \<le> 3"
proof -
  have "ram_find ''/tmp/a'' (ram demo_kernel) = Some 0" "vfs_room 1 demo_kernel"
    using demo_ram_lookup(2) demo_kernel_room vfs_room_less [of 3 demo_kernel 1] by simp_all
  then obtain f where o: "vfs_open ''/tmp/a'' demo_kernel = Some (0, install f demo_kernel)"
    by (rule vfs_open_ram [OF demo_kernel_simps(1,8), of "''/tmp/a''", rotated 2]) (simp_all add: VFS_MAX_PATH_def)
  have "unat (3 :: u64) \<le> length ''abc''" "unat (3 :: u64) < 2 ^ 63" by simp_all
  from descriptor_io_in_bounds [OF vfs_open_ok [OF demo_kernel_ok o] this, of 0, THEN conjunct1] o show ?thesis by fastforce
qed

end
