(* ===== verification/Test_Props.thy ===== *)
theory Test_Props
  imports Self_Tests Shell_Props Kernel_Safe
begin

text \<open>
  What the tests and the test programs do on a kernel that has been started: which of them show what they are meant to show.
\<close>

lemma blank_type [simp]: "msg_type (blank_message c) = c"
  by (simp add: blank_message_def)

section \<open>Messages to oneself\<close>

lemma queue_then_receive:
  assumes "mq_inv (msg_queue (procs s c))" "current_process s = Some c" "mq_list (msg_queue (procs s c)) = []"
  obtains s' where "receive_message rcv (snd (queue_message c msg s)) = Some (None, 0, msg, s')" "mq_list (msg_queue (procs s' c)) = []"
proof -
  let ?q = "msg_queue (procs s c)"
  have "mcount ?q = 0" using assms(3) length_mq_list [of ?q] by simp
  then obtain q1 where q1: "mq_put ?q msg = Some q1" by (auto simp: mq_put_def)
  note p = mq_put_Some [OF assms(1) q1]
  obtain x q2 where x: "mq_get q1 = Some (x, q2)" using ring.get_None [of q1] p assms(3) by (cases "mq_get q1") auto
  then have "mq_list q1 = x # mq_list q2" using mq_get_Some [of q1 x q2] p by blast
  then have "x = msg" "mq_list q2 = []" using p assms(3) by auto
  then show thesis using q1 x assms(2)
    by (intro that [of "pupd c (\<lambda>pr. pr\<lparr>msg_queue := q2\<rparr>) (snd (queue_message c msg s))"])
       (simp_all add: queue_message_def receive_message_def get_current_process_def)
qed

text \<open>\<open>test_ipc\<close> gets its own message back and leaves the queue empty.\<close>

lemma test_ipc_roundtrip:
  assumes "kernel_ok (kern m)" "current_process (pt (kern m)) = Some c" "mq_list (msg_queue (procs (pt (kern m)) c)) = []"
  shows "\<exists>m'. test_ipc adr m = Some (Some (None, 0, (blank_message 1)\<lparr>data := Some (''Hi'' @ [NUL]), msg_size := 2\<rparr>), m')
    \<and> mq_list (msg_queue (procs (pt (kern m')) c)) = []"
proof -
  have q: "mq_inv (msg_queue (procs (pt (kern m)) c))" by (rule procs_ok_queue [OF kernel_ok_parts(1) [OF assms(1)]])
  obtain s' where "receive_message (blank_message 0) (snd (queue_message c ((blank_message 1)\<lparr>data := Some (''Hi'' @ [NUL]), msg_size := 2\<rparr>) (pt (kern m))))
      = Some (None, 0, (blank_message 1)\<lparr>data := Some (''Hi'' @ [NUL]), msg_size := 2\<rparr>, s')" "mq_list (msg_queue (procs s' c)) = []"
    by (rule queue_then_receive [OF q assms(2,3)])
  then show ?thesis using assms(2) by (simp add: test_ipc_def get_current_process_def Let_def upd_pt_def)
qed

section \<open>Processes\<close>

text \<open>
  \<open>MSG_FORK\<close> answers 0 in the caller, which \<open>test_processes\<close> takes to be the child: the caller exits with status 42, and the branch that waits for
  the child is never taken.
\<close>

lemma test_processes_never_waits:
  assumes "test_processes e m = Some (r, m')"
  shows "\<exists>out. r = Exited out"
  using assms by (auto simp: test_processes_def send_message_def msg_fork_def)

text \<open>\<open>test_exec\<close> makes the caller continue in \<open>process3\<close> with one argument.\<close>

lemma test_exec_enters:
  assumes "kernel_ok (kern m)" "current_process (pt (kern m)) = Some c"
  shows "\<exists>msg' m'. test_exec e m = Some (Return 0, msg', m') \<and> ctx_pc (ctx (procs (pt (kern m')) c)) = process3 (env_lm e)
    \<and> ctx_sp (ctx (procs (pt (kern m')) c)) = PROCESS_STACK_TOP \<and> ctx_x (ctx (procs (pt (kern m')) c)) = [1, env_argv e] @ replicate 29 0"
proof -
  have "length (ctx_x (ctx (procs (pt (kern m)) c))) = 31"
    using kernel_ok_parts(1) [OF assms(1)] by (simp add: procs_ok_def process_ok_def)
  then have x: "(map (\<lambda>_. 0 :: u64) (ctx_x (ctx (procs (pt (kern m)) c))))[0 := 1, Suc 0 := w] = [1, w] @ replicate 29 0" for w
    by (intro nth_equalityI) (auto simp: nth_list_update nth_append nth_Cons split: nat.splits)
  show ?thesis
    using assms(2) x by (simp add: test_exec_def send_message_def msg_exec_def handle_exec_message_def get_current_process_def Let_def)
qed

section \<open>Files\<close>

text \<open>\<open>test_messages\<close> opens \<open>/hello.txt\<close> and reads nothing, whether the file is there or not.\<close>

lemma test_messages_reads_nothing:
  assumes "cur_proc (kern m) = Some pr" "ns pr = []" "vfs_room 1 (kern m)" "sb_ok (disk (kern m))" "i_size (disk (kern m)) (inode_addr 0) = 0"
  shows "\<exists>msg' m'. test_messages e buf m = Some (Return 0, msg', m') \<and> data msg' = Some buf"
proof -
  let ?k = "kern m"
  have o: "vfs_open ''/hello.txt'' ?k = Some (int (next_fd ?k), install (abyss_object ''/hello.txt'') ?k)"
    by (rule vfs_open_abyss [OF assms(1,2) _ _ assms(3)]) (simp_all add: VFS_MAX_PATH_def)
  note r = vfs_read_abyss_object [OF assms(3-5)]
  show ?thesis
    using o r by (simp add: test_messages_def send_message_def msg_open_def msg_read_def on_kern_def c_int_def Let_def)
qed

section \<open>The test programs\<close>

text \<open>A line on the console between two steps of a program.\<close>

lemma exit_then_return: "process_exit st (pt (kern m)) = Some (out, s) \<Longrightarrow> exit_then st prog_return m = Some (out, upd_pt s m)"
  by (cases out) (simp_all add: exit_then_def)

lemma process3_loop_dots:
  assumes "uart_fair (con m)" "unat counter \<le> 5"
  obtains m' where "process3_loop adr counter m = Some m'" "talks m [] (replicate (5 - unat counter) CHR ''.'') m'"
  using assms
proof (induction "5 - unat counter" arbitrary: counter m thesis)
  case 0
  then have "\<not> counter < 5" by (simp add: word_less_nat_alt)
  then have "process3_loop adr counter m = Some m" by (subst process3_loop.simps) simp
  then show ?case using 0(1) talks_refl [OF "0.prems"(2)] by (intro "0.prems"(1)) simp_all
next
  case (Suc n)
  then have c: "counter < 5" "unat counter < 5" by (simp_all add: word_less_nat_alt)
  have u: "unat (counter + 1) = unat counter + 1" using c(2) unat_add_small [of counter 1] by simp
  obtain m1 where m1: "say adr ''.'' m = Some m1" "talks m [] (crlf ''.'') m1" by (rule say_ok [OF Suc.prems(2)])
  then have f: "uart_fair (con m1)" by (simp add: talks_def)
  obtain m2 where m2: "process3_loop adr (counter + 1) m1 = Some m2" "talks m1 [] (replicate (5 - unat (counter + 1)) CHR ''.'') m2"
    by (rule Suc.hyps(1) [of "counter + 1" m1, OF _ _ f]) (use Suc.hyps(2) c(2) u in auto)
  have r: "replicate (5 - unat counter) CHR ''.'' = CHR ''.'' # replicate (5 - unat (counter + 1)) CHR ''.''"
    unfolding u using c(2) by (simp flip: replicate_Suc add: Suc_diff_Suc)
  have "process3_loop adr counter m = Some m2" using c(1) m1(1) m2(1) by (subst process3_loop.simps) simp
  then show ?case using talks_trans [OF m1(2) m2(2)] by (intro Suc.prems(1)) (simp_all add: r)
qed

text \<open>\<open>process3\<close> prints its five dots between two lines and exits.\<close>

lemma process3_output:
  assumes "uart_fair (con m)" "process_exit 0 (pt (kern m)) = Some (out, s)"
  shows "\<exists>m'. process3_run adr m = Some (out, upd_pt s m')
    \<and> talks m [] (crlf (''Process 3: Testing namespace isolation'' @ newline @ ''.....'' @ newline @ ''Process 3 done'' @ newline)) m'"
proof -
  obtain m1 where m1: "say adr (''Process 3: Testing namespace isolation'' @ newline) m = Some m1"
    "talks m [] (crlf (''Process 3: Testing namespace isolation'' @ newline)) m1" by (rule say_ok [OF assms(1)])
  then have "uart_fair (con m1)" by (simp add: talks_def)
  then obtain m2 where m2: "process3_loop adr 0 m1 = Some m2" "talks m1 [] (replicate (5 - unat (0 :: u64)) CHR ''.'') m2"
    by (rule process3_loop_dots [of m1 0 adr]) simp_all
  then have "uart_fair (con m2)" by (simp add: talks_def)
  then obtain m3 where m3: "say adr (newline @ ''Process 3 done'' @ newline) m2 = Some m3"
    "talks m2 [] (crlf (newline @ ''Process 3 done'' @ newline)) m3" by (rule say_ok)
  have p: "pt (kern m3) = pt (kern m)" using m1(2) m2(2) m3(2) by (simp add: talks_def)
  have "process3_run adr m = Some (out, upd_pt s m3)"
    using m1(1) m2(1) m3(1) exit_then_return [of 0 m3] p assms(2) by (simp add: process3_run_def)
  moreover have "talks m [] (crlf (''Process 3: Testing namespace isolation'' @ newline @ ''.....'' @ newline @ ''Process 3 done'' @ newline)) m3"
    using talks_trans [OF talks_trans [OF m1(2) m2(2)] m3(2)] by (simp add: eval_nat_numeral)
  ultimately show ?thesis by blast
qed

text \<open>
  \<open>process1\<close> opens the bound file through its new name. The name space is not followed in that direction, so AbyssFS opens its inode 0, nothing is read, and
  what the program prints as the contents of the file is what was on its stack.
\<close>

lemma process1_shows_stack:
  assumes "uart_fair (con m)" "cur_proc (kern m) = Some pr" "ns pr = [\<lparr>old_path = ''/tmp/data'', new_path = ''/private'', ns_flags = MREPL\<rparr>]"
    and "vfs_room 1 (kern m)" "sb_ok (disk (kern m))" "i_size (disk (kern m)) (inode_addr 0) = 0" "cstr_of buf = Some s"
  shows "\<exists>m1. process1_open adr buf m = process1_list adr m1
    \<and> tx (con m1) = tx (con m) @ crlf (''Accessing file through namespace as /private/test.txt'' @ newline @ ''Read through namespace: '') @ crlf s @ crlf newline"
proof -
  let ?k = "kern m" let ?f = "abyss_object ''/private/test.txt''"
  obtain m1 where m1: "say adr (''Accessing file through namespace as /private/test.txt'' @ newline) m = Some m1"
    "talks m [] (crlf (''Accessing file through namespace as /private/test.txt'' @ newline)) m1" by (rule say_ok [OF assms(1)])
  have k1: "kern m1 = ?k" "uart_fair (con m1)" using m1(2) by (simp_all add: talks_def)
  have "resolve_path ''/private/test.txt'' ?k = Some ''/private/test.txt''" using assms(2,3) by (simp add: resolve_path_def VFS_MAX_PATH_def)
  then have o: "vfs_open ''/private/test.txt'' ?k = Some (int (next_fd ?k), install ?f ?k)"
    by (rule vfs_open_abyss_at [OF _ _ assms(4)]) simp
  note r = vfs_read_abyss_object [OF assms(4-6)]
  obtain m2 where m2: "say_all adr [''Read through namespace: '', s, newline] (m1\<lparr>kern := install ?f ?k\<rparr>) = Some m2"
    "talks (m1\<lparr>kern := install ?f ?k\<rparr>) [] (concat (map crlf [''Read through namespace: '', s, newline])) m2"
    by (rule say_all_ok [of "m1\<lparr>kern := install ?f ?k\<rparr>"]) (use k1(2) in simp)
  have "process1_open adr buf m = process1_list adr m2"
    using m1(1) k1(1) o r assms(7) m2(1)
    by (simp add: process1_open_def process1_read_def process1_show_def on_kern_def Let_def del: say_all.simps)
  moreover have "tx (con m2) = tx (con m) @ crlf (''Accessing file through namespace as /private/test.txt'' @ newline @ ''Read through namespace: '') @ crlf s @ crlf newline"
    using m1(2) m2(2) by (simp add: talks_def)
  ultimately show ?thesis by blast
qed


section \<open>Files of the RAM disk\<close>

lemma ramfs_create_file_find:
  assumes "ramfs_inv fs" "first_idx (\<lambda>rf. \<not> used rf) fs = Some i" "ram_find p fs = None" "length p < MAX_PATH" "length c < MAX_CONTENT"
  obtains fs' where "ramfs_create_file p c fs = (0, fs')" "ramfs_inv fs'" "ram_find p fs' = Some i" "rf_bytes (fs' ! i) = c"
proof -
  have i: "i < length fs" using assms(2) by (simp add: first_idx_Some_iff)
  have t: "take (MAX_PATH - 1) p = p" "take (MAX_CONTENT - 1) c = c" using assms(4,5) by simp_all
  define rf where "rf = (fs ! i)\<lparr>used := True, rf_path := p, content := mwrite (content (fs ! i)) 0 (c @ [NUL]), rf_size := of_nat (length c)\<rparr>"
  have c: "ramfs_create_file p c fs = (0, fs[i := rf])" unfolding ramfs_create_file_def assms(2) option.case Let_def t rf_def ..
  have sz: "unat (of_nat (length c) :: u64) = length c" using assms(5) by (simp add: unat_of_nat MAX_CONTENT_def)
  have "ram_find p (fs[i := rf]) = Some i"
    using assms(3) i by (auto simp: ram_find_def first_idx_Some_iff first_idx_None_iff rf_def)
  moreover have "rf_bytes rf = c"
    by (rule nth_equalityI) (simp_all add: rf_bytes_def rf_def sz mwrite_in nth_append)
  moreover have "ramfs_inv (fs[i := rf])" by (rule ramfs_create_file_keeps [OF assms(1) c])
  ultimately show thesis using i by (intro that [OF c]) simp_all
qed

text \<open>Opening a file of the RAM disk and reading from its start, with the states in between.\<close>

lemma vfs_open_read_ram:
  assumes "ramfs_inv (ram k)" "cur_proc k = Some pr" "ns pr = []" "vfs_room 1 k" "unat count \<le> 2 ^ 63"
    and "take 5 p = ''/tmp/''" "length p < VFS_MAX_PATH" "ram_find p (ram k) = Some i"
  defines "bs \<equiv> take (unat count) (rf_bytes (ram k ! i))"
  obtains g where "vfs_open p k = Some (int (next_fd k), install g k)"
    "vfs_read (int (next_fd k)) count (install g k) = Some (int (length bs), bs, move_pos (heap_pos (km k)) (length bs) (install g k))"
proof -
  obtain g where op: "vfs_open p k = Some (int (next_fd k), install g k)" and g: "ram_object i g"
    by (rule vfs_open_ram [OF assms(2,3,6-8,4)])
  have "i < length (ram k)" using assms(8) unfolding ram_find_def by (rule first_idx_lt)
  then have "ram_fd (int (next_fd k)) (heap_pos (km k)) i (install g k)" using ram_fd_install [OF assms(4) g] by simp
  from vfs_read_ram [OF _ this assms(5)] assms(1) g show thesis by (intro that [OF op]) (simp add: ram_object_def bs_def)
qed

text \<open>Both tests of the RAM disk succeed without a word when the disk has a free place and no file of that name.\<close>

lemma test_vfs_silent:
  assumes "ramfs_inv (ram (kern m))" "first_idx (\<lambda>rf. \<not> used rf) (ram (kern m)) = Some i" "ram_find ''/tmp/test.txt'' (ram (kern m)) = None"
    and "cur_proc (kern m) = Some pr" "ns pr = []" "vfs_room 1 (kern m)"
  shows "\<exists>k. test_vfs adr m = Some (m\<lparr>kern := k\<rparr>)" "\<exists>k. test_ramfs adr m = Some (m\<lparr>kern := k\<rparr>)"
proof -
  let ?p = "''/tmp/test.txt''"
  obtain fs' where f: "ramfs_create_file ?p ''Hello from RAMFS!'' (ram (kern m)) = (0, fs')" "ramfs_inv fs'" "ram_find ?p fs' = Some i"
      "rf_bytes (fs' ! i) = ''Hello from RAMFS!''"
    by (rule ramfs_create_file_find [OF assms(1-3), of "''Hello from RAMFS!''"]) (simp_all add: MAX_PATH_def MAX_CONTENT_def)
  let ?k = "(kern m)\<lparr>ram := fs'\<rparr>"
  have k: "cur_proc ?k = Some pr" "vfs_room 1 ?k" using assms(4,6) by (simp_all add: cur_proc_def vfs_room_def fd_inv_def)
  have p: "take 5 ?p = ''/tmp/''" "length ?p < VFS_MAX_PATH" "ram_find ?p (ram ?k) = Some i" by (simp_all add: f(3) VFS_MAX_PATH_def)
  have io: "\<exists>k1 k2. vfs_open ?p ?k = Some (int (next_fd ?k), k1) \<and> vfs_read (int (next_fd ?k)) count k1
      = Some (int (length (take (unat count) ''Hello from RAMFS!'')), take (unat count) ''Hello from RAMFS!'', k2)" if "unat count \<le> 2 ^ 63" for count
    by (rule vfs_open_read_ram [OF _ k(1) assms(5) k(2) that p]) (use f(2,4) in auto)
  from this [of 128] obtain k1 k2 where "vfs_open ?p ?k = Some (int (next_fd ?k), k1)"
    "vfs_read (int (next_fd ?k)) 128 k1 = Some (17, ''Hello from RAMFS!'', k2)" by auto
  then have "test_vfs adr m = Some (m\<lparr>kern := k2\<rparr>)" using f(1) by (simp add: test_vfs_def on_ram_def on_kern_def Let_def)
  then show "\<exists>k. test_vfs adr m = Some (m\<lparr>kern := k\<rparr>)" by blast
  from io [of 64] obtain k1 k2 where "vfs_open ?p ?k = Some (int (next_fd ?k), k1)"
    "vfs_read (int (next_fd ?k)) 64 k1 = Some (17, ''Hello from RAMFS!'', k2)" by auto
  then have "test_ramfs adr m = Some (m\<lparr>kern := k2\<rparr>)" using f(1) by (simp add: test_ramfs_def on_ram_def on_kern_def Let_def)
  then show "\<exists>k. test_ramfs adr m = Some (m\<lparr>kern := k\<rparr>)" by blast
qed

section \<open>Bindings that do not exist\<close>

text \<open>A listing in a process without bindings goes straight to the file system of the mount.\<close>

lemma vfs_read_dir_plain:
  assumes "cur_proc k = Some pr" "ns pr = []" "find_mount p k = Some mp"
  shows "vfs_read_dir p n k = map_option (\<lambda>r. (r, k)) (fs_read_dir (mp_fs mp) p n k)"
proof -
  have r: "resolve_namespace_path p k = Some (p, k)" using assms(1,2) by (simp add: resolve_namespace_path_def)
  show ?thesis unfolding vfs_read_dir_def r bind.bind_lunit prod.case assms(3) option.case by (cases "fs_read_dir (mp_fs mp) p n k") simp_all
qed

lemma abyssfs_read_dir_missing:
  assumes "abyss_wf st es" "s \<notin> fst ` set es" "s \<noteq> []" "CHR ''/'' \<notin> set s" "NUL \<notin> set s" "length s \<le> 255"
  shows "abyssfs_read_dir (CHR ''/'' # s) n st = Some None"
proof -
  have "map_of es s = None" using assms(2) by (simp add: map_of_eq_None_iff)
  then have "get_inode_by_path s st = Some None" using lookup_root [OF assms(1,3-6)] by simp
  then show ?thesis using assms(3) by (simp add: abyssfs_read_dir_def)
qed

text \<open>Binding to a directory that AbyssFS does not have fails and changes nothing.\<close>

lemma bind_missing_fails:
  assumes "cur_proc k = Some pr" "ns pr = []" "mount_points k = demo_mounts" "abyss_wf (disk k) es"
    and "s \<notin> fst ` set es" "s \<noteq> []" "CHR ''/'' \<notin> set s" "NUL \<notin> set s" "length s \<le> 255" "take 3 s \<noteq> ''tmp''"
  shows "bind_ns ''/tmp'' (CHR ''/'' # s) fl k = Some (-1, k)"
proof -
  have t: "take (Suc (Suc (Suc 0))) s \<noteq> ''tmp''" using assms(10) by (simp add: numeral_3_eq_3)
  have m: "find_mount ''/tmp'' k = Some (demo_mounts ! 1)" "find_mount (CHR ''/'' # s) k = Some (demo_mounts ! 0)"
    using t assms(6) by (simp_all add: find_mount_def assms(3) demo_mounts_def Let_def)
  have "vfs_read_dir ''/tmp'' 1 k = Some (Some (ramfs_read_dir ''/tmp'' 1 (ram k)), k)"
    unfolding vfs_read_dir_plain [OF assms(1,2) m(1)] by (simp add: demo_mounts_def fs_read_dir_eq)
  moreover have "vfs_read_dir (CHR ''/'' # s) 1 k = Some (None, k)"
    unfolding vfs_read_dir_plain [OF assms(1,2) m(2)] using abyssfs_read_dir_missing [OF assms(4-9), of 1]
    by (simp add: demo_mounts_def fs_read_dir_eq)
  ultimately show ?thesis by (simp add: bind_ns_def)
qed


text \<open>One turn of the loop of \<open>process2\<close>.\<close>

lemma process2_loop_abyss:
  assumes "cur_proc (kern m) = Some pr" "ns pr = []" "take 5 p \<noteq> ''/tmp/''" "length p < VFS_MAX_PATH" "vfs_room 1 (kern m)"
    and "sb_ok (disk (kern m))" "i_size (disk (kern m)) (inode_addr 0) = 0"
  shows "process2_loop adr (p # ps) m = process2_loop adr ps (m\<lparr>kern := install (abyss_object p) (kern m)\<rparr>)"
  using vfs_open_abyss [OF assms(1-5)] vfs_read_abyss_object [OF assms(5-7)] by (simp add: on_kern_def)

lemma process2_loop_ram:
  assumes "uart_fair (con m)" "ramfs_inv (ram (kern m))" "cur_proc (kern m) = Some pr" "ns pr = []" "vfs_room 1 (kern m)"
    and "take 5 p = ''/tmp/''" "length p < VFS_MAX_PATH" "ram_find p (ram (kern m)) = Some i" "rf_bytes (ram (kern m) ! i) \<noteq> []"
  obtains m1 g n where "process2_loop adr (p # ps) m = process2_loop adr ps m1"
    "kern m1 = move_pos (heap_pos (km (kern m))) n (install g (kern m))" "uart_fair (con m1)"
    "tx (con m1) = tx (con m) @ crlf ''Successfully read through '' @ crlf p @ crlf newline"
proof -
  let ?k = "kern m" and ?n = "length (take (unat (128 :: u64)) (rf_bytes (ram (kern m) ! i)))"
  obtain g where g: "vfs_open p ?k = Some (int (next_fd ?k), install g ?k)"
    "vfs_read (int (next_fd ?k)) 128 (install g ?k) = Some (int ?n, take (unat (128 :: u64)) (rf_bytes (ram ?k ! i)), move_pos (heap_pos (km ?k)) ?n (install g ?k))"
    by (rule vfs_open_read_ram [OF assms(2-5) _ assms(6-8), of 128]) simp
  let ?m = "m\<lparr>kern := move_pos (heap_pos (km ?k)) ?n (install g ?k)\<rparr>"
  obtain m1 where m1: "say_all adr [''Successfully read through '', p, newline] ?m = Some m1"
    "talks ?m [] (concat (map crlf [''Successfully read through '', p, newline])) m1"
    by (rule say_all_ok [of ?m]) (simp add: assms(1))
  have "0 < int ?n" using assms(9) by (simp add: length_greater_0_conv [symmetric] del: length_greater_0_conv)
  then have "process2_loop adr (p # ps) m = process2_loop adr ps m1"
    using g m1(1) by (simp add: on_kern_def del: say_all.simps)
  then show thesis by (rule that [of m1 ?n g]) (use m1(2) in \<open>simp_all add: talks_def\<close>)
qed

text \<open>
  \<open>process2\<close> binds \<open>/tmp\<close> to two directories that do not exist; both bindings fail unnoticed, opening the files below them succeeds all the
  same, and the program reports success for the original path alone.
\<close>

theorem process2_reads_only_original:
  assumes "uart_fair (con m)" "cur_proc (kern m) = Some pr" "ns pr = []" "mount_points (kern m) = demo_mounts"
    and "abyss_wf (disk (kern m)) es" "''data'' \<notin> fst ` set es" "''backup'' \<notin> fst ` set es" "i_size (disk (kern m)) (inode_addr 0) = 0"
    and "ramfs_inv (ram (kern m))" "first_idx (\<lambda>rf. \<not> used rf) (ram (kern m)) = Some i" "ram_find ''/tmp/shared.txt'' (ram (kern m)) = None"
    and "vfs_room 3 (kern m)" "process_exit 0 (pt (kern m)) = Some (out, s)"
  shows "\<exists>m'. process2 adr m = Some (out, m') \<and> tx (con m') = tx (con m)
    @ crlf (''Process 2: Testing multiple namespace bindings'' @ newline @ ''Successfully read through /tmp/shared.txt'' @ newline)"
proof -
  let ?p = "''/tmp/shared.txt''" and ?c = "''Shared through namespaces''"
  obtain m1 where m1: "say adr (''Process 2: Testing multiple namespace bindings'' @ newline) m = Some m1"
    "talks m [] (crlf (''Process 2: Testing multiple namespace bindings'' @ newline)) m1" by (rule say_ok [OF assms(1)])
  have k1: "kern m1 = kern m" "uart_fair (con m1)" using m1(2) by (simp_all add: talks_def)
  have b: "bind_ns ''/tmp'' ''/data'' MREPL (kern m) = Some (-1, kern m)" "bind_ns ''/tmp'' ''/backup'' MREPL (kern m) = Some (-1, kern m)"
    by (rule bind_missing_fails [OF assms(2-5)]; use assms(6,7) in simp)+
  obtain fs' where f: "ramfs_create_file ?p ?c (ram (kern m)) = (0, fs')" "ramfs_inv fs'" "ram_find ?p fs' = Some i" "rf_bytes (fs' ! i) = ?c"
    by (rule ramfs_create_file_find [OF assms(9-11), of ?c]) (simp_all add: MAX_PATH_def MAX_CONTENT_def)
  define k where "k = (kern m)\<lparr>ram := fs'\<rparr>"
  define m4 where "m4 = m1\<lparr>kern := k\<rparr>"
  have k: "cur_proc k = Some pr" "vfs_room 3 k" "sb_ok (disk k)" "i_size (disk k) (inode_addr 0) = 0" "pt k = pt (kern m)"
    using assms(2,8,12) abyss_wf_sb [OF assms(5)] by (simp_all add: k_def cur_proc_def vfs_room_def fd_inv_def)
  have p: "take 5 ?p = ''/tmp/''" "length ?p < VFS_MAX_PATH" by (simp_all add: VFS_MAX_PATH_def)
  have m4: "uart_fair (con m4)" "kern m4 = k" "ram k = fs'" "tx (con m4) = tx (con m1)" using k1(2) by (simp_all add: m4_def k_def)
  obtain m5 g n where m5: "process2_loop adr [?p, ''/data/shared.txt'', ''/backup/shared.txt''] m4 = process2_loop adr [''/data/shared.txt'', ''/backup/shared.txt''] m5"
    "kern m5 = move_pos (heap_pos (km (kern m4))) n (install g (kern m4))" "uart_fair (con m5)"
    "tx (con m5) = tx (con m4) @ crlf ''Successfully read through '' @ crlf ?p @ crlf newline"
    by (rule process2_loop_ram [OF m4(1) _ _ assms(3) _ p, of i adr "[''/data/shared.txt'', ''/backup/shared.txt'']"])
       (use m4 f k vfs_room_less [OF k(2), of 1] in simp_all)
  have k5: "cur_proc (kern m5) = Some pr" "vfs_room 2 (kern m5)" "sb_ok (disk (kern m5))" "i_size (disk (kern m5)) (inode_addr 0) = 0"
    "pt (kern m5) = pt (kern m)"
    using k install_room [of 2 k g] by (simp_all add: m5(2) m4(2) cur_proc_def vfs_room_def fd_inv_def numeral_3_eq_3)
  define m6 where "m6 = m5\<lparr>kern := install (abyss_object ''/data/shared.txt'') (kern m5)\<rparr>"
  define m7 where "m7 = m6\<lparr>kern := install (abyss_object ''/backup/shared.txt'') (kern m6)\<rparr>"
  have k6: "cur_proc (kern m6) = Some pr" "vfs_room 1 (kern m6)" "sb_ok (disk (kern m6))" "i_size (disk (kern m6)) (inode_addr 0) = 0"
    using k5 install_room [of 1 "kern m5"] by (simp_all add: m6_def numeral_2_eq_2)
  have "process2_loop adr [''/data/shared.txt'', ''/backup/shared.txt''] m5 = process2_loop adr [''/backup/shared.txt''] m6"
    unfolding m6_def by (rule process2_loop_abyss [OF k5(1) assms(3)]) (use k5 vfs_room_less [OF k5(2), of 1] in \<open>simp_all add: VFS_MAX_PATH_def\<close>)
  also have "\<dots> = process2_loop adr [] m7"
    unfolding m7_def by (rule process2_loop_abyss [OF k6(1) assms(3)]) (use k6 in \<open>simp_all add: VFS_MAX_PATH_def\<close>)
  finally have l: "process2_loop adr [?p, ''/data/shared.txt'', ''/backup/shared.txt''] m4 = Some m7" using m5(1) by simp
  have "pt (kern m7) = pt (kern m)" using k5(5) by (simp add: m7_def m6_def)
  then have e: "exit_then 0 prog_return m7 = Some (out, upd_pt s m7)" using exit_then_return [of 0 m7] assms(13) by simp
  have m4': "snd (on_ram (ramfs_create_file ?p ?c (ram (kern m))) m1) = m4" using k1(1) by (simp add: on_ram_def f(1) m4_def k_def)
  have m1k: "m1\<lparr>kern := kern m\<rparr> = m1" using k1(1) [symmetric] by simp
  have "process2 adr m = Some (out, upd_pt s m7)"
    unfolding process2_def m1(1) bind.bind_lunit k1(1) on_kern_def b option.map prod.case
    using m4' l e k1(1) by (simp add: on_kern_def b m1k Let_def del: process2_loop.simps)
  moreover have "tx (con (upd_pt s m7)) = tx (con m)
    @ crlf (''Process 2: Testing multiple namespace bindings'' @ newline @ ''Successfully read through /tmp/shared.txt'' @ newline)"
    using m1(2) m4(4) m5(4) by (simp add: upd_pt_def m7_def m6_def talks_def)
  ultimately show ?thesis by blast
qed

lemma demo_kernel_exit: "\<exists>s. process_exit 0 (pt demo_kernel) = Some (Some Idle, s)"
  by (simp add: process_exit_def demo_kernel_def ptable0_def demo_process_def zero_process_def pupd_def schedule_def
      ready_remove.simps sched_scan.simps Let_def)

theorem process2_reads_only_original_witness:
  "\<exists>m'. process2 id demo_machine = Some (Some Idle, m')
    \<and> tx (con m') = crlf (''Process 2: Testing multiple namespace bindings'' @ newline @ ''Successfully read through /tmp/shared.txt'' @ newline)"
proof -
  obtain s where s: "process_exit 0 (pt (kern demo_machine)) = Some (Some Idle, s)" using demo_kernel_exit by auto
  have "i_size demo_disk (inode_addr 0) = 0"
    by (simp add: i_size_def inode_addr_def ld32_def demo_disk_zero DISK_SIZE_def)
  moreover have "ram_find ''/tmp/shared.txt'' demo_ram = None"
    by (simp add: ram_find_def demo_ram_eq zero_ramfs_file_def first_idx_None_iff)
  ultimately show ?thesis
    using process2_reads_only_original [of demo_machine demo_process "[(''.'', 1), (''..'', 1)]" 1 "Some Idle" s id]
      s demo_disk_wf demo_ram_inv demo_ram_free demo_kernel_room idle_uart_fair by (simp add: idle_uart_def)
qed

end
