(* ===== verification/Spec2Isabelle.thy ===== *)
theory Spec2Isabelle
  imports String_Props Kmalloc Syscall User_Shell Wait_Exit Test_Props
begin

text \<open>
  ChthonOS: a verification library for the kernel under \<open>src/\<close>.

  \<^bold>\<open>The program.\<close> ChthonOS is a small AArch64 kernel in the style of Plan 9. Processes live in a table and on a linked list; one
  processor runs one of them at a time and switches when a process waits or exits (\<open>process.c\<close>, \<open>context_switch.S\<close>). Processes exchange
  messages through ring buffers and ask the kernel for services by sending it messages (\<open>message.c\<close>); a user program does so with a system call
  (\<open>exceptions.c\<close>, \<open>exceptions.S\<close>). Files are reached through a virtual file system (\<open>vfs.c\<close>) that has a mount table, a descriptor table
  and a name space per process (\<open>namespace.c\<close>), over two file systems: a RAM disk (\<open>ramfs.c\<close>) and AbyssFS, a block file system on a
  disk kept in memory (\<open>abyssfs.c\<close>). A shell in the kernel (\<open>shell.c\<close>) and one in user mode (\<open>user_shell.c\<close>) read commands from a serial
  line (\<open>uart.c\<close>). Underneath are a string library (\<open>string.c\<close>), a bump allocator (\<open>kmalloc.c\<close>), page tables (\<open>mmu.c\<close>), the
  interrupt controller and the timer (\<open>gic.c\<close>, \<open>timer.c\<close>), and \<open>kernel_main\<close>, which starts everything (\<open>kernel.c\<close>).

  \<^bold>\<open>Theories and sources.\<close> Definitions keep the names of the source; a record is a C structure or the statics of a file.
  \<^item> \<open>Prelude\<close>: bytes, words, byte memories with typed loads and stores, options as computations, the first slot of an array with a property,
    the locale \<open>kept\<close> of an invariant that every step keeps.
  \<^item> \<open>Cstring\<close>, \<open>String_Props\<close>: \<open>src/src/mm/string.c\<close> on a flat memory. Every routine is shown to return on C strings and to compute a function of the
    strings alone (\<open>strcmp_s\<close>, \<open>strtok_s\<close>, \<open>tokens\<close>, \<open>last_idx\<close>, ...); the other theories use these functions.
  \<^item> \<open>Kmalloc\<close>: \<open>src/src/mm/kmalloc.c\<close> with 64-bit wrap-around.
  \<^item> \<open>Msg_Queue\<close>, \<open>Process\<close>, \<open>Sched\<close>, \<open>Proc_Props\<close>: messages, ring buffers, the process table, scheduling, fork, exit, wait, exec. \<open>ksched_step\<close> is the
    relation of the operations that go on after \<open>init_process\<close>, \<open>proc_inv\<close> its invariant. \<open>Sched_Runs\<close> has the runs from both starts of the table, \<open>init_process\<close> and the boot path
    through \<open>process_init\<close> and \<open>process_create\<close>, with \<open>process_exit\<close> and with operations that end in the idle loop (\<open>proc_call\<close>, \<open>proc_step\<close>).
  \<^item> \<open>File_Types\<close>, \<open>Ramfs\<close>, \<open>Ramfs_Props\<close>: file objects and the RAM disk.
  \<^item> \<open>Abyss_Layout\<close>, \<open>Abyssfs\<close> (the code), \<open>Abyss_Dir\<close>, \<open>Abyss_Inv\<close>, \<open>Abyss_Ops\<close>, \<open>Abyss_Props\<close>: AbyssFS down to the bytes of inodes and directory records.
    Directory blocks are abstracted to association lists (\<open>dir_at\<close>), the bitmap to a set, the disk to \<open>abyss_wf\<close>. \<open>Abyss_Tree\<close> has trees of
    directories (\<open>tree_ok\<close>) and \<open>abyssfs_mkdir\<close> at any place in them. \<open>Abyss_Meta\<close> has the weaker invariant \<open>meta_ok\<close> of
    super block and inodes, which every operation keeps on every path, with the defects of the code.
  \<^item> \<open>Path_Norm\<close>, \<open>Vfs\<close> (the code), \<open>Vfs_Inv\<close>, \<open>Vfs_Ram\<close>, \<open>Vfs_Props\<close>: the virtual file system and name spaces over the record \<open>kernel\<close>, which
    joins the states above. The tables of function pointers \<open>ramfs_fs_type\<close>, \<open>abyssfs_fs_type\<close>, \<open>ramfs_fops\<close> and \<open>abyssfs_fops\<close> are records, and a
    call through a pointer goes through them. \<open>vfs_step\<close> is the relation of all operations.
  \<^item> \<open>Uart\<close>: the serial driver over an arbitrary sequence of flag register values.
  \<^item> \<open>Message\<close>, \<open>Message_Copy\<close>, \<open>Message_Props\<close>: every case of \<open>send_message\<close>, and the loading of programs.
  \<^item> \<open>Syscall\<close>: the system call handler and the assembly that acts on its result.
  \<^item> \<open>Arch\<close>: the context switch and the page tables.
  \<^item> \<open>Shell\<close>, \<open>Shell_Props\<close>, \<open>User_Shell\<close>: the two shells, the second through the system calls.
  \<^item> \<open>Boot\<close>: \<open>kernel_main\<close>, the interrupt controller and the timer.
  \<^item> \<open>Kernel_Inv\<close>, \<open>Shell_Inv\<close>, \<open>Kernel_Safe\<close>: the invariant \<open>kernel_ok\<close> of the whole kernel, kept by every message, file system call, operation of the process table, line
    typed to the shell and exception from user mode whose behaviour is defined (the relation \<open>kernel_step\<close>). \<open>Wait_Exit\<close>: waiting, exit and resumption together.
  \<^item> \<open>Self_Tests\<close>, \<open>Test_Props\<close>: the tests at the end of \<open>kernel.c\<close> and the programs of \<open>src/src/user/process_test.c\<close>, and what they do.

  \<^bold>\<open>Conventions.\<close> A result of type \<open>option\<close> is \<open>None\<close> when the code accesses memory outside its objects, follows a null pointer or does not return. A
  pointer result that may be \<open>NULL\<close> is an inner \<open>option\<close>. Progress reports inside the kernel (\<open>vfs.c\<close>, the file systems, \<open>process.c\<close>, \<open>message.c\<close>, \<open>namespace.c\<close>, \<open>mmu.c\<close>) are
  left out; the console holds what messages, system calls, exceptions, the shells, \<open>kernel_main\<close>, the tests and the programs read and print themselves. What the hardware and the linker decide (flag registers, addresses of literals, stacks and
  tables, the exception level) are arguments.

  \<^bold>\<open>Interfaces.\<close> Each is a locale that is interpreted on the definitions of the model.
  \<^item> \<open>kept\<close> (\<open>Prelude\<close>, interpreted in \<open>Sched\<close>, \<open>Sched_Runs\<close>, \<open>Proc_Props\<close>, \<open>Kernel_Safe\<close>): an invariant of a step relation holds in all states reached.
  \<^item> \<open>bounded_fifo\<close> (\<open>Msg_Queue\<close>): a ring buffer is a bounded first-in first-out queue.
  \<^item> \<open>chain_walk\<close> (\<open>Sched\<close>): the three loops over the process list return the first element with a property.
  \<^item> \<open>arena\<close> (\<open>Kmalloc\<close>) and \<open>block_pool\<close> (\<open>Abyss_Inv\<close>): what is handed out is fresh.
  \<^item> \<open>path_map\<close> (\<open>Ramfs\<close>): creating and unlinking files update a map from paths to contents.
  \<^item> \<open>console\<close> (\<open>Uart\<close>, again \<open>User_Shell\<close>): bytes come out in the order in which they go in, at the driver and at the system calls.
  \<^item> \<open>stream_pair\<close>, \<open>stream_copy\<close> (\<open>Message_Copy\<close>, again \<open>Shell_Props\<close>): a loop that reads and writes in turn ends and copies everything;
    the loop of \<open>MSG_COPY\<close> and \<open>MSG_MOVE\<close> and that of the command \<open>cp\<close> are instances.

  \<^bold>\<open>What is shown.\<close>
  \<^item> The kernel as a whole: a well-formed state stays well formed under every sequence of operations with defined behaviour; a fork and the creation of RAM disk files
    and directories are undefined there exactly where the code tests no bound; access through descriptors stays in
    its bounds, with one exception that is stated.
  \<^item> Processes and messages: from both starts at most the current process runs, a terminated process never runs again, the scheduler takes the first ready process, fork, exit
    and wait do what they should, a waiting parent receives the status of its child, queues keep their order and never overflow.
  \<^item> File systems: creating and removing files in the root, making directories anywhere and path lookup on AbyssFS are the operations on association lists; blocks are
    never handed out twice and come back when freed; data written is read back, on both file systems and, under \<open>/tmp\<close>, through descriptors; path normalisation is the reduction
    of components when no name ends in a dot; the longest mounted prefix is chosen; a binding redirects listings; descriptor numbers are never reused.
  \<^item> Services: copying and moving under \<open>/tmp\<close> and changing the directory by message; console output is complete and ends on hardware that keeps clearing
    its flags; a failed system call halts the machine, and what the report of an exception says; registers survive a context switch; what the page table lets user programs do, which includes
    executing, though not reading, the kernel.
  \<^item> Shells and start: the line editor agrees with what the terminal shows; \<open>cp\<close> and \<open>cd\<close>; the user shell answers every line; the
    state that \<open>vfs_init\<close> leaves.

  \<^bold>\<open>Defects.\<close> Lemmas beside the properties state what the code does where this is not what it means to do: unchecked array and buffer bounds
  (fork, RAM disk paths, \<open>MSG_READ\<close>), wrap-around in \<open>kalloc\<close>, parent and child on one stack, a context layout that differs between C and assembly, a second
  write to an AbyssFS file over the first, \<open>unlink\<close> of \<open>.\<close>, names ending in a dot damaged by normalisation, relative paths in \<open>vfs_unlink\<close>, opens outside \<open>/tmp\<close>
  that never fail, bindings that opens follow backwards, descriptors that run out, zombies that \<open>MSG_WAIT\<close> never reaps, \<open>load_program\<close> reading descriptor 0, a
  shell whose \<open>ls\<close> prints nothing and whose \<open>mv\<close> loses the file when the copy fails, a start that reads the working directory of a process that
  does not exist, reads of AbyssFS files beyond their block, directories made on blocks that are not cleared, \<open>switch_to_process\<close> and \<open>init_processes\<close>, which nothing calls, and
  tests that do not test what they say.

  \<^bold>\<open>Loops and bounds.\<close> Loops bounded by a count are structural recursions. Walks along pointers, waiting loops, copying loops and the loops of the
  shells are \<open>partial_function (option)\<close>; that they return is part of every theorem about them. No fuel is used.

  \<^bold>\<open>Not modelled.\<close> Progress reports (above); the start-up assembly
  (\<open>boot.S\<close>, \<open>enter_usermode.S\<close>, \<open>user_stub.S\<close>), of which the arguments appear; \<open>user_shell.S\<close>, the assembly version of the user shell, for which no model of the
  instruction set is built; caches, barriers and the effect of the page tables on memory accesses; interrupts arriving in the middle of kernel code, which the source
  keeps disabled.
\<close>

end
